(* ===== verification/Prelude.thy ===== *)
theory Prelude
  imports Main "HOL-Library.Word" "HOL-Library.Monad_Syntax"
begin

text \<open>
  The vocabulary the components share.  A Rust \<open>String\<close>, a C string and a Go \<open>string\<close> are all
  sequences of bytes: the type \<open>string\<close>, whose characters are exactly the 256 byte values.  A
  \<open>Vec<u8>\<close> that is not text is a list of 8-bit words.  A fallible Rust function returns
  \<open>'e + 'a\<close>, \<open>Inl\<close> for \<open>Err\<close> and \<open>Inr\<close> for \<open>Ok\<close>.  The combinators on \<open>Result\<close> and \<open>Option\<close>
  the sources use, the formatting of integers by \<open>format!\<close>, and the string functions of the
  standard library follow, each with the facts the component proofs need.
\<close>

section \<open>Types and collections of facts\<close>

type_synonym u8 = "8 word"
type_synonym u16 = "16 word"
type_synonym i32 = "32 word"
type_synonym u64 = "64 word"
type_synonym bytes = "u8 list"

named_theorems result_simps \<open>rewrite rules of the combinators on results\<close>
named_theorems text_simps \<open>rewrite rules of the text functions\<close>

abbreviation NUL :: char where "NUL \<equiv> CHR 0x00"

section \<open>Results\<close>

definition map_err :: "('e \<Rightarrow> 'f) \<Rightarrow> 'e + 'a \<Rightarrow> 'f + 'a" where
  "map_err f r = (case r of Inl e \<Rightarrow> Inl (f e) | Inr a \<Rightarrow> Inr a)"

definition and_then :: "'e + 'a \<Rightarrow> ('a \<Rightarrow> 'e + 'b) \<Rightarrow> 'e + 'b" where
  "and_then r f = (case r of Inl e \<Rightarrow> Inl e | Inr a \<Rightarrow> f a)"

definition ok_or :: "'a option \<Rightarrow> 'e \<Rightarrow> 'e + 'a" where
  "ok_or x e = (case x of None \<Rightarrow> Inl e | Some a \<Rightarrow> Inr a)"

definition to_ok :: "'e + 'a \<Rightarrow> 'a option" where
  "to_ok r = (case r of Inl _ \<Rightarrow> None | Inr a \<Rightarrow> Some a)"

definition unwrap_or :: "'a option \<Rightarrow> 'a \<Rightarrow> 'a" where
  "unwrap_or x d = (case x of None \<Rightarrow> d | Some a \<Rightarrow> a)"

definition or_else :: "'a option \<Rightarrow> 'a option \<Rightarrow> 'a option" where
  "or_else v w = (case v of None \<Rightarrow> w | Some _ \<Rightarrow> v)"

text \<open>\<open>Option<Result<T, E>>::transpose\<close> after \<open>Option::map\<close>.\<close>

definition map_transpose :: "('a \<Rightarrow> 'e + 'b) \<Rightarrow> 'a option \<Rightarrow> 'e + 'b option" where
  "map_transpose f x = (case x of None \<Rightarrow> Inr None | Some a \<Rightarrow> and_then (f a) (\<lambda>b. Inr (Some b)))"

lemma map_err_simps [simp, result_simps]:
  "map_err f (Inl e) = Inl (f e)" "map_err f (Inr a) = Inr a"
  by (simp_all add: map_err_def)

lemma and_then_simps [simp, result_simps]:
  "and_then (Inl e) g = Inl e" "and_then (Inr a) g = g a"
  by (simp_all add: and_then_def)

lemma ok_or_simps [simp, result_simps]:
  "ok_or None e = Inl e" "ok_or (Some a) e = Inr a"
  by (simp_all add: ok_or_def)

lemma to_ok_simps [simp, result_simps]:
  "to_ok (Inl e) = None" "to_ok (Inr a) = Some a"
  by (simp_all add: to_ok_def)

lemma unwrap_or_simps [simp, result_simps]:
  "unwrap_or None d = d" "unwrap_or (Some a) d = a"
  by (simp_all add: unwrap_or_def)

lemma or_else_simps [simp, result_simps]:
  "or_else None w = w" "or_else (Some x) w = Some x" "or_else v None = v"
  by (simp_all add: or_else_def split: option.split)

lemma map_transpose_simps [simp, result_simps]:
  "map_transpose f None = Inr None"
  "map_transpose f (Some a) = and_then (f a) (\<lambda>b. Inr (Some b))"
  by (simp_all add: map_transpose_def)

lemma and_then_eq_Inr: "and_then r f = Inr b \<longleftrightarrow> (\<exists>a. r = Inr a \<and> f a = Inr b)"
  by (cases r) auto

lemma and_then_eq_Inl: "and_then r f = Inl e \<longleftrightarrow> r = Inl e \<or> (\<exists>a. r = Inr a \<and> f a = Inl e)"
  by (cases r) auto

lemma map_err_eq_Inr: "map_err f r = Inr b \<longleftrightarrow> r = Inr b"
  by (cases r) auto

section \<open>Integers as text\<close>

definition digit :: "nat \<Rightarrow> char" where
  "digit n = char_of (48 + n)"

fun dec :: "nat \<Rightarrow> string" where
  "dec n = (if n < 10 then [digit n] else dec (n div 10) @ [digit (n mod 10)])"

declare dec.simps [simp del]

definition dec_int :: "int \<Rightarrow> string" where
  "dec_int i = (if i < 0 then CHR ''-'' # dec (nat (- i)) else dec (nat i))"

definition undec :: "string \<Rightarrow> nat" where
  "undec = foldl (\<lambda>a c. 10 * a + (of_char c - 48)) 0"

definition is_digit :: "char \<Rightarrow> bool" where
  "is_digit c \<longleftrightarrow> 48 \<le> (of_char c :: nat) \<and> (of_char c :: nat) \<le> 57"

definition hex_digit :: "nat \<Rightarrow> char" where
  "hex_digit n = (if n < 10 then char_of (48 + n) else char_of (87 + n))"

fun hex :: "nat \<Rightarrow> string" where
  "hex n = (if n < 16 then [hex_digit n] else hex (n div 16) @ [hex_digit (n mod 16)])"

declare hex.simps [simp del]

text \<open>The format \<open>{:02x}\<close> of a \<open>u8\<close>.\<close>

definition hex02 :: "u8 \<Rightarrow> string" where
  "hex02 b = [hex_digit (unat b div 16), hex_digit (unat b mod 16)]"

definition is_hex :: "char \<Rightarrow> bool" where
  "is_hex c \<longleftrightarrow> is_digit c \<or> (97 \<le> (of_char c :: nat) \<and> (of_char c :: nat) \<le> 102)"

definition hex_val :: "char \<Rightarrow> nat" where
  "hex_val c = (if is_digit c then of_char c - 48 else of_char c - 87)"

lemma of_char_digit: "n < 10 \<Longrightarrow> of_char (digit n) = (48 + n :: nat)"
  by (simp add: digit_def)

lemma is_digit_digit: "n < 10 \<Longrightarrow> is_digit (digit n)"
  by (simp add: is_digit_def of_char_digit)

lemma dec_nonempty [simp]: "dec n \<noteq> []"
  by (subst dec.simps) simp

lemma dec_digits: "c \<in> set (dec n) \<Longrightarrow> is_digit c"
proof (induction n rule: dec.induct)
  case (1 n)
  then show ?case
    by (subst (asm) dec.simps) (auto split: if_splits intro: is_digit_digit)
qed

lemma undec_append: "undec (xs @ [c]) = 10 * undec xs + (of_char c - 48)"
  by (simp add: undec_def)

lemma undec_dec [text_simps]: "undec (dec n) = n"
proof (induction n rule: dec.induct)
  case (1 n)
  show ?case
  proof (cases "n < 10")
    case True
    then show ?thesis by (subst dec.simps) (simp add: undec_def of_char_digit)
  next
    case False
    with 1 have "undec (dec (n div 10)) = n div 10" by simp
    with False show ?thesis
      by (subst dec.simps) (simp add: undec_append of_char_digit)
  qed
qed

lemma dec_inject: "dec m = dec n \<longleftrightarrow> m = n"
  by (metis undec_dec)

lemma is_digit_not_NUL: "is_digit c \<Longrightarrow> c \<noteq> NUL"
  by (auto simp: is_digit_def)

lemma dec_no_NUL: "NUL \<notin> set (dec n)"
  using dec_digits is_digit_not_NUL by blast

lemma of_char_hex_digit:
  "n < 16 \<Longrightarrow> of_char (hex_digit n) = (if n < 10 then 48 + n else 87 + n :: nat)"
  by (simp add: hex_digit_def)

lemma is_hex_hex_digit: "n < 16 \<Longrightarrow> is_hex (hex_digit n)"
  by (auto simp: is_hex_def is_digit_def of_char_hex_digit)

lemma hex_val_hex_digit: "n < 16 \<Longrightarrow> hex_val (hex_digit n) = n"
  by (auto simp: hex_val_def is_digit_def of_char_hex_digit)

lemma u8_bound: "unat (b :: u8) < 256"
  using unsigned_less [of b, where 'a = nat] by simp

lemma hex02_props: "length (hex02 b) = 2" "c \<in> set (hex02 b) \<Longrightarrow> is_hex c"
proof -
  show "length (hex02 b) = 2" by (simp add: hex02_def)
  assume "c \<in> set (hex02 b)"
  moreover have "unat b div 16 < 16" using u8_bound [of b] by simp
  ultimately show "is_hex c" by (auto simp: hex02_def intro: is_hex_hex_digit)
qed

definition unhex02 :: "string \<Rightarrow> u8" where
  "unhex02 s = of_nat (foldl (\<lambda>a c. 16 * a + hex_val c) 0 s)"

lemma unhex02_hex02 [text_simps]: "unhex02 (hex02 b) = b"
proof -
  have "unat b div 16 < 16" using u8_bound [of b] by simp
  then have "foldl (\<lambda>a c. 16 * a + hex_val c) 0 (hex02 b) = unat b"
    by (simp add: hex02_def hex_val_hex_digit)
  then show ?thesis by (simp add: unhex02_def)
qed

section \<open>String functions of the standard library\<close>

definition starts_with :: "string \<Rightarrow> string \<Rightarrow> bool" where
  "starts_with s p \<longleftrightarrow> take (length p) s = p"

definition ends_with :: "string \<Rightarrow> string \<Rightarrow> bool" where
  "ends_with s p \<longleftrightarrow> length p \<le> length s \<and> drop (length s - length p) s = p"

text \<open>\<open>str::split_once\<close>: the parts before and after the first occurrence of the separator.\<close>

fun split_once :: "char \<Rightarrow> string \<Rightarrow> (string \<times> string) option" where
  "split_once c [] = None"
| "split_once c (x # xs) =
     (if x = c then Some ([], xs)
      else map_option (\<lambda>(a, b). (x # a, b)) (split_once c xs))"

lemma split_once_None: "split_once c s = None \<longleftrightarrow> c \<notin> set s"
  by (induction s) auto

lemma split_once_Some:
  "split_once c s = Some (a, b) \<longleftrightarrow> s = a @ c # b \<and> c \<notin> set a"
proof (induction s arbitrary: a)
  case Nil
  then show ?case by simp
next
  case (Cons x xs)
  then show ?case by (cases a) auto
qed

text \<open>\<open>str::trim\<close> on ASCII text: White\_Space is U+0009 to U+000D and U+0020 there.\<close>

definition is_ascii_space :: "char \<Rightarrow> bool" where
  "is_ascii_space c \<longleftrightarrow> (of_char c :: nat) \<in> {9, 10, 11, 12, 13, 32}"

definition trim :: "string \<Rightarrow> string" where
  "trim s = rev (dropWhile is_ascii_space (rev (dropWhile is_ascii_space s)))"

lemma trim_subset: "set (trim s) \<subseteq> set s"
  by (auto simp: trim_def dest!: set_dropWhileD)

lemma trim_no_outer_space:
  assumes "trim s \<noteq> []"
  shows "\<not> is_ascii_space (hd (trim s)) \<and> \<not> is_ascii_space (last (trim s))"
proof -
  let ?d = "dropWhile is_ascii_space"
  let ?m = "?d s"
  have ne: "?d (rev ?m) \<noteq> []" using assms by (simp add: trim_def)
  then have l: "\<not> is_ascii_space (last (trim s))"
    by (simp add: trim_def last_rev hd_dropWhile)
  obtain ys where "rev ?m = ys @ ?d (rev ?m)"
    by (metis takeWhile_dropWhile_id)
  then have "?m = trim s @ rev ys"
    by (metis rev_append rev_rev_ident trim_def)
  then have "hd ?m = hd (trim s)" and "?m \<noteq> []" using assms by auto
  then show ?thesis using l by (metis hd_dropWhile)
qed

lemma trim_idem [simp]: "trim (trim s) = trim s"
proof (cases "trim s = []")
  case True
  show ?thesis by (simp only: True) (simp add: trim_def)
next
  case False
  have fix_hd: "dropWhile is_ascii_space xs = xs" if "xs \<noteq> []" "\<not> is_ascii_space (hd xs)" for xs
    using that by (cases xs) auto
  from trim_no_outer_space [OF False] False
  have "dropWhile is_ascii_space (trim s) = trim s"
    and "dropWhile is_ascii_space (rev (trim s)) = rev (trim s)"
    by (auto intro!: fix_hd simp: hd_rev)
  then show ?thesis by (simp add: trim_def [of "trim s"])
qed

text \<open>The text a C function reads from a buffer: the bytes before the first NUL.\<close>

definition c_text :: "string \<Rightarrow> string" where
  "c_text s = takeWhile (\<lambda>c. c \<noteq> NUL) s"

lemma c_text_id [text_simps]: "NUL \<notin> set s \<Longrightarrow> c_text s = s"
  by (auto simp: c_text_def)

lemma c_text_no_NUL: "NUL \<notin> set (c_text s)"
  by (auto simp: c_text_def dest: set_takeWhileD)

end
