(* ===== verification/Utf8.thy ===== *)
theory Utf8
  imports Prelude
begin

text \<open>
  UTF-8 as the standard libraries of Rust and Go read it.  Strings are byte sequences; a Rust
  \<open>String\<close> is one for which \<open>utf8_valid\<close> holds.  \<open>utf8_chunk\<close> classifies the head of a byte
  sequence the way \<open>core::str::lossy::Utf8Chunks\<close> does: a well-formed character and its width, or
  the length of the maximal ill-formed prefix.  \<open>utf8_lossy\<close> is \<open>to_string_lossy\<close>, which turns each
  ill-formed chunk into one U+FFFD; \<open>str_debug\<close> is the format \<open>{:?}\<close> of a \<open>str\<close>.
\<close>

definition is_cont :: "char \<Rightarrow> bool" where
  "is_cont c \<longleftrightarrow> 128 \<le> (of_char c :: nat) \<and> (of_char c :: nat) < 192"

definition utf8_width :: "char \<Rightarrow> nat" where
  "utf8_width c =
     (let b = (of_char c :: nat)
      in if b < 128 then 1
         else if 194 \<le> b \<and> b \<le> 223 then 2
         else if 224 \<le> b \<and> b \<le> 239 then 3
         else if 240 \<le> b \<and> b \<le> 244 then 4
         else 0)"

text \<open>The second byte a lead byte accepts: surrogates, overlong forms and values past U+10FFFF are
  excluded here.\<close>

definition second_ok :: "char \<Rightarrow> char \<Rightarrow> bool" where
  "second_ok c d =
     (let b = (of_char c :: nat); e = (of_char d :: nat)
      in if b = 224 then 160 \<le> e \<and> e \<le> 191
         else if b = 237 then 128 \<le> e \<and> e \<le> 159
         else if b = 240 then 144 \<le> e \<and> e \<le> 191
         else if b = 244 then 128 \<le> e \<and> e \<le> 143
         else is_cont d)"

definition utf8_chunk :: "char \<Rightarrow> string \<Rightarrow> bool \<times> nat" where
  "utf8_chunk c cs =
     (if utf8_width c = 1 then (True, 1)
      else if utf8_width c = 0 then (False, 1)
      else (case cs of
        [] \<Rightarrow> (False, 1)
      | d # ds \<Rightarrow>
          if \<not> second_ok c d then (False, 1)
          else if utf8_width c = 2 then (True, 2)
          else (case ds of
            [] \<Rightarrow> (False, 2)
          | e # es \<Rightarrow>
              if \<not> is_cont e then (False, 2)
              else if utf8_width c = 3 then (True, 3)
              else (case es of
                [] \<Rightarrow> (False, 3)
              | f # fs \<Rightarrow> if is_cont f then (True, 4) else (False, 3)))))"

definition replacement :: string where
  "replacement = [char_of (239::nat), char_of (191::nat), char_of (189::nat)]"

fun utf8_lossy :: "string \<Rightarrow> string" where
  "utf8_lossy [] = []"
| "utf8_lossy (c # cs) =
     (let (ok, n) = utf8_chunk c cs
      in (if ok then c # take (n - 1) cs else replacement) @ utf8_lossy (drop (n - 1) cs))"

fun utf8_valid :: "string \<Rightarrow> bool" where
  "utf8_valid [] = True"
| "utf8_valid (c # cs) = (let (ok, n) = utf8_chunk c cs in ok \<and> utf8_valid (drop (n - 1) cs))"

lemma utf8_chunk_ascii [simp]: "of_char c < (128::nat) \<Longrightarrow> utf8_chunk c cs = (True, 1)"
  by (simp add: utf8_chunk_def utf8_width_def)

lemma utf8_chunk_append:
  "utf8_chunk c cs = (True, n) \<Longrightarrow> utf8_chunk c (cs @ zs) = (True, n)"
  by (auto simp: utf8_chunk_def split: if_splits list.splits)

lemma utf8_chunk_take:
  "utf8_chunk c cs = (True, n) \<Longrightarrow> utf8_chunk c (take (n - 1) cs) = (True, n)"
  by (auto simp: utf8_chunk_def split: if_splits list.splits)

lemma utf8_chunk_bounds:
  "utf8_chunk c cs = (ok, n) \<Longrightarrow> 1 \<le> n \<and> n \<le> 4 \<and> n - 1 \<le> length cs"
  by (auto simp: utf8_chunk_def split: if_splits list.splits)

lemma utf8_chunk_non_ascii:
  assumes "utf8_chunk c cs = (True, n)" and "d \<in> set (take (n - 1) cs)"
  shows "128 \<le> (of_char d :: nat)"
  using assms
  by (auto simp: utf8_chunk_def is_cont_def second_ok_def Let_def split: if_splits list.splits)

lemma utf8_valid_ascii [text_simps]:
  "\<forall>c \<in> set s. of_char c < (128::nat) \<Longrightarrow> utf8_valid s"
  by (induction s) auto

lemma utf8_valid_append:
  "utf8_valid s \<Longrightarrow> utf8_valid t \<Longrightarrow> utf8_valid (s @ t)"
proof (induction s rule: utf8_valid.induct)
  case 1
  then show ?case by simp
next
  case (2 c cs)
  obtain ok n where ch: "utf8_chunk c cs = (ok, n)" by fastforce
  with 2 have ok: "ok" and IH: "utf8_valid (drop (n - 1) cs @ t)" by auto
  have "n - 1 \<le> length cs" using utf8_chunk_bounds [OF ch] by simp
  with utf8_chunk_append [of c cs n t] ch ok IH show ?case by simp
qed

lemma utf8_valid_replacement: "utf8_valid replacement"
  by (simp add: replacement_def utf8_chunk_def utf8_width_def second_ok_def is_cont_def)

lemma utf8_valid_char:
  "utf8_chunk c cs = (True, n) \<Longrightarrow> utf8_valid (c # take (n - 1) cs)"
  using utf8_chunk_take [of c cs n] by simp

lemma utf8_lossy_valid_id: "utf8_valid s \<Longrightarrow> utf8_lossy s = s"
  by (induction s rule: utf8_lossy.induct) (auto simp: Let_def split: prod.splits)

lemma utf8_valid_lossy: "utf8_valid (utf8_lossy s)"
proof (induction s rule: utf8_lossy.induct)
  case 1
  show ?case by simp
next
  case (2 c cs)
  obtain ok n where ch: "utf8_chunk c cs = (ok, n)" by fastforce
  with 2 have IH: "utf8_valid (utf8_lossy (drop (n - 1) cs))" by simp
  have "utf8_valid (if ok then c # take (n - 1) cs else replacement)"
    using ch utf8_valid_char utf8_valid_replacement by auto
  from utf8_valid_append [OF this IH] ch show ?case by simp
qed

lemma utf8_lossy_ascii_mem:
  assumes "d \<in> set (utf8_lossy s)" and "of_char d < (128::nat)"
  shows "d \<in> set s"
  using assms
proof (induction s rule: utf8_lossy.induct)
  case 1
  then show ?case by simp
next
  case (2 c cs)
  obtain ok n where ch: "utf8_chunk c cs = (ok, n)" by fastforce
  have "d \<notin> set replacement" using 2(3) by (auto simp: replacement_def)
  with 2 ch show ?case
    by (auto split: if_splits dest: in_set_takeD in_set_dropD)
qed

lemma utf8_lossy_no_NUL: "NUL \<notin> set s \<Longrightarrow> NUL \<notin> set (utf8_lossy s)"
  using utf8_lossy_ascii_mem [of NUL s] by auto

text \<open>The decoded scalar value of a well-formed character.\<close>

definition code_point :: "string \<Rightarrow> nat" where
  "code_point cs =
     (case map (of_char :: char \<Rightarrow> nat) cs of
        [a] \<Rightarrow> a
      | [a, b] \<Rightarrow> (a - 192) * 64 + (b - 128)
      | [a, b, c] \<Rightarrow> (a - 224) * 4096 + (b - 128) * 64 + (c - 128)
      | [a, b, c, d] \<Rightarrow> (a - 240) * 262144 + (b - 128) * 4096 + (c - 128) * 64 + (d - 128)
      | _ \<Rightarrow> 0)"

text \<open>
  \<open>char::escape_debug\<close> as \<open>{:?}\<close> of a \<open>str\<close> uses it.  Which non-ASCII characters are escaped is
  decided by the Unicode tables of \<open>core\<close>, generated data the model takes as the parameter \<open>esc\<close>.
\<close>

definition char_debug :: "(nat \<Rightarrow> bool) \<Rightarrow> string \<Rightarrow> string" where
  "char_debug esc cs =
     (let p = code_point cs
      in if p = 0 then [CHR 0x5C, CHR ''0'']
         else if p = 9 then [CHR 0x5C, CHR ''t'']
         else if p = 13 then [CHR 0x5C, CHR ''r'']
         else if p = 10 then [CHR 0x5C, CHR ''n'']
         else if p = 34 then [CHR 0x5C, CHR 0x22]
         else if p = 92 then [CHR 0x5C, CHR 0x5C]
         else if p < 32 \<or> p = 127 \<or> 128 \<le> p \<and> esc p then CHR 0x5C # ''u{'' @ hex p @ ''}''
         else cs)"

fun str_debug_body :: "(nat \<Rightarrow> bool) \<Rightarrow> string \<Rightarrow> string" where
  "str_debug_body esc [] = []"
| "str_debug_body esc (c # cs) =
     (let (ok, n) = utf8_chunk c cs
      in char_debug esc (c # take (n - 1) cs) @ str_debug_body esc (drop (n - 1) cs))"

definition str_debug :: "(nat \<Rightarrow> bool) \<Rightarrow> string \<Rightarrow> string" where
  "str_debug esc s = CHR 0x22 # str_debug_body esc s @ [CHR 0x22]"

end
