(* ===== verification/C_Memory.thy ===== *)
theory C_Memory
  imports Utf8
begin

text \<open>
  The part of the C heap that crosses the language boundary.  The Go library hands out strings
  (\<open>C.CString\<close>) and byte buffers (\<open>C.CBytes\<close>) it allocated with \<open>malloc\<close>; the Rust wrappers read
  them through raw pointers and give them back to \<open>spicedb_free\<close> and \<open>spicedb_free_bytes\<close>.  A
  pointer is a number, 0 the null pointer.  Undefined behaviour (freeing or reading an address that
  is not allocated, reading past the end of a block) is the value \<open>None\<close>, so a function that is
  shown to return \<open>Some\<close> commits none of it.
\<close>

datatype block = CText string | CBuf bytes

record c_heap =
  blocks :: "nat \<rightharpoonup> block"
  brk :: nat

definition heap_ok :: "c_heap \<Rightarrow> bool" where
  "heap_ok h \<longleftrightarrow> 0 < brk h \<and> (\<forall>p \<in> dom (blocks h). 0 < p \<and> p < brk h)"

definition c_malloc :: "block \<Rightarrow> c_heap \<Rightarrow> nat \<times> c_heap" where
  "c_malloc b h = (brk h, h\<lparr>blocks := (blocks h)(brk h \<mapsto> b), brk := Suc (brk h)\<rparr>)"

definition c_free :: "nat \<Rightarrow> c_heap \<Rightarrow> c_heap option" where
  "c_free p h =
     (case blocks h p of
        None \<Rightarrow> None
      | Some _ \<Rightarrow> Some (h\<lparr>blocks := (blocks h)(p := None)\<rparr>))"

text \<open>\<open>CStr::from_ptr\<close> and \<open>C.GoString\<close>: the bytes before the first NUL.\<close>

definition read_c_str :: "c_heap \<Rightarrow> nat \<Rightarrow> string option" where
  "read_c_str h p =
     (case blocks h p of Some (CText s) \<Rightarrow> Some (c_text s) | _ \<Rightarrow> None)"

text \<open>\<open>slice::from_raw_parts\<close>.\<close>

definition read_bytes :: "c_heap \<Rightarrow> nat \<Rightarrow> nat \<Rightarrow> bytes option" where
  "read_bytes h p n =
     (case blocks h p of
        Some (CBuf bs) \<Rightarrow> if n \<le> length bs then Some (take n bs) else None
      | _ \<Rightarrow> None)"

lemma malloc_fresh:
  assumes "heap_ok h" and "c_malloc b h = (p, h')"
  shows "p \<noteq> 0" and "p \<notin> dom (blocks h)" and "blocks h' = (blocks h)(p \<mapsto> b)"
    and "heap_ok h'"
proof -
  from assms have p: "p = brk h" and h': "h' = h\<lparr>blocks := (blocks h)(p \<mapsto> b), brk := Suc p\<rparr>"
    by (auto simp: c_malloc_def)
  from assms(1) have old: "q \<in> dom (blocks h) \<Longrightarrow> 0 < q \<and> q < p" for q
    by (simp add: heap_ok_def p)
  show "p \<noteq> 0" using assms(1) by (simp add: heap_ok_def p)
  show "p \<notin> dom (blocks h)" using old by blast
  show "blocks h' = (blocks h)(p \<mapsto> b)" by (simp add: h')
  show "heap_ok h'"
    using assms(1) old by (auto simp: heap_ok_def h' p less_Suc_eq)
qed

lemma free_Some:
  "blocks h p = Some b \<Longrightarrow> c_free p h = Some (h\<lparr>blocks := (blocks h)(p := None)\<rparr>)"
  by (simp add: c_free_def)

lemma free_heap_ok: "c_free p h = Some h' \<Longrightarrow> heap_ok h \<Longrightarrow> heap_ok h'"
  by (auto simp: c_free_def heap_ok_def split: option.splits if_splits)

lemma heap_ok_null: "heap_ok h \<Longrightarrow> blocks h 0 = None"
  by (auto simp: heap_ok_def)

lemma malloc_free_blocks:
  assumes "heap_ok h" and "c_malloc b h = (p, h')"
  obtains h'' where "c_free p h' = Some h''" and "blocks h'' = blocks h" and "heap_ok h''"
proof -
  note m = malloc_fresh [OF assms]
  have "c_free p h' = Some (h'\<lparr>blocks := (blocks h')(p := None)\<rparr>)"
    by (rule free_Some) (simp add: m)
  moreover have "(blocks h')(p := None) = blocks h"
    using m(2,3) by auto
  ultimately show thesis
    using that m(4) free_heap_ok by fastforce
qed

end
