(* ===== verification/Transport.thy ===== *)
theory Transport
  imports C_Memory
begin

text \<open>
  The crate \<open>spicedb-embedded-sys\<close> without its build script: the extern block of \<open>src/lib.rs\<close> (a
  record of C functions), the safe wrappers of \<open>src/instance.rs\<close> (\<open>start\<close>, \<open>dispose\<close>) and of
  \<open>src/memory.rs\<close> (\<open>call\<close>, \<open>raw_call\<close> and the seven typed methods).  The locale \<open>c_library\<close> states
  what the wrappers need of the C library; the lemmas proved in it say that they commit no undefined
  behaviour, return what the library computed, and leave no C allocation behind.
\<close>

section \<open>The C functions\<close>

text \<open>A process is its C heap and the state of the library loaded into it.\<close>

record 'l process =
  mem :: c_heap
  lib :: 'l

text \<open>The three out-parameters of \<open>spicedb_rpc\<close>.\<close>

record rpc_out =
  out_response_bytes :: nat
  out_response_len :: i32
  out_error :: nat

text \<open>
  The extern block.  A \<open>const char*\<close> argument is the text it points to, \<open>None\<close> for NULL; a returned
  pointer is an address of the C heap.  The last field is the Unicode table \<open>str_debug\<close> takes.
\<close>

record 'l ffi =
  ffi_start :: "string option \<Rightarrow> 'l process \<Rightarrow> (nat \<times> 'l process) option"
  ffi_dispose :: "u64 \<Rightarrow> 'l process \<Rightarrow> (nat \<times> 'l process) option"
  ffi_free :: "nat \<Rightarrow> 'l process \<Rightarrow> 'l process option"
  ffi_free_bytes :: "nat \<Rightarrow> 'l process \<Rightarrow> 'l process option"
  ffi_rpc :: "u64 \<Rightarrow> string \<Rightarrow> string option \<Rightarrow> string option \<Rightarrow> bytes \<Rightarrow> i32 \<Rightarrow> rpc_out \<Rightarrow> 'l process
    \<Rightarrow> (rpc_out \<times> 'l process) option"
  debug_escaped :: "nat \<Rightarrow> bool"

section \<open>Errors, trace context, method names\<close>

datatype rpc_error = RpcError string

type_synonym 'a rpc_result = "rpc_error + 'a"

fun rpc_error_text :: "rpc_error \<Rightarrow> string" where
  "rpc_error_text (RpcError e) = e"

record trace_context =
  traceparent :: "string option"
  tracestate :: "string option"

definition trace_default :: trace_context where
  "trace_default = \<lparr>traceparent = None, tracestate = None\<rparr>"

definition CHECK_PERMISSION :: string where
  "CHECK_PERMISSION = ''/authzed.api.v1.PermissionsService/CheckPermission''"

definition WRITE_RELATIONSHIPS :: string where
  "WRITE_RELATIONSHIPS = ''/authzed.api.v1.PermissionsService/WriteRelationships''"

definition DELETE_RELATIONSHIPS :: string where
  "DELETE_RELATIONSHIPS = ''/authzed.api.v1.PermissionsService/DeleteRelationships''"

definition CHECK_BULK_PERMISSIONS :: string where
  "CHECK_BULK_PERMISSIONS = ''/authzed.api.v1.PermissionsService/CheckBulkPermissions''"

definition EXPAND_PERMISSION_TREE :: string where
  "EXPAND_PERMISSION_TREE = ''/authzed.api.v1.PermissionsService/ExpandPermissionTree''"

definition READ_SCHEMA :: string where
  "READ_SCHEMA = ''/authzed.api.v1.SchemaService/ReadSchema''"

definition WRITE_SCHEMA :: string where
  "WRITE_SCHEMA = ''/authzed.api.v1.SchemaService/WriteSchema''"

lemmas method_defs =
  CHECK_PERMISSION_def WRITE_RELATIONSHIPS_def DELETE_RELATIONSHIPS_def CHECK_BULK_PERMISSIONS_def
  EXPAND_PERMISSION_TREE_def READ_SCHEMA_def WRITE_SCHEMA_def

definition unary_methods :: "string list" where
  "unary_methods = [CHECK_PERMISSION, WRITE_RELATIONSHIPS, DELETE_RELATIONSHIPS,
     CHECK_BULK_PERMISSIONS, EXPAND_PERMISSION_TREE, READ_SCHEMA, WRITE_SCHEMA]"

section \<open>The wrappers\<close>

definition c_string :: "'l ffi \<Rightarrow> string \<Rightarrow> string rpc_result" where
  "c_string F v =
     (if NUL \<in> set v
      then Inl (RpcError (''contains a NUL byte: '' @ str_debug (debug_escaped F) v))
      else Inr v)"

definition c_string_or_null :: "'l ffi \<Rightarrow> string option \<Rightarrow> string option rpc_result" where
  "c_string_or_null F v = map_transpose (c_string F) v"

text \<open>\<open>c_int::try_from(usize)\<close>.\<close>

definition c_int_try_from :: "nat \<Rightarrow> i32 option" where
  "c_int_try_from n = (if n < 2 ^ 31 then Some (of_nat n) else None)"

text \<open>Copies a C string into an owned one and gives it back to the library: the three lines that
  \<open>start\<close>, \<open>dispose\<close> and \<open>raw_call\<close> share.\<close>

definition take_c_string :: "'l ffi \<Rightarrow> nat \<Rightarrow> 'l process \<Rightarrow> (string \<times> 'l process) option" where
  "take_c_string F p s = do {
     t \<leftarrow> read_c_str (mem s) p;
     s' \<leftarrow> ffi_free F p s;
     Some (utf8_lossy t, s') }"

text \<open>What \<open>raw_call\<close> does once \<open>spicedb_rpc\<close> has returned.\<close>

definition take_response :: "'l ffi \<Rightarrow> rpc_out \<Rightarrow> 'l process \<Rightarrow> (bytes rpc_result \<times> 'l process) option" where
  "take_response F out s =
     (if out_error out \<noteq> 0 then do {
        (e, s') \<leftarrow> take_c_string F (out_error out) s;
        Some (Inl (RpcError e), s') }
      else if sint (out_response_len out) < 0 then
        Some (Inl (RpcError (''FFI returned negative response length: ''
          @ dec_int (sint (out_response_len out)))), s)
      else do {
        let len = nat (sint (out_response_len out));
        bs \<leftarrow> (if len = 0 then Some [] else read_bytes (mem s) (out_response_bytes out) len);
        s' \<leftarrow> (if out_response_bytes out \<noteq> 0 then ffi_free_bytes F (out_response_bytes out) s
               else Some s);
        Some (Inr bs, s') })"

text \<open>The three C strings of a call, converted in the order of the source.\<close>

definition c_arguments ::
    "'l ffi \<Rightarrow> string \<Rightarrow> trace_context \<Rightarrow> (string \<times> string option \<times> string option) rpc_result" where
  "c_arguments F method trace =
     and_then (c_string F method) (\<lambda>m.
     and_then (c_string_or_null F (traceparent trace)) (\<lambda>tp.
     and_then (c_string_or_null F (tracestate trace)) (\<lambda>ts.
     Inr (m, tp, ts))))"

definition raw_call ::
    "'l ffi \<Rightarrow> u64 \<Rightarrow> string \<Rightarrow> trace_context \<Rightarrow> bytes \<Rightarrow> 'l process \<Rightarrow>
     (bytes rpc_result \<times> 'l process) option" where
  "raw_call F handle method trace request_bytes s =
     (case c_int_try_from (length request_bytes) of
        None \<Rightarrow> Some (Inl (RpcError ''request too large for FFI (exceeds c_int::MAX)''), s)
      | Some request_len \<Rightarrow>
          (case c_arguments F method trace of
             Inl e \<Rightarrow> Some (Inl e, s)
           | Inr (m, tp, ts) \<Rightarrow> do {
               (out, s') \<leftarrow> ffi_rpc F handle m tp ts request_bytes request_len
                 \<lparr>out_response_bytes = 0, out_response_len = 0, out_error = 0\<rparr> s;
               take_response F out s' }))"

text \<open>
  A request and a response type of the generated protobuf code: how the first is encoded and how
  the second is decoded (an error is the text of \<open>prost::DecodeError\<close>).
\<close>

record ('q, 'r) codec =
  encode :: "'q \<Rightarrow> bytes"
  decode :: "bytes \<Rightarrow> string + 'r"

definition transport_call ::
    "'l ffi \<Rightarrow> ('q, 'r) codec \<Rightarrow> u64 \<Rightarrow> string \<Rightarrow> trace_context \<Rightarrow> 'q \<Rightarrow> 'l process \<Rightarrow>
     ('r rpc_result \<times> 'l process) option" where
  "transport_call F C handle method trace request s = do {
     (r, s') \<leftarrow> raw_call F handle method trace (encode C request) s;
     Some (and_then r (\<lambda>bs. map_err RpcError (decode C bs)), s') }"

definition check_permission where
  "check_permission F C handle request = transport_call F C handle CHECK_PERMISSION trace_default request"

definition write_relationships where
  "write_relationships F C handle request =
     transport_call F C handle WRITE_RELATIONSHIPS trace_default request"

definition delete_relationships where
  "delete_relationships F C handle request =
     transport_call F C handle DELETE_RELATIONSHIPS trace_default request"

definition check_bulk_permissions where
  "check_bulk_permissions F C handle request =
     transport_call F C handle CHECK_BULK_PERMISSIONS trace_default request"

definition expand_permission_tree where
  "expand_permission_tree F C handle request =
     transport_call F C handle EXPAND_PERMISSION_TREE trace_default request"

definition read_schema where
  "read_schema F C handle request = transport_call F C handle READ_SCHEMA trace_default request"

definition write_schema where
  "write_schema F C handle request = transport_call F C handle WRITE_SCHEMA trace_default request"

text \<open>\<open>instance::start\<close> and \<open>instance::dispose\<close>.\<close>

definition nul_error :: "string \<Rightarrow> string" where
  "nul_error v = ''nul byte found in provided data at position: ''
     @ dec (length (takeWhile (\<lambda>c. c \<noteq> NUL) v))"

definition sys_start :: "'l ffi \<Rightarrow> string option \<Rightarrow> 'l process \<Rightarrow> ((string + string) \<times> 'l process) option" where
  "sys_start F options_json s =
     (case options_json of
        Some v \<Rightarrow> if NUL \<in> set v then Some (Inl (''options contain null byte: '' @ nul_error v), s)
                  else do {
                    (p, s') \<leftarrow> ffi_start F (Some v) s;
                    if p = 0 then Some (Inl ''null response from C library'', s')
                    else do { (t, s'') \<leftarrow> take_c_string F p s'; Some (Inr t, s'') } }
      | None \<Rightarrow> do {
          (p, s') \<leftarrow> ffi_start F None s;
          if p = 0 then Some (Inl ''null response from C library'', s')
          else do { (t, s'') \<leftarrow> take_c_string F p s'; Some (Inr t, s'') } })"

definition sys_dispose :: "'l ffi \<Rightarrow> u64 \<Rightarrow> 'l process \<Rightarrow> ((string + string) \<times> 'l process) option" where
  "sys_dispose F handle s = do {
     (p, s') \<leftarrow> ffi_dispose F handle s;
     if p = 0 then Some (Inr ''{}'', s')
     else do { (t, s'') \<leftarrow> take_c_string F p s'; Some (Inr t, s'') } }"

section \<open>Facts about the pieces\<close>

lemma sint_of_nat_i32: "sint (of_nat n :: i32) = (int n + 2 ^ 31) mod 2 ^ 32 - 2 ^ 31"
  using int_word_sint [of "int n", where 'a = 32] by simp

lemma sint_of_nat_small: "n < 2 ^ 31 \<Longrightarrow> sint (of_nat n :: i32) = int n"
  by (simp add: sint_of_nat_i32)

lemma nat_sint_of_nat_le: "nat (sint (of_nat n :: i32)) \<le> n"
proof -
  have "(int n + 2 ^ 31) mod 2 ^ 32 \<le> int n + 2 ^ 31"
    by (rule zmod_le_nonneg_dividend) simp
  then show ?thesis by (simp add: sint_of_nat_i32)
qed

lemma c_int_try_from_Some:
  "c_int_try_from n = Some w \<longleftrightarrow> n < 2 ^ 31 \<and> w = of_nat n"
  by (auto simp: c_int_try_from_def)

lemma c_int_try_from_None: "c_int_try_from n = None \<longleftrightarrow> 2 ^ 31 \<le> n"
  by (auto simp: c_int_try_from_def)

lemma c_string_eq_Inr: "c_string F v = Inr c \<longleftrightarrow> NUL \<notin> set v \<and> c = v"
  by (auto simp: c_string_def)

lemma c_string_or_null_eq_Inr:
  "c_string_or_null F v = Inr c \<longleftrightarrow> (\<forall>t. v = Some t \<longrightarrow> NUL \<notin> set t) \<and> c = v"
  by (cases v) (auto simp: c_string_or_null_def and_then_eq_Inr c_string_eq_Inr)

lemma c_arguments_eq_Inr:
  "c_arguments F m tr = Inr a \<longleftrightarrow>
     NUL \<notin> set m \<and> (\<forall>t. traceparent tr = Some t \<longrightarrow> NUL \<notin> set t)
     \<and> (\<forall>t. tracestate tr = Some t \<longrightarrow> NUL \<notin> set t)
     \<and> a = (m, traceparent tr, tracestate tr)"
  by (auto simp: c_arguments_def and_then_eq_Inr c_string_eq_Inr c_string_or_null_eq_Inr)

lemma c_arguments_default:
  "NUL \<notin> set m \<Longrightarrow> c_arguments F m trace_default = Inr (m, None, None)"
  by (simp add: c_arguments_eq_Inr trace_default_def)

section \<open>What the wrappers promise\<close>

text \<open>
  The abstract result of a call: the library's error text as Rust reads it, or the response.  The
  length of a response reaches Rust as a \<open>c_int\<close>, so a response of \<open>2 ^ 31\<close> bytes or more is seen
  with a wrapped length: negative, or too short.
\<close>

definition wrapped_length :: "bytes \<Rightarrow> int" where
  "wrapped_length bs = sint (of_nat (length bs) :: i32)"

definition received :: "string + bytes \<Rightarrow> bytes rpc_result" where
  "received r =
     (case r of
        Inl e \<Rightarrow> Inl (RpcError (utf8_lossy (c_text e)))
      | Inr bs \<Rightarrow>
          if wrapped_length bs < 0 then
            Inl (RpcError (''FFI returned negative response length: '' @ dec_int (wrapped_length bs)))
          else Inr (take (nat (wrapped_length bs)) bs))"

text \<open>The one case in which a buffer of the library is not given back.\<close>

definition leaks :: "string + bytes \<Rightarrow> bool" where
  "leaks r = (case r of Inl _ \<Rightarrow> False | Inr bs \<Rightarrow> wrapped_length bs < 0)"

lemma wrapped_length_small: "length bs < 2 ^ 31 \<Longrightarrow> wrapped_length bs = int (length bs)"
  by (simp add: wrapped_length_def sint_of_nat_small)

lemma received_small: "length bs < 2 ^ 31 \<Longrightarrow> received (Inr bs) = Inr bs"
  by (simp add: received_def wrapped_length_small)

lemma leaks_small: "length bs < 2 ^ 31 \<Longrightarrow> \<not> leaks (Inr bs)"
  by (simp add: leaks_def wrapped_length_small)

lemma received_Inl [simp]: "received (Inl e) = Inl (RpcError (utf8_lossy (c_text e)))"
  by (simp add: received_def)

lemma leaks_Inl [simp]: "\<not> leaks (Inl e)"
  by (simp add: leaks_def)

text \<open>How the library hands a result to its caller: fresh allocations, at most one per call.\<close>

definition delivers :: "string + bytes \<Rightarrow> c_heap \<Rightarrow> rpc_out \<Rightarrow> c_heap \<Rightarrow> bool" where
  "delivers r h out h' \<longleftrightarrow> heap_ok h' \<and>
     (case r of
        Inl e \<Rightarrow> out_error out \<noteq> 0 \<and> out_error out \<notin> dom (blocks h)
          \<and> out_response_bytes out = 0 \<and> blocks h' = (blocks h)(out_error out \<mapsto> CText e)
      | Inr bs \<Rightarrow> out_error out = 0 \<and> out_response_len out = of_nat (length bs)
          \<and> (if bs = [] then out_response_bytes out = 0 \<and> blocks h' = blocks h
             else out_response_bytes out \<noteq> 0 \<and> out_response_bytes out \<notin> dom (blocks h)
               \<and> blocks h' = (blocks h)(out_response_bytes out \<mapsto> CBuf bs)))"

definition returns_text :: "string \<Rightarrow> c_heap \<Rightarrow> nat \<Rightarrow> c_heap \<Rightarrow> bool" where
  "returns_text t h p h' \<longleftrightarrow> heap_ok h' \<and> p \<noteq> 0 \<and> p \<notin> dom (blocks h)
     \<and> blocks h' = (blocks h)(p \<mapsto> CText t)"

text \<open>The heap is as it was: nothing leaked, nothing else freed.\<close>

definition balanced :: "'l process \<Rightarrow> 'l process \<Rightarrow> bool" where
  "balanced s s' \<longleftrightarrow> heap_ok (mem s') \<and> blocks (mem s') = blocks (mem s)"

lemma balanced_refl [intro]: "heap_ok (mem s) \<Longrightarrow> balanced s s"
  by (simp add: balanced_def)

lemma balanced_trans [trans]: "balanced s t \<Longrightarrow> balanced t u \<Longrightarrow> balanced s u"
  by (simp add: balanced_def)

lemma balanced_heap_ok: "balanced s s' \<Longrightarrow> heap_ok (mem s')"
  by (simp add: balanced_def)

text \<open>The result of \<open>raw_call\<close> and the library's next state, as a function of the library alone.\<close>

definition call_outcome ::
    "(u64 \<Rightarrow> string \<Rightarrow> string option \<Rightarrow> string option \<Rightarrow> bytes \<Rightarrow> 'l \<Rightarrow> (string + bytes) \<times> 'l) \<Rightarrow>
     'l ffi \<Rightarrow> u64 \<Rightarrow> string \<Rightarrow> trace_context \<Rightarrow> bytes \<Rightarrow> 'l \<Rightarrow> (rpc_error + (string + bytes)) \<times> 'l" where
  "call_outcome sem F handle method trace req l =
     (if 2 ^ 31 \<le> length req
      then (Inl (RpcError ''request too large for FFI (exceeds c_int::MAX)''), l)
      else case c_arguments F method trace of
        Inl e \<Rightarrow> (Inl e, l)
      | Inr (m, tp, ts) \<Rightarrow> (let (r, l') = sem handle m tp ts req l in (Inr r, l')))"

definition c_args_ok :: "string \<Rightarrow> string option \<Rightarrow> string option \<Rightarrow> bool" where
  "c_args_ok m tp ts \<longleftrightarrow> NUL \<notin> set m \<and> (\<forall>t. tp = Some t \<longrightarrow> NUL \<notin> set t)
     \<and> (\<forall>t. ts = Some t \<longrightarrow> NUL \<notin> set t)"

section \<open>The interface to the C library\<close>

locale c_library =
  fixes F :: "'l ffi"
    and start_sem :: "string option \<Rightarrow> 'l \<Rightarrow> (string \<times> 'l) option"
    and dispose_sem :: "u64 \<Rightarrow> 'l \<Rightarrow> (string \<times> 'l) option"
    and rpc_sem ::
      "u64 \<Rightarrow> string \<Rightarrow> string option \<Rightarrow> string option \<Rightarrow> bytes \<Rightarrow> 'l \<Rightarrow> (string + bytes) \<times> 'l"
    and lib_ok :: "'l \<Rightarrow> bool"
  assumes start_law:
      "heap_ok (mem s) \<Longrightarrow> lib_ok (lib s) \<Longrightarrow> (\<forall>t. opts = Some t \<longrightarrow> NUL \<notin> set t) \<Longrightarrow>
       \<exists>t l p s'. start_sem opts (lib s) = Some (t, l) \<and> ffi_start F opts s = Some (p, s')
         \<and> returns_text t (mem s) p (mem s') \<and> lib s' = l \<and> lib_ok l"
    and dispose_law:
      "heap_ok (mem s) \<Longrightarrow> lib_ok (lib s) \<Longrightarrow>
       \<exists>t l p s'. dispose_sem h (lib s) = Some (t, l) \<and> ffi_dispose F h s = Some (p, s')
         \<and> returns_text t (mem s) p (mem s') \<and> lib s' = l \<and> lib_ok l"
    and rpc_law:
      "heap_ok (mem s) \<Longrightarrow> lib_ok (lib s) \<Longrightarrow> c_args_ok m tp ts \<Longrightarrow> length req < 2 ^ 31 \<Longrightarrow>
       \<exists>out s'. ffi_rpc F h m tp ts req (of_nat (length req)) out0 s = Some (out, s')
         \<and> delivers (fst (rpc_sem h m tp ts req (lib s))) (mem s) out (mem s')
         \<and> lib s' = snd (rpc_sem h m tp ts req (lib s)) \<and> lib_ok (lib s')"
    and free_law:
      "heap_ok (mem s) \<Longrightarrow> blocks (mem s) p = Some b \<Longrightarrow>
       \<exists>s'. ffi_free F p s = Some s' \<and> heap_ok (mem s')
         \<and> blocks (mem s') = (blocks (mem s))(p := None) \<and> lib s' = lib s"
    and free_bytes_law:
      "heap_ok (mem s) \<Longrightarrow> blocks (mem s) p = Some b \<Longrightarrow>
       \<exists>s'. ffi_free_bytes F p s = Some s' \<and> heap_ok (mem s')
         \<and> blocks (mem s') = (blocks (mem s))(p := None) \<and> lib s' = lib s"
begin

lemma take_text:
  assumes "returns_text t (mem s0) p (mem s)"
  obtains s' where "take_c_string F p s = Some (utf8_lossy (c_text t), s')"
    and "balanced s0 s'" and "lib s' = lib s"
proof -
  from assms have ok: "heap_ok (mem s)" and b: "blocks (mem s) p = Some (CText t)"
    and p: "p \<notin> dom (blocks (mem s0))" and bs: "blocks (mem s) = (blocks (mem s0))(p \<mapsto> CText t)"
    by (auto simp: returns_text_def)
  from free_law [OF ok b] obtain s' where s': "ffi_free F p s = Some s'" "heap_ok (mem s')"
    "blocks (mem s') = (blocks (mem s))(p := None)" "lib s' = lib s" by blast
  from s'(3) p bs have "blocks (mem s') = blocks (mem s0)" by auto
  with s' that [of s'] show thesis
    by (simp add: take_c_string_def read_c_str_def b balanced_def)
qed

lemma take_response_law:
  assumes "delivers r (mem s0) out (mem s)"
  obtains s' where "take_response F out s = Some (received r, s')"
    and "heap_ok (mem s')" and "\<not> leaks r \<Longrightarrow> balanced s0 s'" and "lib s' = lib s"
proof (cases r)
  case (Inl e)
  with assms have "out_error out \<noteq> 0" and "returns_text e (mem s0) (out_error out) (mem s)"
    by (auto simp: delivers_def returns_text_def)
  moreover from take_text [OF this(2)] obtain s' where
    "take_c_string F (out_error out) s = Some (utf8_lossy (c_text e), s')"
    "balanced s0 s'" "lib s' = lib s" by blast
  ultimately show ?thesis
    using that [of s'] Inl by (simp add: take_response_def balanced_def)
next
  case (Inr bs)
  with assms have ok: "heap_ok (mem s)" and e: "out_error out = 0"
    and len: "sint (out_response_len out) = wrapped_length bs"
    by (auto simp: delivers_def wrapped_length_def)
  show ?thesis
  proof (cases "wrapped_length bs < 0")
    case True
    with that [of s] Inr ok e len show ?thesis
      by (simp add: take_response_def received_def leaks_def)
  next
    case nonneg: False
    show ?thesis
    proof (cases "bs = []")
      case True
      with assms Inr have "out_response_bytes out = 0" "blocks (mem s) = blocks (mem s0)"
        by (auto simp: delivers_def)
      with that [of s] True Inr nonneg ok e len show ?thesis
        by (simp add: take_response_def received_def balanced_def wrapped_length_def)
    next
      case False
      let ?p = "out_response_bytes out"
      from False assms Inr have p: "?p \<noteq> 0" "?p \<notin> dom (blocks (mem s0))"
        and b: "blocks (mem s) ?p = Some (CBuf bs)"
        and bl: "blocks (mem s) = (blocks (mem s0))(?p \<mapsto> CBuf bs)"
        by (auto simp: delivers_def)
      from free_bytes_law [OF ok b] obtain s' where s': "ffi_free_bytes F ?p s = Some s'"
        "heap_ok (mem s')" "blocks (mem s') = (blocks (mem s))(?p := None)" "lib s' = lib s"
        by blast
      have le: "nat (wrapped_length bs) \<le> length bs"
        by (simp only: wrapped_length_def nat_sint_of_nat_le)
      from s'(3) p bl have "blocks (mem s') = blocks (mem s0)" by auto
      with that [of s'] Inr nonneg e len s' p le b show ?thesis
        by (auto simp: take_response_def received_def balanced_def read_bytes_def)
    qed
  qed
qed

lemma raw_call_refines:
  assumes ok: "heap_ok (mem s)" and lib: "lib_ok (lib s)"
    and out: "call_outcome rpc_sem F h m tr req (lib s) = (r, l')"
  obtains s' where "raw_call F h m tr req s = Some (and_then r received, s')"
    and "heap_ok (mem s')" and "(\<forall>x. r = Inr x \<longrightarrow> \<not> leaks x) \<Longrightarrow> balanced s s'" and "lib s' = l'"
    and "lib_ok l'"
proof (cases "2 ^ 31 \<le> length req")
  case True
  with out that [of s] ok lib balanced_refl [OF ok] show ?thesis
    by (auto simp: raw_call_def call_outcome_def c_int_try_from_def)
next
  case False
  then have len: "c_int_try_from (length req) = Some (of_nat (length req))"
    and small: "length req < 2 ^ 31" by (simp_all add: c_int_try_from_def)
  show ?thesis
  proof (cases "c_arguments F m tr")
    case (Inl e)
    with False out that [of s] ok lib balanced_refl [OF ok] len show ?thesis
      by (auto simp: raw_call_def call_outcome_def)
  next
    case (Inr a)
    then have a: "a = (m, traceparent tr, tracestate tr)"
      and args: "c_args_ok m (traceparent tr) (tracestate tr)"
      by (auto simp: c_arguments_eq_Inr c_args_ok_def)
    obtain x l where x: "rpc_sem h m (traceparent tr) (tracestate tr) req (lib s) = (x, l)"
      by fastforce
    from rpc_law [OF ok lib args small, of h] x obtain o' s1 where
      rpc: "ffi_rpc F h m (traceparent tr) (tracestate tr) req (of_nat (length req))
          \<lparr>out_response_bytes = 0, out_response_len = 0, out_error = 0\<rparr> s = Some (o', s1)"
      and d: "delivers x (mem s) o' (mem s1)" and l: "lib s1 = l" "lib_ok (lib s1)"
      by (metis fst_conv snd_conv)
    from take_response_law [OF d] obtain s' where
      "take_response F o' s1 = Some (received x, s')" "heap_ok (mem s')"
      "\<not> leaks x \<Longrightarrow> balanced s s'" "lib s' = l" using l by metis
    moreover from out False Inr a x have "r = Inr x" and "l' = l"
      by (auto simp: call_outcome_def)
    ultimately show ?thesis
      using that [of s'] l by (simp add: raw_call_def len Inr a rpc)
  qed
qed

lemma transport_call_refines:
  assumes "heap_ok (mem s)" and "lib_ok (lib s)"
    and out: "call_outcome rpc_sem F h m tr (encode C q) (lib s) = (r, l')"
  obtains s' where
    "transport_call F C h m tr q s
      = Some (and_then (and_then r received) (\<lambda>bs. map_err RpcError (decode C bs)), s')"
    and "heap_ok (mem s')" and "(\<forall>x. r = Inr x \<longrightarrow> \<not> leaks x) \<Longrightarrow> balanced s s'"
    and "lib s' = l'" and "lib_ok l'"
proof -
  from raw_call_refines [OF assms] obtain s' where
    raw: "raw_call F h m tr (encode C q) s = Some (and_then r received, s')"
    and s': "heap_ok (mem s')" "(\<forall>x. r = Inr x \<longrightarrow> \<not> leaks x) \<Longrightarrow> balanced s s'"
      "lib s' = l'" "lib_ok l'" by blast
  show thesis by (rule that [OF _ s']) (simp_all add: transport_call_def raw)
qed

lemma sys_start_law:
  assumes ok: "heap_ok (mem s)" and lib: "lib_ok (lib s)"
    and nul: "\<forall>t. opts = Some t \<longrightarrow> NUL \<notin> set t"
  obtains t l s' where "start_sem opts (lib s) = Some (t, l)"
    and "sys_start F opts s = Some (Inr (utf8_lossy (c_text t)), s')"
    and "balanced s s'" and "lib s' = l" and "lib_ok l"
proof -
  from start_law [OF ok lib nul] obtain t l p s1 where st: "start_sem opts (lib s) = Some (t, l)"
    "ffi_start F opts s = Some (p, s1)" and r: "returns_text t (mem s) p (mem s1)"
    and l: "lib s1 = l" "lib_ok l" by blast
  from r have p: "p \<noteq> 0" by (simp add: returns_text_def)
  from take_text [OF r] obtain s' where
    "take_c_string F p s1 = Some (utf8_lossy (c_text t), s')" "balanced s s'" "lib s' = lib s1"
    by blast
  with st p l nul that show thesis
    by (cases opts) (auto simp: sys_start_def)
qed

lemma sys_dispose_law:
  assumes ok: "heap_ok (mem s)" and lib: "lib_ok (lib s)"
  obtains t l s' where "dispose_sem h (lib s) = Some (t, l)"
    and "sys_dispose F h s = Some (Inr (utf8_lossy (c_text t)), s')"
    and "balanced s s'" and "lib s' = l" and "lib_ok l"
proof -
  from dispose_law [OF ok lib] obtain t l p s1 where st: "dispose_sem h (lib s) = Some (t, l)"
    "ffi_dispose F h s = Some (p, s1)" and r: "returns_text t (mem s) p (mem s1)"
    and l: "lib s1 = l" "lib_ok l" by blast
  from r have p: "p \<noteq> 0" by (simp add: returns_text_def)
  from take_text [OF r] obtain s' where
    "take_c_string F p s1 = Some (utf8_lossy (c_text t), s')" "balanced s s'" "lib s' = lib s1"
    by blast
  with st p l that show thesis by (simp add: sys_dispose_def)
qed

end

end
