(* ===== verification/Json.thy ===== *)
theory Json
  imports Utf8
begin

text \<open>
  JSON text at the boundary between the Rust client and the Go library.  \<open>json_print\<close> writes compact
  text; with \<open>go_escape\<close> for its strings it is \<open>json.Marshal\<close> of Go's standard library, with
  \<open>plain_escape\<close> it writes the escapes RFC 8259 requires and no others.  \<open>json_read\<close> is the decoder
  of \<open>encoding/json\<close> (the syntax check and the unquoting of strings), a recursive descent whose fuel,
  the length of the text plus one, is shown to be enough.  The round trip between the two is the
  basis of the facts about start options and responses.
\<close>

section \<open>Values\<close>

text \<open>An object keeps its members in order, duplicates included; \<open>JFloat\<close> keeps the text of a number
  with a fraction or an exponent.\<close>

datatype json =
  JNull
| JBool bool
| JInt int
| JFloat string
| JStr string
| JArr "json list"
| JObj "(string \<times> json) list"

text \<open>Member lookup: the last of several members of the same name counts.\<close>

fun json_get :: "json \<Rightarrow> string \<Rightarrow> json option" where
  "json_get (JObj ms) k = map_of (rev ms) k"
| "json_get _ _ = None"

fun json_as_u64 :: "json \<Rightarrow> u64 option" where
  "json_as_u64 (JInt i) = (if 0 \<le> i \<and> i < 2 ^ 64 then Some (word_of_int i) else None)"
| "json_as_u64 _ = None"

fun json_as_str :: "json \<Rightarrow> string option" where
  "json_as_str (JStr s) = Some s"
| "json_as_str _ = None"

section \<open>Writing\<close>

definition u_escape :: "nat \<Rightarrow> string" where
  "u_escape n =
     [CHR 0x5C, CHR ''u'', hex_digit (n div 4096 mod 16), hex_digit (n div 256 mod 16),
      hex_digit (n div 16 mod 16), hex_digit (n mod 16)]"

text \<open>The short escapes both writers use.\<close>

definition short_escape :: "char \<Rightarrow> string option" where
  "short_escape c =
     (if c = CHR 0x22 then Some [CHR 0x5C, CHR 0x22]
      else if c = CHR 0x5C then Some [CHR 0x5C, CHR 0x5C]
      else if c = CHR 0x08 then Some [CHR 0x5C, CHR ''b'']
      else if c = CHR 0x0C then Some [CHR 0x5C, CHR ''f'']
      else if c = CHR 0x0A then Some [CHR 0x5C, CHR ''n'']
      else if c = CHR 0x0D then Some [CHR 0x5C, CHR ''r'']
      else if c = CHR 0x09 then Some [CHR 0x5C, CHR ''t'']
      else None)"

text \<open>\<open>appendString\<close> of \<open>encoding/json\<close>, with HTML escaping on, as \<open>json.Marshal\<close> has it: the
  characters less-than, greater-than and ampersand, the line separators U+2028 and U+2029, and
  invalid bytes are written as escapes.\<close>

fun go_escape :: "string \<Rightarrow> string" where
  "go_escape [] = []"
| "go_escape (c # cs) =
     (if (of_char c :: nat) < 128 then
        (case short_escape c of
           Some e \<Rightarrow> e
         | None \<Rightarrow> if (of_char c :: nat) < 32 \<or> (of_char c :: nat) \<in> {38, 60, 62}
                   then u_escape (of_char c) else [c]) @ go_escape cs
      else
        (let (ok, n) = utf8_chunk c cs; ch = c # take (n - 1) cs
         in if \<not> ok then u_escape 65533 @ go_escape cs
            else (if code_point ch \<in> {8232, 8233} then u_escape (code_point ch) else ch)
              @ go_escape (drop (n - 1) cs)))"

fun plain_escape :: "string \<Rightarrow> string" where
  "plain_escape [] = []"
| "plain_escape (c # cs) =
     (case short_escape c of
        Some e \<Rightarrow> e
      | None \<Rightarrow> if (of_char c :: nat) < 32 then u_escape (of_char c) else [c]) @ plain_escape cs"

fun json_print :: "(string \<Rightarrow> string) \<Rightarrow> json \<Rightarrow> string"
and print_elems :: "(string \<Rightarrow> string) \<Rightarrow> json list \<Rightarrow> string"
and print_members :: "(string \<Rightarrow> string) \<Rightarrow> (string \<times> json) list \<Rightarrow> string" where
  "json_print esc JNull = ''null''"
| "json_print esc (JBool b) = (if b then ''true'' else ''false'')"
| "json_print esc (JInt i) = dec_int i"
| "json_print esc (JFloat s) = s"
| "json_print esc (JStr s) = CHR 0x22 # esc s @ [CHR 0x22]"
| "json_print esc (JArr vs) = CHR ''['' # print_elems esc vs"
| "json_print esc (JObj ms) = CHR ''{'' # print_members esc ms"
| "print_elems esc [] = '']''"
| "print_elems esc (v # vs) =
     json_print esc v @ (if vs = [] then '']'' else CHR '','' # print_elems esc vs)"
| "print_members esc [] = ''}''"
| "print_members esc ((k, v) # ms) =
     CHR 0x22 # esc k @ CHR 0x22 # CHR '':'' # json_print esc v
       @ (if ms = [] then ''}'' else CHR '','' # print_members esc ms)"

section \<open>Reading\<close>

definition is_json_ws :: "char \<Rightarrow> bool" where
  "is_json_ws c \<longleftrightarrow> (of_char c :: nat) \<in> {9, 10, 13, 32}"

abbreviation skip_ws :: "string \<Rightarrow> string" where
  "skip_ws s \<equiv> dropWhile is_json_ws s"

definition utf8_encode :: "nat \<Rightarrow> string" where
  "utf8_encode n =
     map char_of
       (if n < 128 then [n]
        else if n < 2048 then [192 + n div 64, 128 + n mod 64]
        else if n < 65536 then [224 + n div 4096, 128 + n div 64 mod 64, 128 + n mod 64]
        else [240 + n div 262144, 128 + n div 4096 mod 64, 128 + n div 64 mod 64, 128 + n mod 64])"

definition is_hex_any :: "char \<Rightarrow> bool" where
  "is_hex_any c \<longleftrightarrow> is_hex c \<or> (65 \<le> (of_char c :: nat) \<and> (of_char c :: nat) \<le> 70)"

definition hex_val_any :: "char \<Rightarrow> nat" where
  "hex_val_any c = (if is_hex c then hex_val c else of_char c - 55)"

text \<open>\<open>getu4\<close>: four hexadecimal digits.\<close>

definition read_hex4 :: "string \<Rightarrow> (nat \<times> string) option" where
  "read_hex4 s =
     (case s of
        a # b # c # d # r \<Rightarrow>
          if is_hex_any a \<and> is_hex_any b \<and> is_hex_any c \<and> is_hex_any d
          then Some (hex_val_any a * 4096 + hex_val_any b * 256 + hex_val_any c * 16 + hex_val_any d, r)
          else None
      | _ \<Rightarrow> None)"

text \<open>A surrogate pair is one character; a surrogate alone is replaced.\<close>

definition read_u_escape :: "string \<Rightarrow> (string \<times> string) option" where
  "read_u_escape s =
     (case read_hex4 s of
        None \<Rightarrow> None
      | Some (n, r) \<Rightarrow>
          if 55296 \<le> n \<and> n < 57344 then
            (case r of
               x # y # r' \<Rightarrow>
                 (if x = CHR 0x5C \<and> y = CHR ''u'' then
                    (case read_hex4 r' of
                       Some (m, r'') \<Rightarrow>
                         if n < 56320 \<and> 56320 \<le> m \<and> m < 57344
                         then Some (utf8_encode (65536 + (n - 55296) * 1024 + (m - 56320)), r'')
                         else Some (replacement, r)
                     | None \<Rightarrow> Some (replacement, r))
                  else Some (replacement, r))
             | _ \<Rightarrow> Some (replacement, r))
          else Some (utf8_encode n, r))"

definition unescape :: "char \<Rightarrow> char option" where
  "unescape c =
     (if c = CHR 0x22 \<or> c = CHR 0x5C \<or> c = CHR ''/'' then Some c
      else if c = CHR ''b'' then Some (CHR 0x08)
      else if c = CHR ''f'' then Some (CHR 0x0C)
      else if c = CHR ''n'' then Some (CHR 0x0A)
      else if c = CHR ''r'' then Some (CHR 0x0D)
      else if c = CHR ''t'' then Some (CHR 0x09)
      else None)"

lemma read_hex4_length: "read_hex4 s = Some (n, r) \<Longrightarrow> length r < length s"
  by (auto simp: read_hex4_def split: list.splits if_splits)

lemma read_u_escape_length: "read_u_escape s = Some (t, r) \<Longrightarrow> length r < length s"
  by (auto simp: read_u_escape_def split: option.splits if_splits list.splits
      dest!: read_hex4_length)

text \<open>The body of a string literal, up to and past the closing quote.\<close>

function read_string :: "string \<Rightarrow> (string \<times> string) option" where
  "read_string [] = None"
| "read_string (c # cs) =
     (if c = CHR 0x22 then Some ([], cs)
      else if c = CHR 0x5C then
        (case cs of
           [] \<Rightarrow> None
         | e # es \<Rightarrow>
             if e = CHR ''u'' then
               (case read_u_escape es of
                  None \<Rightarrow> None
                | Some (t, r) \<Rightarrow> map_option (\<lambda>(u, r'). (t @ u, r')) (read_string r))
             else
               (case unescape e of
                  None \<Rightarrow> None
                | Some x \<Rightarrow> map_option (\<lambda>(u, r'). (x # u, r')) (read_string es)))
      else if (of_char c :: nat) < 32 then None
      else
        (case utf8_chunk c cs of (ok, n) \<Rightarrow>
           if ok then map_option (\<lambda>(u, r'). ((c # take (n - 1) cs) @ u, r')) (read_string (drop (n - 1) cs))
           else map_option (\<lambda>(u, r'). (replacement @ u, r')) (read_string cs)))"
  by pat_completeness auto
termination
  by (relation "measure length") (auto dest: read_u_escape_length)

declare read_string.simps [simp del]

definition span_digits :: "string \<Rightarrow> string \<times> string" where
  "span_digits s = (takeWhile is_digit s, dropWhile is_digit s)"

text \<open>A number: an integer part without leading zeros, then optionally a fraction and an exponent.\<close>

definition read_int_part :: "string \<Rightarrow> (string \<times> string) option" where
  "read_int_part s =
     (let (ds, r) = span_digits s
      in case ds of
          [] \<Rightarrow> None
        | d # ds' \<Rightarrow> if d = CHR ''0'' then Some ([d], ds' @ r) else Some (ds, r))"

definition read_fraction :: "string \<Rightarrow> (string \<times> string) option" where
  "read_fraction s =
     (case s of
        c # r \<Rightarrow> if c = CHR ''.''
                 then (case span_digits r of (ds, r') \<Rightarrow>
                         if ds = [] then None else Some (c # ds, r'))
                 else Some ([], s)
      | [] \<Rightarrow> Some ([], s))"

definition read_exponent :: "string \<Rightarrow> (string \<times> string) option" where
  "read_exponent s =
     (case s of
        c # r \<Rightarrow>
          if c = CHR ''e'' \<or> c = CHR ''E'' then
            (let (sg, r1) = (case r of
                 x # xs \<Rightarrow> if x = CHR ''+'' \<or> x = CHR ''-'' then ([x], xs) else ([], r)
               | [] \<Rightarrow> ([], r));
                 (ds, r2) = span_digits r1
             in if ds = [] then None else Some (c # sg @ ds, r2))
          else Some ([], s)
      | [] \<Rightarrow> Some ([], s))"

definition read_number :: "string \<Rightarrow> (json \<times> string) option" where
  "read_number s =
     (let (neg, s1) = (case s of
          c # cs \<Rightarrow> if c = CHR ''-'' then (True, cs) else (False, s)
        | [] \<Rightarrow> (False, s))
      in do {
        (ds, r) \<leftarrow> read_int_part s1;
        (fr, r') \<leftarrow> read_fraction r;
        (ex, r'') \<leftarrow> read_exponent r';
        Some (if fr = [] \<and> ex = []
              then JInt (if neg then - int (undec ds) else int (undec ds))
              else JFloat ((if neg then ''-'' else []) @ ds @ fr @ ex), r'') })"

definition expect :: "string \<Rightarrow> string \<Rightarrow> string option" where
  "expect p s = (if starts_with s p then Some (drop (length p) s) else None)"

fun read_value :: "nat \<Rightarrow> string \<Rightarrow> (json \<times> string) option"
and read_elems :: "nat \<Rightarrow> string \<Rightarrow> (json list \<times> string) option"
and read_members :: "nat \<Rightarrow> string \<Rightarrow> ((string \<times> json) list \<times> string) option" where
  "read_value 0 s = None"
| "read_value (Suc k) s =
     (case skip_ws s of
        [] \<Rightarrow> None
      | c # cs \<Rightarrow>
          if c = CHR ''n'' then map_option (Pair JNull) (expect ''ull'' cs)
          else if c = CHR ''t'' then map_option (Pair (JBool True)) (expect ''rue'' cs)
          else if c = CHR ''f'' then map_option (Pair (JBool False)) (expect ''alse'' cs)
          else if c = CHR 0x22 then map_option (map_prod JStr id) (read_string cs)
          else if c = CHR ''['' then
            (case skip_ws cs of
               [] \<Rightarrow> None
             | d # ds \<Rightarrow> if d = CHR '']'' then Some (JArr [], ds)
                         else map_option (map_prod JArr id) (read_elems k cs))
          else if c = CHR ''{'' then
            (case skip_ws cs of
               [] \<Rightarrow> None
             | d # ds \<Rightarrow> if d = CHR ''}'' then Some (JObj [], ds)
                         else map_option (map_prod JObj id) (read_members k cs))
          else read_number (c # cs))"
| "read_elems 0 s = None"
| "read_elems (Suc k) s = do {
     (v, r) \<leftarrow> read_value k s;
     (case skip_ws r of
        [] \<Rightarrow> None
      | d # ds \<Rightarrow> if d = CHR '','' then map_option (map_prod (Cons v) id) (read_elems k ds)
                  else if d = CHR '']'' then Some ([v], ds)
                  else None) }"
| "read_members 0 s = None"
| "read_members (Suc k) s =
     (case skip_ws s of
        [] \<Rightarrow> None
      | c # cs \<Rightarrow>
          if c \<noteq> CHR 0x22 then None
          else do {
            (name, r) \<leftarrow> read_string cs;
            (case skip_ws r of
               [] \<Rightarrow> None
             | d # ds \<Rightarrow>
                 if d \<noteq> CHR '':'' then None
                 else do {
                   (v, r') \<leftarrow> read_value k ds;
                   (case skip_ws r' of
                      [] \<Rightarrow> None
                    | e # es \<Rightarrow>
                        if e = CHR '','' then map_option (map_prod (Cons (name, v)) id) (read_members k es)
                        else if e = CHR ''}'' then Some ([(name, v)], es)
                        else None) }) })"

definition json_read :: "string \<Rightarrow> json option" where
  "json_read s = do {
     (v, r) \<leftarrow> read_value (Suc (length s)) s;
     if skip_ws r = [] then Some v else None }"

section \<open>Escapes and their inverse\<close>

lemma short_escape_Some:
  assumes "short_escape c = Some e"
  shows "e = [CHR 0x5C, e ! 1] \<and> e ! 1 \<noteq> CHR ''u'' \<and> unescape (e ! 1) = Some c
    \<and> (of_char c :: nat) < 128"
proof -
  from assms have "(c, e) \<in> set [(CHR 0x22, [CHR 0x5C, CHR 0x22]), (CHR 0x5C, [CHR 0x5C, CHR 0x5C]),
      (CHR 0x08, [CHR 0x5C, CHR ''b'']), (CHR 0x0C, [CHR 0x5C, CHR ''f'']),
      (CHR 0x0A, [CHR 0x5C, CHR ''n'']), (CHR 0x0D, [CHR 0x5C, CHR ''r'']),
      (CHR 0x09, [CHR 0x5C, CHR ''t''])]"
    unfolding short_escape_def by (simp only: split: if_splits) simp_all
  then show ?thesis by (auto simp: unescape_def)
qed

lemma hex4_value:
  assumes "n < 65536"
  shows "n div 4096 mod 16 * 4096 + n div 256 mod 16 * 256 + n div 16 mod 16 * 16 + n mod 16 = (n::nat)"
proof -
  have e: "n div 4096 = n div 16 div 16 div 16" "n div 256 = n div 16 div 16"
    by (simp_all add: div_mult2_eq [symmetric])
  have "n div 16 div 16 div 16 < 16" using assms by simp
  moreover have "n = n div 16 * 16 + n mod 16"
    "n div 16 = n div 16 div 16 * 16 + n div 16 mod 16"
    "n div 16 div 16 = n div 16 div 16 div 16 * 16 + n div 16 div 16 mod 16"
    by simp_all
  ultimately show ?thesis unfolding e by (simp only: mod_less)
qed

lemma hex4_digits:
  assumes "n < 65536"
  shows "read_hex4 (hex_digit (n div 4096 mod 16) # hex_digit (n div 256 mod 16)
      # hex_digit (n div 16 mod 16) # hex_digit (n mod 16) # r) = Some (n, r)"
proof -
  have h: "is_hex_any (hex_digit k)" "hex_val_any (hex_digit k) = k" if "k < 16" for k
    using that by (simp_all add: is_hex_any_def hex_val_any_def is_hex_hex_digit hex_val_hex_digit)
  show ?thesis by (simp add: read_hex4_def h hex4_value [OF assms])
qed

lemma base64_digit:
  "y < 64 \<Longrightarrow> (x * 64 + y) div 64 = x" "y < 64 \<Longrightarrow> (x * 64 + y) mod 64 = (y::nat)"
  by simp_all

lemma div_4096: "n div 4096 = n div 64 div (64::nat)"
  by (simp add: div_mult2_eq [symmetric])

lemma div_262144: "n div 262144 = n div 64 div 64 div (64::nat)"
  by (simp add: div_mult2_eq [symmetric])

lemma utf8_encode_2:
  "2 \<le> x \<Longrightarrow> x < 32 \<Longrightarrow> y < 64 \<Longrightarrow> utf8_encode (x * 64 + y) = map char_of [192 + x, 128 + y]"
proof -
  assume a: "2 \<le> x" "x < 32" "y < 64"
  then have "\<not> x * 64 + y < 128" "x * 64 + y < 2048" by linarith+
  with a show ?thesis by (simp add: utf8_encode_def base64_digit del: list.map) 
qed

lemma utf8_encode_3:
  assumes "32 \<le> x * 64 + y" "x < 16" "y < 64" "z < 64"
  shows "utf8_encode ((x * 64 + y) * 64 + z) = map char_of [224 + x, 128 + y, 128 + z]"
proof -
  have A: "\<not> a * 64 + z < 128" "\<not> a * 64 + z < 2048" "a * 64 + z < 65536"
    if "32 \<le> a" "a < 1024" for a using that assms(4) by simp_all
  have "x * 64 + y < 1024" using assms(2,3) by simp
  note B = A [OF assms(1) this]
  from assms B show ?thesis
    by (simp only: utf8_encode_def if_False if_True div_4096 base64_digit)
qed

lemma utf8_encode_4:
  assumes "16 \<le> w * 64 + x" "x < 64" "y < 64" "z < 64"
  shows "utf8_encode (((w * 64 + x) * 64 + y) * 64 + z)
    = map char_of [240 + w, 128 + x, 128 + y, 128 + z]"
proof -
  have A: "\<not> (a * 64 + y) * 64 + z < 128" "\<not> (a * 64 + y) * 64 + z < 2048"
    "\<not> (a * 64 + y) * 64 + z < 65536" if "16 \<le> a" for a using that by simp_all
  from assms A [OF assms(1)] show ?thesis
    by (simp only: utf8_encode_def if_False if_True div_4096 div_262144 base64_digit)
qed


lemma utf8_width_range:
  "utf8_width c = 2 \<Longrightarrow> 194 \<le> (of_char c :: nat) \<and> (of_char c :: nat) \<le> 223"
  "utf8_width c = 3 \<Longrightarrow> 224 \<le> (of_char c :: nat) \<and> (of_char c :: nat) \<le> 239"
  "utf8_width c = 4 \<Longrightarrow> 240 \<le> (of_char c :: nat) \<and> (of_char c :: nat) \<le> 244"
  "utf8_width c = 1 \<Longrightarrow> (of_char c :: nat) < 128"
  by (auto simp: utf8_width_def Let_def split: if_splits)

lemma second_ok_cont: "second_ok c d \<Longrightarrow> is_cont d"
  by (auto simp: second_ok_def is_cont_def Let_def split: if_splits)

lemma second_ok_3:
  "second_ok c d \<Longrightarrow> utf8_width c = 3 \<Longrightarrow> 32 \<le> (of_char c - 224) * 64 + (of_char d - 128 :: nat)"
  using utf8_width_range(2) [of c]
  by (cases "of_char c = (224::nat)") (auto simp: second_ok_def Let_def)

lemma second_ok_4:
  "second_ok c d \<Longrightarrow> utf8_width c = 4 \<Longrightarrow> 16 \<le> (of_char c - 240) * 64 + (of_char d - 128 :: nat)"
  using utf8_width_range(3) [of c]
  by (cases "of_char c = (240::nat)") (auto simp: second_ok_def Let_def)

lemma utf8_width_cases: "utf8_width c \<in> {0, 1, 2, 3, 4}"
  by (simp add: utf8_width_def Let_def)

lemma utf8_chunk_shape:
  assumes "utf8_chunk c cs = (True, n)" and "128 \<le> (of_char c :: nat)"
  shows "(\<exists>d r. cs = d # r \<and> n = 2 \<and> utf8_width c = 2 \<and> second_ok c d)
    \<or> (\<exists>d e r. cs = d # e # r \<and> n = 3 \<and> utf8_width c = 3 \<and> second_ok c d \<and> is_cont e)
    \<or> (\<exists>d e f r. cs = d # e # f # r \<and> n = 4 \<and> utf8_width c = 4 \<and> second_ok c d \<and> is_cont e \<and> is_cont f)"
  using assms utf8_width_range(4) [of c] utf8_width_cases [of c]
  by (auto simp: utf8_chunk_def split: if_splits list.splits)

lemma is_cont_range: "is_cont d \<Longrightarrow> 128 \<le> (of_char d :: nat) \<and> of_char d - 128 < (64::nat)"
  by (auto simp: is_cont_def)

lemma char_of_add: "k \<le> of_char c \<Longrightarrow> char_of (k + (of_char c - k) :: nat) = c"
  by simp

lemma horner_3: "(x * 64 + y) * 64 + z = x * 4096 + y * 64 + (z :: nat)"
  by simp

lemma horner_4: "((w * 64 + x) * 64 + y) * 64 + z = w * 262144 + x * 4096 + y * 64 + (z :: nat)"
  by simp

lemma utf8_encode_code_point:
  assumes ch: "utf8_chunk c cs = (True, n)" and c: "128 \<le> (of_char c :: nat)"
  shows "utf8_encode (code_point (c # take (n - 1) cs)) = c # take (n - 1) cs"
  using utf8_chunk_shape [OF assms]
proof (elim disjE exE conjE)
  fix d r assume s: "cs = d # r" "n = 2" "utf8_width c = 2" "second_ok c d"
  note C = utf8_width_range(1) [OF s(3)] and D = is_cont_range [OF second_ok_cont [OF s(4)]]
  have "utf8_encode ((of_char c - 192) * 64 + (of_char d - 128)) = [c, d]"
    using C D by (subst utf8_encode_2) (auto simp: char_of_add)
  then show ?thesis by (simp add: s code_point_def)
next
  fix d e r assume s: "cs = d # e # r" "n = 3" "utf8_width c = 3" "second_ok c d" "is_cont e"
  note C = utf8_width_range(2) [OF s(3)] and D = is_cont_range [OF second_ok_cont [OF s(4)]]
    and E = is_cont_range [OF s(5)]
  have "utf8_encode (((of_char c - 224) * 64 + (of_char d - 128)) * 64 + (of_char e - 128)) = [c, d, e]"
    using C D E second_ok_3 [OF s(4,3)] by (subst utf8_encode_3) (auto simp: char_of_add)
  then show ?thesis unfolding horner_3 by (simp add: s code_point_def numeral_2_eq_2)
next
  fix d e f r
  assume s: "cs = d # e # f # r" "n = 4" "utf8_width c = 4" "second_ok c d" "is_cont e" "is_cont f"
  note C = utf8_width_range(3) [OF s(3)] and D = is_cont_range [OF second_ok_cont [OF s(4)]]
    and E = is_cont_range [OF s(5)] and F = is_cont_range [OF s(6)]
  have "utf8_encode ((((of_char c - 240) * 64 + (of_char d - 128)) * 64 + (of_char e - 128)) * 64
      + (of_char f - 128)) = [c, d, e, f]"
    using C D E F second_ok_4 [OF s(4,3)] by (subst utf8_encode_4) (auto simp: char_of_add)
  then show ?thesis unfolding horner_4 by (simp add: s code_point_def numeral_3_eq_3)
qed


lemma read_string_quote: "read_string (CHR 0x22 # r) = Some ([], r)"
  by (simp add: read_string.simps)

lemma read_string_escape:
  "x \<noteq> CHR ''u'' \<Longrightarrow> unescape x = Some c \<Longrightarrow>
   read_string (CHR 0x5C # x # r) = map_option (\<lambda>(u, r'). (c # u, r')) (read_string r)"
  by (simp add: read_string.simps(2) [of "CHR 0x5C" "x # r"])

lemma read_string_u:
  assumes "n < 65536" and "n < 55296 \<or> 57344 \<le> n"
  shows "read_string (u_escape n @ r) = map_option (\<lambda>(u, r'). (utf8_encode n @ u, r')) (read_string r)"
proof -
  have "read_u_escape (hex_digit (n div 4096 mod 16) # hex_digit (n div 256 mod 16)
      # hex_digit (n div 16 mod 16) # hex_digit (n mod 16) # r) = Some (utf8_encode n, r)"
    using assms(2) by (auto simp: read_u_escape_def hex4_digits [OF assms(1)])
  then show ?thesis by (simp add: u_escape_def read_string.simps(2) [of "CHR 0x5C"])
qed

lemma read_string_char:
  assumes "c \<noteq> CHR 0x22" "c \<noteq> CHR 0x5C" "\<not> (of_char c :: nat) < 32" "utf8_chunk c cs = (True, n)"
  shows "read_string (c # take (n - 1) cs @ r)
    = map_option (\<lambda>(u, r'). ((c # take (n - 1) cs) @ u, r')) (read_string r)"
proof -
  have "utf8_chunk c (take (n - 1) cs @ r) = (True, n)"
    by (rule utf8_chunk_append [OF utf8_chunk_take [OF assms(4)]])
  moreover have "length (take (n - 1) cs) = n - 1"
    using utf8_chunk_bounds [OF assms(4)] by simp
  ultimately show ?thesis
    using assms(1-3) by (simp add: read_string.simps(2) [of c])
qed

text \<open>Of the strings in \<open>P\<close>, a writer's escapes read back as \<open>f\<close> says.\<close>

definition escapes :: "(string \<Rightarrow> string) \<Rightarrow> (string \<Rightarrow> string) \<Rightarrow> (string \<Rightarrow> bool) \<Rightarrow> bool" where
  "escapes esc f P \<longleftrightarrow>
     (\<forall>s r. P s \<longrightarrow> read_string (esc s @ CHR 0x22 # r) = Some (f s, r))"

text \<open>\<open>encoding/json\<close> replaces each byte that is not part of a character.\<close>

fun go_valid :: "string \<Rightarrow> string" where
  "go_valid [] = []"
| "go_valid (c # cs) =
     (let (ok, n) = utf8_chunk c cs
      in if ok then (c # take (n - 1) cs) @ go_valid (drop (n - 1) cs) else replacement @ go_valid cs)"

lemma go_valid_id: "utf8_valid s \<Longrightarrow> go_valid s = s"
proof (induction s rule: utf8_valid.induct)
  case (2 c cs)
  obtain ok n where "utf8_chunk c cs = (ok, n)" by fastforce
  with 2 show ?case by simp
qed simp

lemma go_valid_nonempty: "go_valid s = [] \<longleftrightarrow> s = []"
proof (cases s)
  case (Cons c cs)
  obtain ok n where "utf8_chunk c cs = (ok, n)" by fastforce
  with Cons show ?thesis by (cases ok) (simp_all add: replacement_def)
qed simp

lemma utf8_encode_replacement: "utf8_encode 65533 = replacement"
  by (simp add: utf8_encode_def replacement_def)

lemma short_escape_None:
  "short_escape c = None \<Longrightarrow> c \<noteq> CHR 0x22 \<and> c \<noteq> CHR 0x5C"
  by (auto simp: short_escape_def)

lemma utf8_encode_ascii: "n < 128 \<Longrightarrow> utf8_encode n = [char_of n]"
  by (simp add: utf8_encode_def)

lemma ascii_step:
  assumes "(of_char c :: nat) < 128" and IH: "read_string t = Some (s, r)"
    and e: "e = (case short_escape c of Some e \<Rightarrow> e
      | None \<Rightarrow> if (of_char c :: nat) < 32 \<or> P then u_escape (of_char c) else [c])"
  shows "read_string (e @ t) = Some (c # s, r)"
proof (cases "short_escape c")
  case (Some x)
  from short_escape_Some [OF Some] have "read_string (CHR 0x5C # x ! 1 # t) = Some (c # s, r)"
    by (simp add: read_string_escape IH)
  with short_escape_Some [OF Some] Some e show ?thesis by (metis append_Cons append_Nil option.simps(5))
next
  case None
  show ?thesis
  proof (cases "(of_char c :: nat) < 32 \<or> P")
    case True
    with None e have "e = u_escape (of_char c)" by auto
    with assms(1) show ?thesis by (simp add: read_string_u utf8_encode_ascii IH)
  next
    case False
    with None e have "e = [c]" by auto
    with read_string_char [of c "[]" 1 t] short_escape_None [OF None] False assms(1) IH
    show ?thesis by simp
  qed
qed

lemma escapes_go: "escapes go_escape go_valid (\<lambda>_. True)"
  unfolding escapes_def
proof (intro allI impI)
  fix s r
  show "read_string (go_escape s @ CHR 0x22 # r) = Some (go_valid s, r)"
  proof (induction s rule: go_escape.induct)
    case 1
    show ?case by (simp add: read_string_quote)
  next
    case (2 c cs)
    obtain ok n where ch: "utf8_chunk c cs = (ok, n)" by fastforce
    consider (ascii) "(of_char c :: nat) < 128" | (bad) "\<not> (of_char c :: nat) < 128" "\<not> ok"
      | (char) "\<not> (of_char c :: nat) < 128" ok by blast
    then show ?case
    proof cases
      case ascii
      from ascii_step [OF ascii "2.IH"(1) [OF ascii] refl, of "(of_char c :: nat) \<in> {38, 60, 62}"]
      have "read_string (go_escape (c # cs) @ CHR 0x22 # r) = Some (c # go_valid cs, r)"
        using ascii by (simp only: go_escape.simps if_True append_assoc)
      with ascii show ?thesis by simp
    next
      case bad
      with ch have e: "go_escape (c # cs) = u_escape 65533 @ go_escape cs"
        and v: "go_valid (c # cs) = replacement @ go_valid cs" by (simp_all add: Let_def)
      from bad ch have "read_string (go_escape cs @ CHR 0x22 # r) = Some (go_valid cs, r)"
        by (intro "2.IH"(2)) auto
      with read_string_u [of 65533 "go_escape cs @ CHR 0x22 # r"] show ?thesis
        by (simp only: e v append_assoc) (simp add: utf8_encode_replacement)
    next
      case char
      note False = char(1)
      let ?ch = "c # take (n - 1) cs"
      from False have nq: "c \<noteq> CHR 0x22" "c \<noteq> CHR 0x5C" "\<not> (of_char c :: nat) < 32" by auto
      from ch \<open>ok\<close> have ch': "utf8_chunk c cs = (True, n)" by simp
      let ?e = "if code_point ?ch \<in> {8232, 8233} then u_escape (code_point ?ch) else ?ch"
      have "read_string (?e @ t) = map_option (\<lambda>(u, r'). (?ch @ u, r')) (read_string t)" for t
        using read_string_char [OF nq ch', of t] read_string_u [of "code_point ?ch" t]
          utf8_encode_code_point [OF ch'] False by auto
      moreover have "go_escape (c # cs) = ?e @ go_escape (drop (n - 1) cs)"
        using False ch' by (simp add: Let_def)
      moreover have "read_string (go_escape (drop (n - 1) cs) @ CHR 0x22 # r)
          = Some (go_valid (drop (n - 1) cs), r)"
        using False ch' by (intro "2.IH"(3)) auto
      moreover have "go_valid (c # cs) = ?ch @ go_valid (drop (n - 1) cs)"
        using ch' by simp
      ultimately show ?thesis by (simp only: append_assoc) simp
    qed
  qed
qed

lemma plain_escape_append: "plain_escape (s @ t) = plain_escape s @ plain_escape t"
  by (induction s) simp_all

lemma plain_escape_non_ascii:
  "\<forall>c \<in> set s. 128 \<le> (of_char c :: nat) \<Longrightarrow> plain_escape s = s"
proof (induction s)
  case (Cons c cs)
  then have "short_escape c = None"
    using short_escape_Some [of c] by (cases "short_escape c") auto
  with Cons show ?case by simp
qed simp

lemma escapes_plain: "escapes plain_escape (\<lambda>s. s) utf8_valid"
  unfolding escapes_def
proof (intro allI impI)
  fix s r
  assume "utf8_valid s"
  then show "read_string (plain_escape s @ CHR 0x22 # r) = Some (s, r)"
  proof (induction s rule: utf8_valid.induct)
    case 1
    show ?case by (simp add: read_string_quote)
  next
    case (2 c cs)
    obtain ok n where ch: "utf8_chunk c cs = (ok, n)" by fastforce
    with 2 have ok and IH: "read_string (plain_escape (drop (n - 1) cs) @ CHR 0x22 # r)
        = Some (drop (n - 1) cs, r)" by auto
    show ?case
    proof (cases "(of_char c :: nat) < 128")
      case True
      with ch IH have "read_string (plain_escape cs @ CHR 0x22 # r) = Some (cs, r)" by simp
      from ascii_step [OF True this refl, of False]
      show ?thesis by (simp only: plain_escape.simps append_assoc simp_thms)
    next
      case False
      let ?ch = "c # take (n - 1) cs"
      from False have nq: "c \<noteq> CHR 0x22" "c \<noteq> CHR 0x5C" "\<not> (of_char c :: nat) < 32" by auto
      from ch \<open>ok\<close> have ch': "utf8_chunk c cs = (True, n)" by simp
      have "plain_escape ?ch = ?ch"
        using False utf8_chunk_non_ascii [OF ch'] by (intro plain_escape_non_ascii) auto
      moreover have "c # cs = ?ch @ drop (n - 1) cs" by simp
      ultimately have "plain_escape (c # cs) = ?ch @ plain_escape (drop (n - 1) cs)"
        by (metis plain_escape_append)
      with read_string_char [OF nq ch', of "plain_escape (drop (n - 1) cs) @ CHR 0x22 # r"] IH
      show ?thesis by simp
    qed
  qed
qed

lemma dec_no_leading_zero: "0 < n \<Longrightarrow> hd (dec n) \<noteq> CHR ''0''"
proof (induction n rule: dec.induct)
  case (1 n)
  show ?case
  proof (cases "n < 10")
    case True
    with 1 have "of_char (hd (dec n)) = 48 + n"
      by (subst dec.simps) (simp add: of_char_digit)
    with 1 show ?thesis by auto
  next
    case False
    with 1 have "hd (dec (n div 10)) \<noteq> CHR ''0''" by simp
    with False show ?thesis by (subst dec.simps) simp
  qed
qed

text \<open>What may follow a value inside a document.\<close>

definition json_ends :: "string \<Rightarrow> bool" where
  "json_ends r \<longleftrightarrow> (case r of [] \<Rightarrow> True | c # _ \<Rightarrow> c = CHR '','' \<or> c = CHR '']'' \<or> c = CHR ''}'')"

lemma span_dec:
  assumes "json_ends r"
  shows "span_digits (dec n @ r) = (dec n, r)"
proof -
  have "takeWhile is_digit r = []" "dropWhile is_digit r = r"
    using assms by (auto simp: json_ends_def is_digit_def split: list.splits)
  moreover have "\<forall>c \<in> set (dec n). is_digit c" using dec_digits by blast
  ultimately show ?thesis by (simp add: span_digits_def)
qed

lemma read_int_part_dec:
  assumes "json_ends r"
  shows "read_int_part (dec n @ r) = Some (dec n, r)"
proof (cases "n = 0")
  case True
  moreover have "dec 0 = [CHR ''0'']" by code_simp
  ultimately show ?thesis using span_dec [OF assms, of n] by (simp add: read_int_part_def)
next
  case False
  then have "hd (dec n) \<noteq> CHR ''0''" by (simp add: dec_no_leading_zero)
  then show ?thesis
    using span_dec [OF assms, of n] by (cases "dec n") (auto simp: read_int_part_def)
qed

lemma read_number_int:
  assumes "json_ends r"
  shows "read_number (dec_int i @ r) = Some (JInt i, r)"
proof -
  have "read_fraction r = Some ([], r)" "read_exponent r = Some ([], r)"
    using assms by (auto simp: json_ends_def read_fraction_def read_exponent_def split: list.splits)
  moreover obtain d ds where d: "dec (nat i) = d # ds" "is_digit d"
    using dec_digits by (metis dec_nonempty list.exhaust list.set_intros(1))
  moreover from d have "d \<noteq> CHR ''-''" by (auto simp: is_digit_def)
  moreover from d have "undec (d # ds) = nat i" by (metis undec_dec)
  ultimately show ?thesis
    using read_int_part_dec [OF assms, of "nat i"] read_int_part_dec [OF assms, of "nat (- i)"]
    by (auto simp: read_number_def dec_int_def undec_dec)
qed

text \<open>Values without raw number text whose strings are in \<open>P\<close>, and a function on their strings.\<close>

fun json_all :: "(string \<Rightarrow> bool) \<Rightarrow> json \<Rightarrow> bool"
and elems_all :: "(string \<Rightarrow> bool) \<Rightarrow> json list \<Rightarrow> bool"
and members_all :: "(string \<Rightarrow> bool) \<Rightarrow> (string \<times> json) list \<Rightarrow> bool" where
  "json_all P (JFloat s) = False"
| "json_all P (JStr s) = P s"
| "json_all P (JArr vs) = elems_all P vs"
| "json_all P (JObj ms) = members_all P ms"
| "json_all P _ = True"
| "elems_all P [] = True"
| "elems_all P (v # vs) = (json_all P v \<and> elems_all P vs)"
| "members_all P [] = True"
| "members_all P ((k, v) # ms) = (P k \<and> json_all P v \<and> members_all P ms)"

fun json_map :: "(string \<Rightarrow> string) \<Rightarrow> json \<Rightarrow> json"
and elems_map :: "(string \<Rightarrow> string) \<Rightarrow> json list \<Rightarrow> json list"
and members_map :: "(string \<Rightarrow> string) \<Rightarrow> (string \<times> json) list \<Rightarrow> (string \<times> json) list" where
  "json_map f (JStr s) = JStr (f s)"
| "json_map f (JArr vs) = JArr (elems_map f vs)"
| "json_map f (JObj ms) = JObj (members_map f ms)"
| "json_map f v = v"
| "elems_map f [] = []"
| "elems_map f (v # vs) = json_map f v # elems_map f vs"
| "members_map f [] = []"
| "members_map f ((k, v) # ms) = (f k, json_map f v) # members_map f ms"

lemma json_map_id:
  "(\<And>s. P s \<Longrightarrow> f s = s) \<Longrightarrow> json_all P v \<Longrightarrow> json_map f v = v"
  "(\<And>s. P s \<Longrightarrow> f s = s) \<Longrightarrow> elems_all P vs \<Longrightarrow> elems_map f vs = vs"
  "(\<And>s. P s \<Longrightarrow> f s = s) \<Longrightarrow> members_all P ms \<Longrightarrow> members_map f ms = ms"
  by (induction P v and P vs and P ms rule: json_all_elems_all_members_all.induct) auto

lemma members_all_append [simp]:
  "members_all P (xs @ ys) \<longleftrightarrow> members_all P xs \<and> members_all P ys"
  by (induction xs) auto

lemma members_map_append [simp]: "members_map f (xs @ ys) = members_map f xs @ members_map f ys"
  by (induction xs) auto

lemma dec_int_hd: "\<exists>c cs. dec_int i = c # cs \<and> (is_digit c \<or> c = CHR ''-'')"
proof (cases "i < 0")
  case True
  then show ?thesis by (simp add: dec_int_def)
next
  case False
  then show ?thesis
    using dec_digits [of _ "nat i"] dec_nonempty [of "nat i"]
    by (cases "dec (nat i)") (auto simp: dec_int_def)
qed

lemma number_start:
  "is_digit c \<or> c = CHR ''-'' \<Longrightarrow> \<not> is_json_ws c \<and> c \<notin> {CHR ''n'', CHR ''t'', CHR ''f'', CHR 0x22,
     CHR ''['', CHR ''{'', CHR '']'', CHR ''}''}"
  by (auto simp: is_digit_def is_json_ws_def)

lemma print_hd:
  "json_all P v \<Longrightarrow> \<exists>c cs. json_print esc v = c # cs \<and> \<not> is_json_ws c \<and> c \<noteq> CHR '']''"
proof (cases v)
  case (JInt i)
  obtain c cs where "dec_int i = c # cs" "is_digit c \<or> c = CHR ''-''" using dec_int_hd by blast
  with number_start [of c] JInt show ?thesis by simp
qed (simp_all add: is_json_ws_def)

lemma read_value_int:
  assumes "json_ends r"
  shows "read_value (Suc k) (dec_int i @ r) = Some (JInt i, r)"
proof -
  obtain c cs where c: "dec_int i = c # cs" "is_digit c \<or> c = CHR ''-''" using dec_int_hd by blast
  with read_number_int [OF assms, of i] number_start [OF c(2)] show ?thesis by simp
qed

lemma read_print:
  shows "escapes esc f P \<Longrightarrow> json_all P v \<Longrightarrow> json_ends r \<Longrightarrow> length (json_print esc v) \<le> k \<Longrightarrow>
      read_value k (json_print esc v @ r) = Some (json_map f v, r)"
    and "escapes esc f P \<Longrightarrow> elems_all P vs \<Longrightarrow> vs \<noteq> [] \<Longrightarrow> length (print_elems esc vs) \<le> k \<Longrightarrow>
      read_elems k (print_elems esc vs @ r) = Some (elems_map f vs, r)"
    and "escapes esc f P \<Longrightarrow> members_all P ms \<Longrightarrow> ms \<noteq> [] \<Longrightarrow> length (print_members esc ms) \<le> k \<Longrightarrow>
      read_members k (print_members esc ms @ r) = Some (members_map f ms, r)"
proof (induction esc v and esc vs and esc ms arbitrary: k r and k r and k r
    rule: json_print_print_elems_print_members.induct)
  case (1 esc)
  then show ?case by (cases k) (simp_all add: is_json_ws_def expect_def starts_with_def)
next
  case (2 esc b)
  then show ?case by (cases k; cases b) (simp_all add: is_json_ws_def expect_def starts_with_def)
next
  case (3 esc i)
  then have "k \<noteq> 0" using dec_int_hd [of i] by auto
  with 3 show ?case by (cases k) (simp_all only: json_print.simps json_map.simps read_value_int)
next
  case (4 esc s)
  then show ?case by simp
next
  case (5 esc s)
  then show ?case by (cases k) (simp_all add: is_json_ws_def escapes_def)
next
  case (6 esc vs)
  then obtain j where k: "k = Suc j" by (cases k) auto
  show ?case
  proof (cases vs)
    case Nil
    then show ?thesis by (simp add: k is_json_ws_def)
  next
    case (Cons v ws)
    with 6 have "json_all P v" by simp
    then obtain c cs where c: "json_print esc v = c # cs" "\<not> is_json_ws c" "c \<noteq> CHR '']''"
      using print_hd by blast
    from 6 Cons k have "read_elems j (print_elems esc vs @ r) = Some (elems_map f vs, r)" by simp
    with Cons c show ?thesis by (simp add: k is_json_ws_def)
  qed
next
  case (7 esc ms)
  then obtain j where k: "k = Suc j" by (cases k) auto
  show ?case
  proof (cases ms)
    case Nil
    then show ?thesis by (simp add: k is_json_ws_def)
  next
    case (Cons m ws)
    from 7 Cons k have "read_members j (print_members esc ms @ r) = Some (members_map f ms, r)" by simp
    with Cons show ?thesis by (cases m) (simp add: k is_json_ws_def)
  qed
next
  case (9 esc v vs)
  then obtain j where k: "k = Suc j" using print_hd [of P v esc] by (cases k) auto
  let ?t = "if vs = [] then '']'' else CHR '','' # print_elems esc vs"
  have "read_value j (json_print esc v @ ?t @ r) = Some (json_map f v, ?t @ r)"
    using 9 k by (intro "9.IH"(1)) (auto simp: json_ends_def split: if_splits)
  moreover have "vs \<noteq> [] \<Longrightarrow> read_elems j (print_elems esc vs @ r) = Some (elems_map f vs, r)"
    using 9 k print_hd [of P v esc] by (intro "9.IH"(2)) auto
  ultimately show ?case by (simp add: k is_json_ws_def)
next
  case (11 esc name v ms)
  then obtain j where k: "k = Suc j" by (cases k) auto
  let ?t = "if ms = [] then ''}'' else CHR '','' # print_members esc ms"
  have "read_value j (json_print esc v @ ?t @ r) = Some (json_map f v, ?t @ r)"
    using 11 k by (intro "11.IH"(1)) (auto simp: json_ends_def split: if_splits)
  moreover have "ms \<noteq> [] \<Longrightarrow> read_members j (print_members esc ms @ r) = Some (members_map f ms, r)"
    using 11 k by (intro "11.IH"(2)) auto
  moreover have "read_string (esc name @ CHR 0x22 # CHR '':'' # json_print esc v @ ?t @ r)
      = Some (f name, CHR '':'' # json_print esc v @ ?t @ r)"
    using 11 by (simp add: escapes_def)
  ultimately show ?case by (simp add: k is_json_ws_def)
qed simp_all

lemma json_read_print:
  assumes "escapes esc f P" and "json_all P v"
  shows "json_read (json_print esc v) = Some (json_map f v)"
  using read_print(1) [OF assms, of "[]" "Suc (length (json_print esc v))"]
  by (simp add: json_read_def json_ends_def)

section \<open>The fuel is enough\<close>

lemma read_string_length: "read_string s = Some (t, r) \<Longrightarrow> length r < length s"
proof (induction s arbitrary: t r rule: read_string.induct)
  case 1
  then show ?case by (simp add: read_string.simps)
next
  case (2 c cs)
  note eq = "2.prems" [unfolded read_string.simps(2) [of c cs]]
  consider (quote) "c = CHR 0x22" | (escape) "c \<noteq> CHR 0x22" "c = CHR 0x5C"
    | (char) "c \<noteq> CHR 0x22" "c \<noteq> CHR 0x5C" by blast
  then show ?case
  proof cases
    case quote
    with eq show ?thesis by simp
  next
    case escape
    show ?thesis
    proof (cases cs)
      case Nil
      with escape eq show ?thesis by simp
    next
      case (Cons e es)
      show ?thesis
      proof (cases "e = CHR ''u''")
        case True
        with escape eq Cons obtain x y u where u: "read_u_escape es = Some (x, y)"
          and "read_string y = Some (u, r)" by (auto split: option.splits)
        with "2.IH"(1) [OF escape Cons True u refl this(2)] read_u_escape_length [OF u] Cons
        show ?thesis by simp
      next
        case False
        with escape eq Cons obtain x u where x: "unescape e = Some x"
          and "read_string es = Some (u, r)" by (auto split: option.splits)
        with "2.IH"(2) [OF escape Cons False x this(2)] Cons show ?thesis by simp
      qed
    qed
  next
    case char
    obtain ok n where ch: "(ok, n) = utf8_chunk c cs" by (metis surj_pair)
    from char eq have ctl: "\<not> (of_char c :: nat) < 32" by (auto split: if_splits)
    show ?thesis
    proof (cases ok)
      case True
      with char eq ctl ch [symmetric] obtain u where "read_string (drop (n - 1) cs) = Some (u, r)"
        by auto
      from "2.IH"(3) [OF char ctl ch True this] show ?thesis by simp
    next
      case False
      with char eq ctl ch [symmetric] obtain u where "read_string cs = Some (u, r)" by auto
      from "2.IH"(4) [OF char ctl ch False this] show ?thesis by simp
    qed
  qed
qed

lemma expect_length: "expect p s = Some r \<Longrightarrow> length r \<le> length s"
  by (auto simp: expect_def split: if_splits)

lemma read_int_part_length: "read_int_part s = Some (ds, r) \<Longrightarrow> length r < length s"
proof -
  have "length (takeWhile is_digit s) + length (dropWhile is_digit s) = length s"
    by (metis length_append takeWhile_dropWhile_id)
  moreover assume "read_int_part s = Some (ds, r)"
  ultimately show ?thesis
    by (auto simp: read_int_part_def span_digits_def split: list.splits if_splits)
qed

lemma read_fraction_length: "read_fraction s = Some (ds, r) \<Longrightarrow> length r \<le> length s"
  by (auto simp: read_fraction_def span_digits_def length_dropWhile_le le_SucI
      split: list.splits if_splits)

lemma read_exponent_length: "read_exponent s = Some (ds, r) \<Longrightarrow> length r \<le> length s"
proof -
  have "length (dropWhile is_digit xs) \<le> Suc (Suc (length xs))" for xs
    using length_dropWhile_le [of is_digit xs] by simp
  moreover assume "read_exponent s = Some (ds, r)"
  ultimately show ?thesis
    by (auto simp: read_exponent_def span_digits_def Let_def length_dropWhile_le le_SucI
      split: list.splits if_splits prod.splits)
qed

lemma read_number_length: "read_number s = Some (v, r) \<Longrightarrow> length r < length s"
  by (auto simp: read_number_def bind_eq_Some_conv split: list.splits if_splits prod.splits
      dest!: read_int_part_length read_fraction_length read_exponent_length)


lemma skip_ws_length: "skip_ws s = c # cs \<Longrightarrow> length cs < length s"
  using length_dropWhile_le [of is_json_ws s] by (metis Suc_le_lessD length_Cons)

lemma read_elems_inv:
  assumes "read_elems (Suc k) s = Some (vs, r)"
  shows "\<exists>v r1 d ds. read_value k s = Some (v, r1) \<and> skip_ws r1 = d # ds
    \<and> (d = CHR '','' \<and> (\<exists>ws. read_elems k ds = Some (ws, r) \<and> vs = v # ws)
       \<or> d = CHR '']'' \<and> vs = [v] \<and> r = ds)"
proof -
  from assms obtain v r1 where v: "read_value k s = Some (v, r1)"
    by (auto simp: bind_eq_Some_conv)
  with assms obtain d ds where d: "skip_ws r1 = d # ds" by (auto split: list.splits)
  with assms v show ?thesis by (auto split: if_splits)
qed

lemma read_members_inv:
  assumes "read_members (Suc k) s = Some (ms, r)"
  shows "\<exists>cs name r1 ds v r2 e es. skip_ws s = CHR 0x22 # cs \<and> read_string cs = Some (name, r1)
    \<and> skip_ws r1 = CHR '':'' # ds \<and> read_value k ds = Some (v, r2) \<and> skip_ws r2 = e # es
    \<and> (e = CHR '','' \<and> (\<exists>ws. read_members k es = Some (ws, r) \<and> ms = (name, v) # ws)
       \<or> e = CHR ''}'' \<and> ms = [(name, v)] \<and> r = es)"
proof -
  from assms obtain cs where cs: "skip_ws s = CHR 0x22 # cs" by (auto split: list.splits if_splits)
  with assms obtain name r1 where n: "read_string cs = Some (name, r1)"
    by (auto simp: bind_eq_Some_conv)
  with assms cs obtain ds where ds: "skip_ws r1 = CHR '':'' # ds"
    by (auto split: list.splits if_splits)
  with assms cs n obtain v r2 where v: "read_value k ds = Some (v, r2)"
    by (auto simp: bind_eq_Some_conv)
  with assms cs n ds obtain e es where e: "skip_ws r2 = e # es"
    by (auto split: list.splits)
  with assms cs n ds v show ?thesis
    by (auto split: if_splits)
qed

lemma read_lengths:
  "(\<forall>s v r. read_value k s = Some (v, r) \<longrightarrow> length r < length s)
   \<and> (\<forall>s vs r. read_elems k s = Some (vs, r) \<longrightarrow> length r < length s)
   \<and> (\<forall>s ms r. read_members k s = Some (ms, r) \<longrightarrow> length r < length s)"
proof (induction k)
  case 0
  show ?case by simp
next
  case (Suc k)
  have val: "length r < length s" if "read_value k s = Some (v, r)" for s v r
    using Suc.IH that by blast
  have elems: "length r < length s" if "read_elems k s = Some (vs, r)" for s vs r
    using Suc.IH that by blast
  have members: "length r < length s" if "read_members k s = Some (ms, r)" for s ms r
    using Suc.IH that by blast
  have "length r < length s" if "read_value (Suc k) s = Some (v, r)" for s v r
  proof -
    from that obtain c cs where s: "skip_ws s = c # cs" by (auto split: list.splits)
    with that have "length r \<le> length cs"
      by (auto split: if_splits list.splits dest!: expect_length read_string_length
          elems members read_number_length skip_ws_length)
    with skip_ws_length [OF s] show ?thesis by simp
  qed
  moreover have "length r < length s" if "read_elems (Suc k) s = Some (vs, r)" for s vs r
    using read_elems_inv [OF that] by (fastforce dest!: val elems skip_ws_length)
  moreover have "length r < length s" if "read_members (Suc k) s = Some (ms, r)" for s ms r
    using read_members_inv [OF that]
    by (fastforce dest!: val members read_string_length skip_ws_length)
  ultimately show ?case by blast
qed


lemma read_value_length: "read_value k s = Some (v, r) \<Longrightarrow> length r < length s"
  and read_elems_length: "read_elems k s = Some (vs, r) \<Longrightarrow> length r < length s"
  and read_members_length: "read_members k s = Some (ms, r) \<Longrightarrow> length r < length s"
  using read_lengths [of k] by blast+

lemma fuel_enough:
  "(\<forall>k s v r. read_value j s = Some (v, r) \<longrightarrow> length s \<le> length r + k \<longrightarrow> read_value k s = Some (v, r))
   \<and> (\<forall>k s vs r. read_elems j s = Some (vs, r) \<longrightarrow> length s \<le> length r + k \<longrightarrow> read_elems k s = Some (vs, r))
   \<and> (\<forall>k s ms r. read_members j s = Some (ms, r) \<longrightarrow> length s \<le> length r + k \<longrightarrow> read_members k s = Some (ms, r))"
proof (induction j)
  case 0
  show ?case by simp
next
  case (Suc j)
  have val: "read_value k s = Some (v, r)"
    if "read_value j s = Some (v, r)" "length s \<le> length r + k" for k s v r
    using Suc.IH that by blast
  have elems: "read_elems k s = Some (vs, r)"
    if "read_elems j s = Some (vs, r)" "length s \<le> length r + k" for k s vs r
    using Suc.IH that by blast
  have members: "read_members k s = Some (ms, r)"
    if "read_members j s = Some (ms, r)" "length s \<le> length r + k" for k s ms r
    using Suc.IH that by blast
  have "read_value k s = Some (v, r)"
    if rd: "read_value (Suc j) s = Some (v, r)" and le: "length s \<le> length r + k" for k s v r
  proof -
    from read_value_length [OF rd] le obtain i where k: "k = Suc i" by (cases k) auto
    from rd obtain c cs where s: "skip_ws s = c # cs" by (auto split: list.splits)
    with le k have cs: "length cs \<le> length r + i" using skip_ws_length [OF s] by simp
    show ?thesis
    proof (cases "c = CHR ''['' \<or> c = CHR ''{''")
      case False
      with s have "read_value (Suc i) s = read_value (Suc j) s" by simp
      with rd show ?thesis by (simp add: k)
    next
      case True
      with rd s have "skip_ws cs \<noteq> []" by (auto simp del: dropWhile_eq_Nil_conv)
      then obtain d ds where d: "skip_ws cs = d # ds" by (auto simp: neq_Nil_conv simp del: dropWhile_eq_Nil_conv)
      from True show ?thesis
      proof
        assume c: "c = CHR ''[''"
        with rd s d have "d = CHR '']'' \<and> v = JArr [] \<and> r = ds
            \<or> d \<noteq> CHR '']'' \<and> (\<exists>vs. read_elems j cs = Some (vs, r) \<and> v = JArr vs)"
          by (auto split: if_splits)
        with elems cs have "d = CHR '']'' \<and> v = JArr [] \<and> r = ds
            \<or> d \<noteq> CHR '']'' \<and> (\<exists>vs. read_elems i cs = Some (vs, r) \<and> v = JArr vs)" by blast
        with c s d show ?thesis by (auto simp: k)
      next
        assume c: "c = CHR ''{''"
        with rd s d have "d = CHR ''}'' \<and> v = JObj [] \<and> r = ds
            \<or> d \<noteq> CHR ''}'' \<and> (\<exists>ms. read_members j cs = Some (ms, r) \<and> v = JObj ms)"
          by (auto split: if_splits)
        with members cs have "d = CHR ''}'' \<and> v = JObj [] \<and> r = ds
            \<or> d \<noteq> CHR ''}'' \<and> (\<exists>ms. read_members i cs = Some (ms, r) \<and> v = JObj ms)" by blast
        with c s d show ?thesis by (auto simp: k)
      qed
    qed
  qed
  moreover have "read_elems k s = Some (vs, r)"
    if rd: "read_elems (Suc j) s = Some (vs, r)" and le: "length s \<le> length r + k" for k s vs r
  proof -
    from read_elems_length [OF rd] le obtain i where k: "k = Suc i" by (cases k) auto
    from read_elems_inv [OF rd] obtain w r1 d ds where w: "read_value j s = Some (w, r1)"
      and d: "skip_ws r1 = d # ds"
      and or: "d = CHR '','' \<and> (\<exists>ws. read_elems j ds = Some (ws, r) \<and> vs = w # ws)
        \<or> d = CHR '']'' \<and> vs = [w] \<and> r = ds" by blast
    have l: "length ds < length r1" "length r1 < length s"
      using skip_ws_length [OF d] read_value_length [OF w] by auto
    from or have rl: "length r \<le> length ds" using read_elems_length by fastforce
    with l le k have "read_value i s = Some (w, r1)" by (intro val [OF w]) simp
    moreover from or l le k have "d = CHR '','' \<and> (\<exists>ws. read_elems i ds = Some (ws, r) \<and> vs = w # ws)
        \<or> d = CHR '']'' \<and> vs = [w] \<and> r = ds" using elems [of ds _ r i] by auto
    ultimately show ?thesis using d by (auto simp: k)
  qed
  moreover have "read_members k s = Some (ms, r)"
    if rd: "read_members (Suc j) s = Some (ms, r)" and le: "length s \<le> length r + k" for k s ms r
  proof -
    from read_members_length [OF rd] le obtain i where k: "k = Suc i" by (cases k) auto
    from read_members_inv [OF rd] obtain cs name r1 ds w r2 e es where
      s: "skip_ws s = CHR 0x22 # cs" and n: "read_string cs = Some (name, r1)"
      and c: "skip_ws r1 = CHR '':'' # ds" and w: "read_value j ds = Some (w, r2)"
      and e: "skip_ws r2 = e # es"
      and or: "e = CHR '','' \<and> (\<exists>ws. read_members j es = Some (ws, r) \<and> ms = (name, w) # ws)
         \<or> e = CHR ''}'' \<and> ms = [(name, w)] \<and> r = es" by blast
    have l: "length es < length r2" "length r2 < length ds" "length ds < length r1"
        "length r1 < length cs" "length cs < length s"
      using skip_ws_length [OF s] read_string_length [OF n] skip_ws_length [OF c]
        read_value_length [OF w] skip_ws_length [OF e] by auto
    from or have rl: "length r \<le> length es" using read_members_length by fastforce
    with l le k have "read_value i ds = Some (w, r2)" by (intro val [OF w]) simp
    moreover from or l le k have "e = CHR '','' \<and> (\<exists>ws. read_members i es = Some (ws, r) \<and> ms = (name, w) # ws)
         \<or> e = CHR ''}'' \<and> ms = [(name, w)] \<and> r = es" using members [of es _ r i] by auto
    ultimately show ?thesis using s n c e by (auto simp: k)
  qed
  ultimately show ?case by blast
qed

lemma json_read_any_fuel:
  "json_read s = Some v \<longleftrightarrow> (\<exists>k r. read_value k s = Some (v, r) \<and> skip_ws r = [])"
proof
  assume "json_read s = Some v"
  then show "\<exists>k r. read_value k s = Some (v, r) \<and> skip_ws r = []"
    by (auto simp: json_read_def bind_eq_Some_conv simp del: read_value.simps split: if_splits)
next
  assume "\<exists>k r. read_value k s = Some (v, r) \<and> skip_ws r = []"
  then obtain k r where k: "read_value k s = Some (v, r)" "skip_ws r = []" by blast
  have "length s \<le> length r + Suc (length s)" by simp
  with fuel_enough [of k, THEN conjunct1] k(1) have "read_value (Suc (length s)) s = Some (v, r)"
    by blast
  with k(2) show "json_read s = Some v"
    by (simp add: json_read_def del: read_value.simps)
qed

section \<open>Written text is safe to hand over as a C string\<close>

lemma hex_digit_ascii: "n < 16 \<Longrightarrow> 0 < (of_char (hex_digit n) :: nat) \<and> of_char (hex_digit n) < (128::nat)"
  by (simp add: of_char_hex_digit)

lemma u_escape_ascii:
  assumes "c \<in> set (u_escape n)"
  shows "0 < (of_char c :: nat) \<and> of_char c < (128::nat)"
  using assms hex_digit_ascii [of "_ mod 16"] by (auto simp: u_escape_def)

lemma short_escape_ascii:
  assumes "short_escape c = Some e" "d \<in> set e"
  shows "0 < (of_char d :: nat) \<and> of_char d < (128::nat)"
proof -
  from assms(1) have "(c, e) \<in> set [(CHR 0x22, [CHR 0x5C, CHR 0x22]), (CHR 0x5C, [CHR 0x5C, CHR 0x5C]),
      (CHR 0x08, [CHR 0x5C, CHR ''b'']), (CHR 0x0C, [CHR 0x5C, CHR ''f'']),
      (CHR 0x0A, [CHR 0x5C, CHR ''n'']), (CHR 0x0D, [CHR 0x5C, CHR ''r'']),
      (CHR 0x09, [CHR 0x5C, CHR ''t''])]"
    unfolding short_escape_def by (simp only: split: if_splits) simp_all
  with assms(2) show ?thesis by auto
qed

text \<open>A byte sequence that is safe to cross the C boundary as text: valid UTF-8 without NUL.\<close>

definition c_safe :: "string \<Rightarrow> bool" where
  "c_safe s \<longleftrightarrow> utf8_valid s \<and> NUL \<notin> set s"

lemma c_safe_Nil [simp]: "c_safe []"
  by (simp add: c_safe_def)

lemma c_safe_append: "c_safe s \<Longrightarrow> c_safe t \<Longrightarrow> c_safe (s @ t)"
  by (simp add: c_safe_def utf8_valid_append)

lemma c_safe_ascii:
  assumes "\<And>c. c \<in> set s \<Longrightarrow> 0 < (of_char c :: nat) \<and> of_char c < (128::nat)"
  shows "c_safe s"
proof -
  have "NUL \<notin> set s" using assms [of NUL] by auto
  moreover have "utf8_valid s" by (rule utf8_valid_ascii) (use assms in blast)
  ultimately show ?thesis by (simp add: c_safe_def)
qed

lemma c_safe_Cons:
  "0 < (of_char c :: nat) \<Longrightarrow> of_char c < (128::nat) \<Longrightarrow> c_safe s \<Longrightarrow> c_safe (c # s)"
  using c_safe_append [OF c_safe_ascii, of "[c]" s] by auto

lemma c_safe_char:
  assumes "utf8_chunk c cs = (True, n)" "128 \<le> (of_char c :: nat)"
  shows "c_safe (c # take (n - 1) cs)"
proof -
  have "c \<noteq> NUL" using assms(2) by auto
  moreover have "NUL \<notin> set (take (n - 1) cs)"
    using utf8_chunk_non_ascii [OF assms(1), of NUL] by auto
  ultimately show ?thesis by (simp only: c_safe_def utf8_valid_char [OF assms(1)]) simp
qed

lemma c_safe_go_escape: "c_safe (go_escape s)"
proof (induction s rule: go_escape.induct)
  case 1
  show ?case by (simp add: c_safe_def)
next
  case (2 c cs)
  show ?case
  proof (cases "(of_char c :: nat) < 128")
    case True
    let ?e = "case short_escape c of Some e \<Rightarrow> e
      | None \<Rightarrow> if (of_char c :: nat) < 32 \<or> (of_char c :: nat) \<in> {38, 60, 62}
                then u_escape (of_char c) else [c]"
    have "c_safe ?e"
    proof (cases "short_escape c")
      case (Some e)
      then show ?thesis using short_escape_ascii [OF Some] by (simp add: c_safe_ascii)
    next
      case None
      have "c_safe [c]" if "\<not> (of_char c :: nat) < 32"
        using that True by (intro c_safe_ascii) simp
      then show ?thesis using None u_escape_ascii by (auto intro: c_safe_ascii)
    qed
    from c_safe_append [OF this "2.IH"(1) [OF True]] True show ?thesis by simp
  next
    case False
    obtain ok n where ch: "utf8_chunk c cs = (ok, n)" by fastforce
    show ?thesis
    proof (cases ok)
      case True
      let ?ch = "c # take (n - 1) cs"
      let ?e = "if code_point ?ch \<in> {8232, 8233} then u_escape (code_point ?ch) else ?ch"
      have "c_safe ?e"
        using c_safe_char [of c cs n] ch True False u_escape_ascii by (auto intro: c_safe_ascii)
      moreover have "go_escape (c # cs) = ?e @ go_escape (drop (n - 1) cs)"
        using False ch True by (simp add: Let_def)
      ultimately show ?thesis
        using "2.IH"(3) [OF False ch [symmetric] refl] True by (simp add: c_safe_append)
    next
      case bad: False
      with False ch have "go_escape (c # cs) = u_escape 65533 @ go_escape cs" by simp
      moreover have "c_safe (u_escape 65533)" using u_escape_ascii by (intro c_safe_ascii) blast
      moreover have "c_safe (go_escape cs)" using "2.IH"(2) [OF False ch [symmetric] refl] bad by simp
      ultimately show ?thesis by (simp add: c_safe_append)
    qed
  qed
qed

lemma c_safe_dec_int: "c_safe (dec_int i)"
proof (rule c_safe_ascii)
  fix c assume "c \<in> set (dec_int i)"
  then have "is_digit c \<or> c = CHR ''-''"
    by (auto simp: dec_int_def dest: dec_digits split: if_splits)
  then show "0 < (of_char c :: nat) \<and> of_char c < (128::nat)" by (auto simp: is_digit_def)
qed

lemma c_safe_json_print:
  "(\<And>s. P s \<Longrightarrow> c_safe (esc s)) \<Longrightarrow> json_all P v \<Longrightarrow> c_safe (json_print esc v)"
  "(\<And>s. P s \<Longrightarrow> c_safe (esc s)) \<Longrightarrow> elems_all P vs \<Longrightarrow> c_safe (print_elems esc vs)"
  "(\<And>s. P s \<Longrightarrow> c_safe (esc s)) \<Longrightarrow> members_all P ms \<Longrightarrow> c_safe (print_members esc ms)"
proof (induction esc v and esc vs and esc ms rule: json_print_print_elems_print_members.induct)
qed (auto intro!: c_safe_Cons c_safe_append c_safe_dec_int simp: c_safe_ascii)

lemma c_safe_plain_escape: "utf8_valid s \<Longrightarrow> c_safe (plain_escape s)"
proof (induction s rule: utf8_valid.induct)
  case (2 c cs)
  obtain ok n where ch: "utf8_chunk c cs = (ok, n)" by fastforce
  with 2 have ch': "utf8_chunk c cs = (True, n)" and IH: "c_safe (plain_escape (drop (n - 1) cs))"
    by auto
  show ?case
  proof (cases "(of_char c :: nat) < 128")
    case True
    have "c_safe (plain_escape [c])"
    proof (cases "short_escape c")
      case (Some e)
      then show ?thesis using short_escape_ascii [OF Some] by (simp add: c_safe_ascii)
    next
      case None
      have "c_safe [c]" if "\<not> (of_char c :: nat) < 32"
        using that True by (intro c_safe_ascii) simp
      with None show ?thesis using u_escape_ascii by (auto intro: c_safe_ascii)
    qed
    with IH True ch' show ?thesis
      using c_safe_append [of "plain_escape [c]" "plain_escape cs"] by simp
  next
    case False
    let ?ch = "c # take (n - 1) cs"
    have "plain_escape ?ch = ?ch"
      using False utf8_chunk_non_ascii [OF ch'] by (intro plain_escape_non_ascii) auto
    moreover have "c # cs = ?ch @ drop (n - 1) cs" by simp
    ultimately have "plain_escape (c # cs) = ?ch @ plain_escape (drop (n - 1) cs)"
      by (metis plain_escape_append)
    with c_safe_append [OF c_safe_char [OF ch'] IH] False show ?thesis by simp
  qed
qed simp

lemma c_safe_crosses: "c_safe t \<Longrightarrow> utf8_lossy (c_text t) = t"
  by (simp add: c_safe_def c_text_id utf8_lossy_valid_id)

lemma go_reads_back:
  "json_all (\<lambda>_. True) v \<Longrightarrow> json_read (json_print go_escape v) = Some (json_map go_valid v)"
  by (rule json_read_print [OF escapes_go])

lemma go_crosses:
  "json_all (\<lambda>_. True) v \<Longrightarrow> utf8_lossy (c_text (json_print go_escape v)) = json_print go_escape v"
  by (intro c_safe_crosses c_safe_json_print(1) [of "\<lambda>_. True"] c_safe_go_escape)

section \<open>Properties\<close>



text \<open>
  The fuel of the reader is enough: a document is read as a value exactly when the recursive
  descent, given any amount of fuel, reads it and leaves only white space.
\<close>

lemma json_read_complete:
  "json_read s = Some v \<longleftrightarrow> (\<exists>k r. read_value k s = Some (v, r) \<and> skip_ws r = [])"
  by (rule json_read_any_fuel)

end
