(* ===== verification/Go_Library.thy ===== *)
theory Go_Library
  imports Transport Json
begin

text \<open>
  The C shared library of \<open>src/shared/c\<close>, the code behind the extern block of \<open>Transport\<close>:
  \<open>spicedb_start\<close> and \<open>spicedb_dispose\<close> of \<open>main.go\<close>, \<open>spicedb_rpc\<close> and \<open>runRPC\<close> of \<open>rpc.go\<close>, and
  \<open>startStreamingProxy\<close> of \<open>streaming_proxy.go\<close>, over the table of instances.  The packages the
  library calls (the SpiceDB server, gRPC, OpenTelemetry, the network) are the fields of the record
  \<open>packages\<close> and act on an opaque world.  Waiting on an error group whose goroutines cannot return
  is \<open>None\<close>.  The theory ends with the interpretation of \<open>c_library\<close>: the library keeps the
  contract the Rust wrappers rely on.
\<close>

section \<open>State\<close>

text \<open>A reference to an object of another package.\<close>

type_synonym obj = nat

text \<open>The goroutines of an instance's error group: \<open>server.Run(ctx)\<close> and \<open>srv.Serve(lis)\<close>.\<close>

datatype goroutine = RunServer | ServeProxy

record instance_rec =
  server :: obj
  client_conn :: "obj option"
  streaming_addr :: string
  streaming_listener :: "obj option"
  streaming_server :: "obj option"
  cancel :: obj
  wg :: "goroutine list"
  tracer_provider :: "obj option"
  prev_tracer_provider :: obj
  metrics_server :: "obj option"

record 'w golib =
  instances :: "u64 \<rightharpoonup> instance_rec"
  next_id :: u64
  next_ctx :: obj
  global_tracer :: obj
  world :: 'w

section \<open>Start options\<close>

record go_options =
  Datastore :: string
  DatastoreURI :: string
  SpannerCredentialsFile :: string
  SpannerEmulatorHost :: string
  MySQLTablePrefix :: string
  MetricsEnabled :: bool
  DatastoreMetricsEnabled :: "bool option"
  CacheMetricsEnabled :: "bool option"
  OTLPEndpoint :: string
  OTLPServiceName :: string
  MetricsPort :: int
  MetricsHost :: string

definition zero_options :: go_options where
  "zero_options =
     \<lparr>Datastore = [], DatastoreURI = [], SpannerCredentialsFile = [], SpannerEmulatorHost = [],
      MySQLTablePrefix = [], MetricsEnabled = False, DatastoreMetricsEnabled = None,
      CacheMetricsEnabled = None, OTLPEndpoint = [], OTLPServiceName = [], MetricsPort = 0,
      MetricsHost = []\<rparr>"

text \<open>
  \<open>encoding/json\<close> matches member names to field names up to case, U+017F and U+212A folding to the
  letters s and k.
\<close>

fun fold_name :: "string \<Rightarrow> string" where
  "fold_name [] = []"
| "fold_name (c # cs) =
     (if (of_char c :: nat) = 197 \<and> map (of_char :: char \<Rightarrow> nat) (take 1 cs) = [191]
      then CHR ''s'' # fold_name (drop 1 cs)
      else if (of_char c :: nat) = 226 \<and> map (of_char :: char \<Rightarrow> nat) (take 2 cs) = [132, 170]
      then CHR ''k'' # fold_name (drop 2 cs)
      else (if 65 \<le> (of_char c :: nat) \<and> (of_char c :: nat) \<le> 90
            then char_of ((of_char c :: nat) + 32) else c) # fold_name cs)"

text \<open>Decoding a value into a field: \<open>null\<close> leaves a plain field alone and clears a pointer, a value
  of another type is skipped (the error of \<open>json.Unmarshal\<close> is ignored).\<close>

definition set_str :: "json \<Rightarrow> string \<Rightarrow> string" where
  "set_str v old = (case v of JStr s \<Rightarrow> s | _ \<Rightarrow> old)"

definition set_bool :: "json \<Rightarrow> bool \<Rightarrow> bool" where
  "set_bool v old = (case v of JBool b \<Rightarrow> b | _ \<Rightarrow> old)"

definition set_bool_ptr :: "json \<Rightarrow> bool option \<Rightarrow> bool option" where
  "set_bool_ptr v old = (case v of JBool b \<Rightarrow> Some b | JNull \<Rightarrow> None | _ \<Rightarrow> old)"

definition set_int :: "json \<Rightarrow> int \<Rightarrow> int" where
  "set_int v old =
     (case v of JInt i \<Rightarrow> if - (2 ^ 63) \<le> i \<and> i < 2 ^ 63 then i else old | _ \<Rightarrow> old)"

definition set_field :: "string \<times> json \<Rightarrow> go_options \<Rightarrow> go_options" where
  "set_field m opts =
     (let n = fold_name (fst m); v = snd m
      in if n = ''datastore'' then opts\<lparr>Datastore := set_str v (Datastore opts)\<rparr>
         else if n = ''datastore_uri'' then opts\<lparr>DatastoreURI := set_str v (DatastoreURI opts)\<rparr>
         else if n = ''spanner_credentials_file''
           then opts\<lparr>SpannerCredentialsFile := set_str v (SpannerCredentialsFile opts)\<rparr>
         else if n = ''spanner_emulator_host''
           then opts\<lparr>SpannerEmulatorHost := set_str v (SpannerEmulatorHost opts)\<rparr>
         else if n = ''mysql_table_prefix''
           then opts\<lparr>MySQLTablePrefix := set_str v (MySQLTablePrefix opts)\<rparr>
         else if n = ''metrics_enabled'' then opts\<lparr>MetricsEnabled := set_bool v (MetricsEnabled opts)\<rparr>
         else if n = ''datastore_metrics_enabled''
           then opts\<lparr>DatastoreMetricsEnabled := set_bool_ptr v (DatastoreMetricsEnabled opts)\<rparr>
         else if n = ''cache_metrics_enabled''
           then opts\<lparr>CacheMetricsEnabled := set_bool_ptr v (CacheMetricsEnabled opts)\<rparr>
         else if n = ''otlp_endpoint'' then opts\<lparr>OTLPEndpoint := set_str v (OTLPEndpoint opts)\<rparr>
         else if n = ''otlp_service_name'' then opts\<lparr>OTLPServiceName := set_str v (OTLPServiceName opts)\<rparr>
         else if n = ''metrics_port'' then opts\<lparr>MetricsPort := set_int v (MetricsPort opts)\<rparr>
         else if n = ''metrics_host'' then opts\<lparr>MetricsHost := set_str v (MetricsHost opts)\<rparr>
         else opts)"

definition parse_start_options :: "string option \<Rightarrow> go_options" where
  "parse_start_options options_json =
     (case options_json of
        None \<Rightarrow> zero_options
      | Some p \<Rightarrow>
          (let s = c_text p
           in if s = [] then zero_options
              else (case json_read s of
                      Some (JObj ms) \<Rightarrow> fold set_field ms zero_options
                    | _ \<Rightarrow> zero_options)))"

definition bool_ptr_or_default :: "bool option \<Rightarrow> bool \<Rightarrow> bool" where
  "bool_ptr_or_default b d = (case b of None \<Rightarrow> d | Some x \<Rightarrow> x)"

definition go_engine :: "go_options \<Rightarrow> string" where
  "go_engine opts = (if Datastore opts = [] then ''memory'' else Datastore opts)"

definition remote_engine :: "string \<Rightarrow> bool" where
  "remote_engine e \<longleftrightarrow> e \<in> {''postgres'', ''cockroachdb'', ''spanner'', ''mysql''}"

datatype ds_option =
  DefaultDatastoreConfig
| WithEngine string
| WithRequestHedgingEnabled bool
| WithEnableDatastoreMetrics bool
| WithURI string
| WithSpannerCredentialsFile string
| WithSpannerEmulatorHost string
| WithTablePrefix string

definition datastore_options :: "go_options \<Rightarrow> ds_option list" where
  "datastore_options opts =
     [DefaultDatastoreConfig, WithEngine (go_engine opts), WithRequestHedgingEnabled False,
      WithEnableDatastoreMetrics
        (MetricsEnabled opts \<and> bool_ptr_or_default (DatastoreMetricsEnabled opts) True)]
     @ (if DatastoreURI opts \<noteq> [] then [WithURI (DatastoreURI opts)] else [])
     @ (if go_engine opts = ''spanner'' then
          (if SpannerCredentialsFile opts \<noteq> [] then [WithSpannerCredentialsFile (SpannerCredentialsFile opts)] else [])
          @ (if SpannerEmulatorHost opts \<noteq> [] then [WithSpannerEmulatorHost (SpannerEmulatorHost opts)] else [])
        else [])
     @ (if go_engine opts = ''mysql'' \<and> MySQLTablePrefix opts \<noteq> [] then [WithTablePrefix (MySQLTablePrefix opts)] else [])"

section \<open>The packages the library calls\<close>

record ('m, 'w) packages =
  is_windows :: bool
  temp_file :: "string \<Rightarrow> string"
  process_id :: nat
  new_datastore :: "ds_option list \<Rightarrow> 'w \<Rightarrow> (string + obj) \<times> 'w"
  new_server :: "obj \<Rightarrow> bool \<Rightarrow> 'w \<Rightarrow> (string + obj) \<times> 'w"
  new_client :: "obj \<Rightarrow> 'w \<Rightarrow> (string + obj) \<times> 'w"
  run_server :: "obj \<Rightarrow> obj \<Rightarrow> 'w \<Rightarrow> 'w"
  cancel_context :: "obj \<Rightarrow> 'w \<Rightarrow> 'w"
  close_conn :: "obj \<Rightarrow> 'w \<Rightarrow> 'w"
  new_tracer :: "string \<Rightarrow> string \<Rightarrow> 'w \<Rightarrow> (string + obj) \<times> 'w"
  shutdown_tracer :: "obj \<Rightarrow> 'w \<Rightarrow> 'w"
  serve_metrics :: "string \<Rightarrow> 'w \<Rightarrow> (string + obj) \<times> 'w"
  shutdown_metrics :: "obj \<Rightarrow> 'w \<Rightarrow> 'w"
  listen_unix :: "string \<Rightarrow> 'w \<Rightarrow> (string + obj) \<times> 'w"
  listen_tcp :: "string \<Rightarrow> 'w \<Rightarrow> (string + obj \<times> string) \<times> 'w"
  close_listener :: "obj \<Rightarrow> 'w \<Rightarrow> 'w"
  remove_file :: "string \<Rightarrow> 'w \<Rightarrow> 'w"
  serve_proxy :: "obj \<Rightarrow> obj \<Rightarrow> 'w \<Rightarrow> obj \<times> 'w"
  graceful_stop :: "obj \<Rightarrow> 'w \<Rightarrow> 'w"
  unmarshal :: "string \<Rightarrow> bytes \<Rightarrow> string + 'm"
  marshal :: "'m \<Rightarrow> string + bytes"
  invoke :: "(string \<times> string) list \<Rightarrow> string \<Rightarrow> obj \<Rightarrow> 'm \<Rightarrow> 'w \<Rightarrow> (string + 'm) \<times> 'w"

definition on_world :: "('w \<Rightarrow> 'w) \<Rightarrow> 'w golib \<Rightarrow> 'w golib" where
  "on_world f l = l\<lparr>world := f (world l)\<rparr>"

definition try_world :: "('w \<Rightarrow> (string + 'a) \<times> 'w) \<Rightarrow> 'w golib \<Rightarrow> (string + 'a) \<times> 'w golib" where
  "try_world f l = (let (r, w) = f (world l) in (r, l\<lparr>world := w\<rparr>))"

section \<open>Responses\<close>

definition go_json :: "json \<Rightarrow> string" where
  "go_json v = json_print go_escape v"

definition make_error :: "string \<Rightarrow> string" where
  "make_error msg = go_json (JObj ([(''success'', JBool False)]
     @ (if msg = [] then [] else [(''error'', JStr msg)])))"

definition make_success :: "json option \<Rightarrow> string" where
  "make_success data = go_json (JObj ([(''success'', JBool True)]
     @ (case data of None \<Rightarrow> [] | Some d \<Rightarrow> [(''data'', d)])))"

text \<open>Both are the text of one struct, \<open>error\<close> and \<open>data\<close> left out when empty.\<close>

definition response_json :: "bool \<Rightarrow> string option \<Rightarrow> json option \<Rightarrow> json" where
  "response_json b e d = JObj ([(''success'', JBool b)]
     @ (case e of None \<Rightarrow> [] | Some m \<Rightarrow> [(''error'', JStr m)])
     @ (case d of None \<Rightarrow> [] | Some v \<Rightarrow> [(''data'', v)]))"

lemma make_error_response:
  "make_error m = go_json (response_json False (if m = [] then None else Some m) None)"
  by (simp add: make_error_def response_json_def)

lemma make_success_response: "make_success d = go_json (response_json True None d)"
  by (simp add: make_success_def response_json_def split: option.split)

lemma response_json_all:
  "json_all (\<lambda>_. True) (response_json b e d) \<longleftrightarrow> (\<forall>v. d = Some v \<longrightarrow> json_all (\<lambda>_. True) v)"
  by (auto simp: response_json_def split: option.split)

lemma json_map_response:
  "json_map go_valid (response_json b e d)
     = response_json b (map_option go_valid e) (map_option (json_map go_valid) d)"
  by (auto simp: response_json_def go_valid_id utf8_valid_ascii split: option.split)

text \<open>\<open>json.Marshal\<close> of the map of the start response: keys in sorted order.\<close>

definition start_data :: "u64 \<Rightarrow> string \<Rightarrow> string \<Rightarrow> json" where
  "start_data h addr transport =
     JObj [(''grpc_transport'', JStr ''memory''), (''handle'', JInt (uint h)),
           (''streaming_address'', JStr addr), (''streaming_transport'', JStr transport)]"

section \<open>Start\<close>

definition cleanup_observability :: "('m, 'w) packages \<Rightarrow> instance_rec \<Rightarrow> 'w golib \<Rightarrow> 'w golib" where
  "cleanup_observability P i l =
     (let l1 = (case metrics_server i of None \<Rightarrow> l | Some m \<Rightarrow> on_world (shutdown_metrics P m) l)
      in case tracer_provider i of
           None \<Rightarrow> l1
         | Some tp \<Rightarrow> (on_world (shutdown_tracer P tp) l1)\<lparr>global_tracer := prev_tracer_provider i\<rparr>)"

text \<open>
  \<open>wg.Wait()\<close>: \<open>server.Run\<close> returns once its context is cancelled, \<open>Serve\<close> once its gRPC server is
  stopped; with a goroutine left that cannot return, the wait never does.
\<close>

definition wg_wait :: "bool \<Rightarrow> bool \<Rightarrow> instance_rec \<Rightarrow> 'w golib \<Rightarrow> 'w golib option" where
  "wg_wait cancelled stopped i l =
     (if (RunServer \<in> set (wg i) \<longrightarrow> cancelled) \<and> (ServeProxy \<in> set (wg i) \<longrightarrow> stopped)
      then Some l else None)"

text \<open>\<open>setupOTelTracing\<close>: the exporter and resource errors are the package's; on success the global
  provider is replaced and the previous one returned.\<close>

definition setup_otel_tracing ::
    "('m, 'w) packages \<Rightarrow> string \<Rightarrow> string \<Rightarrow> 'w golib \<Rightarrow> (string + obj \<times> obj) \<times> 'w golib" where
  "setup_otel_tracing P endpoint service l =
     (case try_world (new_tracer P endpoint (if service = [] then ''spicedb'' else service)) l of
        (Inl e, l1) \<Rightarrow> (Inl e, l1)
      | (Inr tp, l1) \<Rightarrow> (Inr (global_tracer l1, tp), l1\<lparr>global_tracer := tp\<rparr>))"

definition start_metrics_server ::
    "('m, 'w) packages \<Rightarrow> string \<Rightarrow> int \<Rightarrow> 'w golib \<Rightarrow> (string + obj) \<times> 'w golib" where
  "start_metrics_server P host port l =
     (case try_world (serve_metrics P (host @ '':'' @ dec_int port)) l of
        (Inl e, l1) \<Rightarrow> (Inl (''binding metrics port '' @ dec_int port @ '': '' @ e), l1)
      | (Inr srv, l1) \<Rightarrow> (Inr srv, l1))"

definition streaming_proxy_addr :: "('m, 'w) packages \<Rightarrow> u64 \<Rightarrow> string" where
  "streaming_proxy_addr P iid =
     (if is_windows P then ''127.0.0.1:'' @ dec (50151 + unat iid mod 5000)
      else temp_file P (''spicedb-streaming-'' @ dec (process_id P) @ ''-'' @ dec (unat iid) @ ''.sock''))"

text \<open>The listener and the address of the proxy, before the gRPC server is made.\<close>

definition proxy_listen ::
    "('m, 'w) packages \<Rightarrow> u64 \<Rightarrow> 'w golib \<Rightarrow> (string + obj \<times> string) \<times> 'w golib" where
  "proxy_listen P iid l =
     (if is_windows P then try_world (listen_tcp P ''127.0.0.1:0'') l
      else
        (let addr = streaming_proxy_addr P iid
         in case try_world (listen_unix P addr) (on_world (remove_file P addr) l) of
              (Inl e, l1) \<Rightarrow> (Inl e, l1)
            | (Inr lis, l1) \<Rightarrow> (Inr (lis, addr), l1)))"

definition start_streaming_proxy ::
    "('m, 'w) packages \<Rightarrow> instance_rec \<Rightarrow> obj \<Rightarrow> u64 \<Rightarrow> 'w golib \<Rightarrow> (string + instance_rec) \<times> 'w golib" where
  "start_streaming_proxy P i conn iid l =
     (case proxy_listen P iid l of
        (Inl e, l1) \<Rightarrow> (Inl e, l1)
      | (Inr (lis, addr), l1) \<Rightarrow>
          (let (srv, w) = serve_proxy P conn lis (world l1)
           in (Inr (i\<lparr>streaming_listener := Some lis, streaming_server := Some srv,
                      wg := wg i @ [ServeProxy], streaming_addr := addr\<rparr>), l1\<lparr>world := w\<rparr>)))"

text \<open>\<open>spicedb_start\<close> from the point where the server exists and observability is set up.\<close>

definition start_serving ::
    "('m, 'w) packages \<Rightarrow> instance_rec \<Rightarrow> u64 \<Rightarrow> 'w golib \<Rightarrow> (string \<times> 'w golib) option" where
  "start_serving P i0 iid l0 =
     (let i = i0\<lparr>wg := [RunServer]\<rparr>;
          l = on_world (run_server P (server i) (cancel i)) l0;
          fail = (\<lambda>msg l'. do {
            l'' \<leftarrow> wg_wait True False i (on_world (cancel_context P (cancel i)) l');
            Some (make_error msg, cleanup_observability P i l'') })
      in case try_world (new_client P (server i)) l of
           (Inl e, l1) \<Rightarrow> fail (''failed to create in-memory client: '' @ e) l1
         | (Inr conn, l1) \<Rightarrow>
             (case start_streaming_proxy P (i\<lparr>client_conn := Some conn\<rparr>) conn iid l1 of
                (Inl e, l2) \<Rightarrow> fail (''failed to start streaming proxy: '' @ e) l2
              | (Inr i', l2) \<Rightarrow>
                  Some (make_success (Some (start_data iid (streaming_addr i')
                          (if is_windows P then ''tcp'' else ''unix''))),
                        l2\<lparr>instances := (instances l2)(iid \<mapsto> i')\<rparr>)))"

text \<open>The metrics server of \<open>spicedb_start\<close>: on failure the context is cancelled and what was set up
  is taken down.\<close>

definition with_metrics_server ::
    "('m, 'w) packages \<Rightarrow> go_options \<Rightarrow> instance_rec \<Rightarrow> 'w golib \<Rightarrow> (string + instance_rec) \<times> 'w golib" where
  "with_metrics_server P opts i l =
     (if MetricsEnabled opts \<and> 0 < MetricsPort opts then
        (case start_metrics_server P (if MetricsHost opts = [] then ''0.0.0.0'' else MetricsHost opts)
                (MetricsPort opts) l of
           (Inl e, l1) \<Rightarrow>
             (Inl (''failed to start metrics server: '' @ e),
              cleanup_observability P i (on_world (cancel_context P (cancel i)) l1))
         | (Inr srv, l1) \<Rightarrow> (Inr (i\<lparr>metrics_server := Some srv\<rparr>), l1))
      else (Inr i, l))"

definition start_observability ::
    "('m, 'w) packages \<Rightarrow> go_options \<Rightarrow> instance_rec \<Rightarrow> 'w golib \<Rightarrow> (string + instance_rec) \<times> 'w golib" where
  "start_observability P opts i l =
     (if MetricsEnabled opts \<and> OTLPEndpoint opts \<noteq> [] then
        (case setup_otel_tracing P (OTLPEndpoint opts) (OTLPServiceName opts) l of
           (Inl e, l1) \<Rightarrow>
             (Inl (''failed to configure OTLP tracing: '' @ e),
              on_world (cancel_context P (cancel i)) l1)
         | (Inr (prev, tp), l1) \<Rightarrow>
             with_metrics_server P opts
               (i\<lparr>tracer_provider := Some tp, prev_tracer_provider := prev\<rparr>) l1)
      else with_metrics_server P opts i l)"

definition blank_instance :: "obj \<Rightarrow> instance_rec" where
  "blank_instance ctx =
     \<lparr>server = 0, client_conn = None, streaming_addr = [], streaming_listener = None,
      streaming_server = None, cancel = ctx, wg = [], tracer_provider = None,
      prev_tracer_provider = 0, metrics_server = None\<rparr>"

definition go_start ::
    "('m, 'w) packages \<Rightarrow> string option \<Rightarrow> 'w golib \<Rightarrow> (string \<times> 'w golib) option" where
  "go_start P options_json l =
     (let opts = parse_start_options options_json
      in if remote_engine (go_engine opts) \<and> DatastoreURI opts = []
         then Some (make_error (''datastore_uri is required for '' @ go_engine opts @ '' datastore''), l)
         else
           (let ctx = next_ctx l;
                i = blank_instance ctx;
                iid = next_id l + 1;
                l0 = l\<lparr>next_ctx := Suc ctx, next_id := iid\<rparr>;
                abort = (\<lambda>l'. on_world (cancel_context P ctx) l')
            in case try_world (new_datastore P (datastore_options opts)) l0 of
                 (Inl e, l1) \<Rightarrow> Some (make_error (''failed to create datastore: '' @ e), abort l1)
               | (Inr ds, l1) \<Rightarrow>
                   (case try_world (new_server P ds
                            (MetricsEnabled opts \<and> bool_ptr_or_default (CacheMetricsEnabled opts) True)) l1 of
                      (Inl e, l2) \<Rightarrow> Some (make_error (''failed to create server: '' @ e), abort l2)
                    | (Inr srv, l2) \<Rightarrow>
                        (case start_observability P opts (i\<lparr>server := srv\<rparr>) l2 of
                           (Inl msg, l3) \<Rightarrow> Some (make_error msg, l3)
                         | (Inr i', l3) \<Rightarrow> start_serving P i' iid l3))))"

section \<open>Dispose\<close>

definition invalid_handle :: "u64 \<Rightarrow> string" where
  "invalid_handle h = ''invalid handle: '' @ dec (unat h)"

text \<open>What \<open>spicedb_dispose\<close> does between taking the instance out of the table and waiting: cancel,
  close the connection, stop the proxy's server, close its listener, in this order.\<close>

definition stop_serving :: "('m, 'w) packages \<Rightarrow> instance_rec \<Rightarrow> 'w golib \<Rightarrow> 'w golib" where
  "stop_serving P i l =
     (let l2 = on_world (cancel_context P (cancel i)) l;
          l3 = (case client_conn i of None \<Rightarrow> l2 | Some c \<Rightarrow> on_world (close_conn P c) l2);
          l4 = (case streaming_server i of None \<Rightarrow> l3 | Some v \<Rightarrow> on_world (graceful_stop P v) l3)
      in case streaming_listener i of None \<Rightarrow> l4 | Some v \<Rightarrow> on_world (close_listener P v) l4)"

definition go_dispose ::
    "('m, 'w) packages \<Rightarrow> u64 \<Rightarrow> 'w golib \<Rightarrow> (string \<times> 'w golib) option" where
  "go_dispose P handle l =
     (case instances l handle of
        None \<Rightarrow> Some (make_error (invalid_handle handle), l)
      | Some i \<Rightarrow> do {
          l1 \<leftarrow> wg_wait True (streaming_server i \<noteq> None) i
            (stop_serving P i (l\<lparr>instances := (instances l)(handle := None)\<rparr>));
          let l2 = cleanup_observability P i l1;
          Some (make_success None,
            if streaming_addr i \<noteq> [] \<and> \<not> is_windows P
            then on_world (remove_file P (streaming_addr i)) l2 else l2) })"

section \<open>Unary calls\<close>

text \<open>The name \<open>protoc-gen-go-grpc\<close> gives a method: package, service, method.\<close>

definition full_method_name :: "string \<Rightarrow> string \<Rightarrow> string" where
  "full_method_name service method = ''/authzed.api.v1.'' @ service @ ''/'' @ method"

text \<open>The methods \<open>spicedb_rpc\<close> accepts, with their request and response messages.\<close>

definition rpc_messages :: "(string \<times> string \<times> string) list" where
  "rpc_messages =
     [(full_method_name ''PermissionsService'' ''CheckPermission'',
        ''CheckPermissionRequest'', ''CheckPermissionResponse''),
      (full_method_name ''PermissionsService'' ''CheckBulkPermissions'',
        ''CheckBulkPermissionsRequest'', ''CheckBulkPermissionsResponse''),
      (full_method_name ''PermissionsService'' ''WriteRelationships'',
        ''WriteRelationshipsRequest'', ''WriteRelationshipsResponse''),
      (full_method_name ''PermissionsService'' ''DeleteRelationships'',
        ''DeleteRelationshipsRequest'', ''DeleteRelationshipsResponse''),
      (full_method_name ''PermissionsService'' ''ExpandPermissionTree'',
        ''ExpandPermissionTreeRequest'', ''ExpandPermissionTreeResponse''),
      (full_method_name ''SchemaService'' ''ReadSchema'', ''ReadSchemaRequest'', ''ReadSchemaResponse''),
      (full_method_name ''SchemaService'' ''WriteSchema'', ''WriteSchemaRequest'', ''WriteSchemaResponse'')]"

definition trace_metadata :: "string \<Rightarrow> string \<Rightarrow> (string \<times> string) list" where
  "trace_metadata tp ts =
     (if tp = [] then []
      else (''traceparent'', tp) # (if ts = [] then [] else [(''tracestate'', ts)]))"

definition run_rpc ::
    "('m, 'w) packages \<Rightarrow> (string \<times> string) list \<Rightarrow> u64 \<Rightarrow> string \<Rightarrow> string \<Rightarrow> bytes \<Rightarrow> 'w golib \<Rightarrow>
     (string + bytes) \<times> 'w golib" where
  "run_rpc P parent handle method req_type req_bytes l =
     (case instances l handle of
        None \<Rightarrow> (Inl (invalid_handle handle), l)
      | Some i \<Rightarrow>
          (case client_conn i of
             None \<Rightarrow> (Inl ''instance not available for FFI RPCs'', l)
           | Some conn \<Rightarrow>
               (case unmarshal P req_type req_bytes of
                  Inl e \<Rightarrow> (Inl e, l)
                | Inr req \<Rightarrow>
                    (case try_world (invoke P parent method conn req) l of
                       (Inl e, l1) \<Rightarrow> (Inl e, l1)
                     | (Inr resp, l1) \<Rightarrow>
                         (map_err (\<lambda>e. ''failed to marshal response: '' @ e) (marshal P resp), l1)))))"

text \<open>\<open>C.GoString\<close> of NULL is the empty string.\<close>

definition go_string :: "string option \<Rightarrow> string" where
  "go_string p = (case p of None \<Rightarrow> [] | Some s \<Rightarrow> c_text s)"

definition go_rpc ::
    "('m, 'w) packages \<Rightarrow> u64 \<Rightarrow> string \<Rightarrow> string option \<Rightarrow> string option \<Rightarrow> bytes \<Rightarrow> 'w golib \<Rightarrow>
     (string + bytes) \<times> 'w golib" where
  "go_rpc P handle method tp ts req l =
     (let name = c_text method
      in case map_of rpc_messages name of
           None \<Rightarrow> (Inl (''unsupported method: '' @ name), l)
         | Some (req_type, resp_type) \<Rightarrow>
             run_rpc P (trace_metadata (go_string tp) (go_string ts)) handle name req_type req l)"

section \<open>The exported functions\<close>

definition export_text :: "string \<Rightarrow> 'l process \<Rightarrow> nat \<times> 'l process" where
  "export_text t s = (let (p, h) = c_malloc (CText t) (mem s) in (p, s\<lparr>mem := h\<rparr>))"

definition spicedb_start ::
    "('m, 'w) packages \<Rightarrow> string option \<Rightarrow> 'w golib process \<Rightarrow> (nat \<times> 'w golib process) option" where
  "spicedb_start P options_json s = do {
     (t, l) \<leftarrow> go_start P options_json (lib s);
     Some (export_text t (s\<lparr>lib := l\<rparr>)) }"

definition spicedb_dispose ::
    "('m, 'w) packages \<Rightarrow> u64 \<Rightarrow> 'w golib process \<Rightarrow> (nat \<times> 'w golib process) option" where
  "spicedb_dispose P handle s = do {
     (t, l) \<leftarrow> go_dispose P handle (lib s);
     Some (export_text t (s\<lparr>lib := l\<rparr>)) }"

definition spicedb_free :: "nat \<Rightarrow> 'l process \<Rightarrow> 'l process option" where
  "spicedb_free p s =
     (if p \<noteq> 0 then map_option (\<lambda>h. s\<lparr>mem := h\<rparr>) (c_free p (mem s)) else Some s)"

definition spicedb_free_bytes :: "nat \<Rightarrow> 'l process \<Rightarrow> 'l process option" where
  "spicedb_free_bytes p s =
     (if p \<noteq> 0 then map_option (\<lambda>h. s\<lparr>mem := h\<rparr>) (c_free p (mem s)) else Some s)"

text \<open>\<open>C.GoBytes\<close>: a negative length panics, a length past the end of the buffer reads out of bounds.\<close>

definition go_bytes :: "bytes \<Rightarrow> i32 \<Rightarrow> bytes option" where
  "go_bytes bs n = (if 0 \<le> sint n \<and> nat (sint n) \<le> length bs then Some (take (nat (sint n)) bs) else None)"

text \<open>The end of \<open>runRPC\<close>: the error or the response goes to the out-parameters.\<close>

definition set_out :: "string + bytes \<Rightarrow> 'l process \<Rightarrow> rpc_out \<times> 'l process" where
  "set_out r s =
     (case r of
        Inl e \<Rightarrow> (let (p, h) = c_malloc (CText e) (mem s)
                  in (\<lparr>out_response_bytes = 0, out_response_len = 0, out_error = p\<rparr>, s\<lparr>mem := h\<rparr>))
      | Inr bs \<Rightarrow>
          if bs = [] then (\<lparr>out_response_bytes = 0, out_response_len = 0, out_error = 0\<rparr>, s)
          else (let (p, h) = c_malloc (CBuf bs) (mem s)
                in (\<lparr>out_response_bytes = p, out_response_len = of_nat (length bs), out_error = 0\<rparr>,
                    s\<lparr>mem := h\<rparr>)))"

definition spicedb_rpc ::
    "('m, 'w) packages \<Rightarrow> u64 \<Rightarrow> string \<Rightarrow> string option \<Rightarrow> string option \<Rightarrow> bytes \<Rightarrow> i32 \<Rightarrow> rpc_out \<Rightarrow>
     'w golib process \<Rightarrow> (rpc_out \<times> 'w golib process) option" where
  "spicedb_rpc P handle method tp ts req len out s =
     (if map_of rpc_messages (c_text method) = None
      then Some (set_out (Inl (''unsupported method: '' @ c_text method)) s)
      else do {
        bs \<leftarrow> go_bytes req len;
        let (r, l) = go_rpc P handle method tp ts bs (lib s);
        Some (set_out r (s\<lparr>lib := l\<rparr>)) })"

definition go_ffi :: "('m, 'w) packages \<Rightarrow> (nat \<Rightarrow> bool) \<Rightarrow> 'w golib ffi" where
  "go_ffi P esc =
     \<lparr>ffi_start = spicedb_start P, ffi_dispose = spicedb_dispose P, ffi_free = spicedb_free,
      ffi_free_bytes = spicedb_free_bytes, ffi_rpc = spicedb_rpc P, debug_escaped = esc\<rparr>"

section \<open>The library keeps its contract\<close>

text \<open>A goroutine that serves a proxy has a server to stop.\<close>

definition instance_ok :: "instance_rec \<Rightarrow> bool" where
  "instance_ok i \<longleftrightarrow> (ServeProxy \<in> set (wg i) \<longrightarrow> streaming_server i \<noteq> None)"

definition golib_ok :: "'w golib \<Rightarrow> bool" where
  "golib_ok l \<longleftrightarrow> (\<forall>h i. instances l h = Some i \<longrightarrow> instance_ok i)"

lemma on_world_simps [simp]:
  "instances (on_world f l) = instances l" "next_id (on_world f l) = next_id l"
  "next_ctx (on_world f l) = next_ctx l" "global_tracer (on_world f l) = global_tracer l"
  by (simp_all add: on_world_def)

lemma try_world_frame:
  assumes "try_world f l = (r, l')"
  shows "instances l' = instances l" "next_id l' = next_id l" "next_ctx l' = next_ctx l"
    "global_tracer l' = global_tracer l"
  using assms by (auto simp: try_world_def split: prod.splits)

lemma cleanup_frame [simp]:
  "instances (cleanup_observability P i l) = instances l"
  "next_id (cleanup_observability P i l) = next_id l"
  by (simp_all add: cleanup_observability_def Let_def split: option.splits)

lemma setup_otel_frame:
  assumes "setup_otel_tracing P e n l = (r, l')"
  shows "instances l' = instances l" "next_id l' = next_id l"
  using assms by (auto simp: setup_otel_tracing_def dest: try_world_frame split: prod.splits sum.splits)

lemma start_metrics_frame:
  assumes "start_metrics_server P h p l = (r, l')"
  shows "instances l' = instances l" "next_id l' = next_id l" "global_tracer l' = global_tracer l"
  using assms by (auto simp: start_metrics_server_def dest: try_world_frame split: prod.splits sum.splits)

lemma proxy_listen_frame:
  assumes "proxy_listen P i l = (r, l')"
  shows "instances l' = instances l" "next_id l' = next_id l" "global_tracer l' = global_tracer l"
  using assms
  by (auto simp: proxy_listen_def Let_def dest: try_world_frame split: if_splits prod.splits sum.splits)

lemma start_proxy_result:
  assumes "start_streaming_proxy P i conn n l = (r, l')"
  shows "instances l' = instances l" "next_id l' = next_id l" "global_tracer l' = global_tracer l"
    and "\<And>i'. r = Inr i' \<Longrightarrow> \<exists>lis srv addr. i' = i\<lparr>streaming_listener := Some lis,
      streaming_server := Some srv, wg := wg i @ [ServeProxy], streaming_addr := addr\<rparr>"
  using assms
  by (auto simp: start_streaming_proxy_def Let_def dest: proxy_listen_frame
      split: prod.splits sum.splits)

lemma cleanup_tracer:
  "global_tracer (cleanup_observability P i l)
     = (if tracer_provider i = None then global_tracer l else prev_tracer_provider i)"
  by (simp add: cleanup_observability_def Let_def split: option.split)

text \<open>The global tracer provider is the instance's, or the one there was before it.\<close>

definition traced :: "instance_rec \<Rightarrow> obj \<Rightarrow> obj \<Rightarrow> bool" where
  "traced i before after \<longleftrightarrow>
     (if tracer_provider i = None then after = before
      else tracer_provider i = Some after \<and> prev_tracer_provider i = before)"

lemma traced_cleanup:
  "traced i b (global_tracer l) \<Longrightarrow> global_tracer (cleanup_observability P i l) = b"
  by (simp add: traced_def cleanup_tracer split: if_splits)

lemma traced_metrics [simp]:
  "traced (metrics_server_update f i) b a = traced i b a"
  by (simp add: traced_def)

lemma with_metrics_frame:
  assumes "with_metrics_server P opts i l = (r, l')" and "traced i b (global_tracer l)"
  shows "instances l' = instances l \<and> next_id l' = next_id l
    \<and> (case r of Inl _ \<Rightarrow> global_tracer l' = b | Inr i' \<Rightarrow> traced i' b (global_tracer l'))"
proof (cases "MetricsEnabled opts \<and> 0 < MetricsPort opts")
  case False
  with assms show ?thesis by (auto simp: with_metrics_server_def)
next
  case True
  obtain q l1 where q: "start_metrics_server P (if MetricsHost opts = [] then ''0.0.0.0''
      else MetricsHost opts) (MetricsPort opts) l = (q, l1)" by fastforce
  note f = start_metrics_frame [OF q]
  from True q assms f show ?thesis
    by (cases q) (auto simp: with_metrics_server_def traced_cleanup simp del: append_Cons append_Nil)
qed

lemma setup_otel_tracer:
  assumes "setup_otel_tracing P e n l = (r, l')"
  shows "case r of Inl _ \<Rightarrow> global_tracer l' = global_tracer l
    | Inr (prev, tp) \<Rightarrow> prev = global_tracer l \<and> global_tracer l' = tp"
  using assms by (auto simp: setup_otel_tracing_def dest: try_world_frame split: prod.splits sum.splits)

lemma start_observability_frame:
  assumes "start_observability P opts i l = (r, l')" and "tracer_provider i = None"
  shows "instances l' = instances l \<and> next_id l' = next_id l
    \<and> (case r of Inl _ \<Rightarrow> global_tracer l' = global_tracer l
       | Inr i' \<Rightarrow> traced i' (global_tracer l) (global_tracer l'))"
proof (cases "MetricsEnabled opts \<and> OTLPEndpoint opts \<noteq> []")
  case False
  from assms(2) have "traced i (global_tracer l) (global_tracer l)" by (simp add: traced_def)
  moreover from False assms(1) have "with_metrics_server P opts i l = (r, l')"
    by (simp only: start_observability_def if_False)
  ultimately show ?thesis using with_metrics_frame by blast
next
  case True
  obtain q l1 where q: "setup_otel_tracing P (OTLPEndpoint opts) (OTLPServiceName opts) l = (q, l1)"
    by fastforce
  note f = setup_otel_frame [OF q] setup_otel_tracer [OF q]
  show ?thesis
  proof (cases q)
    case (Inl e)
    with assms True q f show ?thesis
      by (auto simp: start_observability_def simp del: append_Cons append_Nil)
  next
    case (Inr pt)
    obtain prev tp where pt: "pt = (prev, tp)" by fastforce
    let ?i = "i\<lparr>tracer_provider := Some tp, prev_tracer_provider := prev\<rparr>"
    from f Inr pt have "traced ?i (global_tracer l) (global_tracer l1)" by (simp add: traced_def)
    with assms True q f Inr pt with_metrics_frame [of P opts ?i l1 r l' "global_tracer l"] show ?thesis
      by (simp add: start_observability_def)
  qed
qed

text \<open>An instance as \<open>spicedb_start\<close> publishes it.\<close>

definition live_instance :: "instance_rec \<Rightarrow> bool" where
  "live_instance i \<longleftrightarrow> client_conn i \<noteq> None \<and> streaming_server i \<noteq> None
     \<and> streaming_listener i \<noteq> None \<and> wg i = [RunServer, ServeProxy]"

text \<open>The two ways \<open>spicedb_start\<close> can end: an error and no instance, or one more instance, under
  the next id, whose handle and address are in the response.\<close>

definition start_failed :: "string \<Rightarrow> 'w golib \<Rightarrow> 'w golib \<Rightarrow> bool" where
  "start_failed t l l' \<longleftrightarrow> (\<exists>msg. t = make_error msg) \<and> instances l' = instances l
     \<and> next_id l' \<in> {next_id l, next_id l + 1} \<and> global_tracer l' = global_tracer l"

definition start_succeeded :: "('m, 'w) packages \<Rightarrow> string \<Rightarrow> 'w golib \<Rightarrow> 'w golib \<Rightarrow> bool" where
  "start_succeeded P t l l' \<longleftrightarrow>
     (\<exists>i. t = make_success (Some (start_data (next_id l + 1) (streaming_addr i)
              (if is_windows P then ''tcp'' else ''unix'')))
       \<and> instances l' = (instances l)(next_id l + 1 \<mapsto> i) \<and> next_id l' = next_id l + 1
       \<and> live_instance i \<and> traced i (global_tracer l) (global_tracer l'))"

lemma wg_wait_run [simp]: "wg i = [RunServer] \<Longrightarrow> wg_wait True b i l = Some l"
  by (simp add: wg_wait_def)

text \<open>The state in which \<open>spicedb_start\<close> begins its work: a new context and the next id.\<close>

definition begun :: "'w golib \<Rightarrow> 'w golib" where
  "begun l = l\<lparr>next_ctx := Suc (next_ctx l), next_id := next_id l + 1\<rparr>"

lemma begun_simps [simp]:
  "instances (begun l) = instances l" "next_id (begun l) = next_id l + 1"
  "next_ctx (begun l) = Suc (next_ctx l)" "world (begun l) = world l"
  by (simp_all add: begun_def)

lemma go_start_paths:
  assumes "go_start P opts l = Some (t, l')"
  obtains (refused) "l' = l" "\<exists>e. t = make_error e"
  | (no_datastore) e l1 where "try_world (new_datastore P (datastore_options (parse_start_options opts))) (begun l) = (Inl e, l1)"
      "l' = on_world (cancel_context P (next_ctx l)) l1" "t = make_error (''failed to create datastore: '' @ e)"
  | (no_server) ds l1 m e l2 where
      "try_world (new_datastore P (datastore_options (parse_start_options opts))) (begun l) = (Inr ds, l1)"
      "try_world (new_server P ds m) l1 = (Inl e, l2)"
      "l' = on_world (cancel_context P (next_ctx l)) l2" "t = make_error (''failed to create server: '' @ e)"
  | (no_observability) ds l1 m srv l2 e where
      "try_world (new_datastore P (datastore_options (parse_start_options opts))) (begun l) = (Inr ds, l1)"
      "try_world (new_server P ds m) l1 = (Inr srv, l2)"
      "start_observability P (parse_start_options opts) (blank_instance (next_ctx l)\<lparr>server := srv\<rparr>) l2 = (Inl e, l')"
      "t = make_error e"
  | (serving) ds l1 m srv l2 i l3 where
      "try_world (new_datastore P (datastore_options (parse_start_options opts))) (begun l) = (Inr ds, l1)"
      "try_world (new_server P ds m) l1 = (Inr srv, l2)"
      "start_observability P (parse_start_options opts) (blank_instance (next_ctx l)\<lparr>server := srv\<rparr>) l2 = (Inr i, l3)"
      "start_serving P i (next_id l + 1) l3 = Some (t, l')"
proof -
  let ?o = "parse_start_options opts"
  let ?m = "MetricsEnabled ?o \<and> bool_ptr_or_default (CacheMetricsEnabled ?o) True"
  obtain d l1 where d: "try_world (new_datastore P (datastore_options ?o)) (begun l) = (d, l1)" by fastforce
  note unf = go_start_def Let_def begun_def [symmetric]
  show thesis
  proof (cases "remote_engine (go_engine ?o) \<and> DatastoreURI ?o = []")
    case True
    with assms refused show thesis by (auto simp: unf simp del: append_Cons append_Nil)
  next
    case uri: False
    show thesis
    proof (cases d)
      case (Inl e)
      from no_datastore [OF d [unfolded Inl]] assms uri d Inl show thesis
        by (simp add: unf del: append_Cons append_Nil)
    next
      case (Inr ds)
      note d = d [unfolded Inr]
      obtain v l2 where v: "try_world (new_server P ds ?m) l1 = (v, l2)" by fastforce
      show thesis
      proof (cases v)
        case (Inl e)
        from no_server [OF d v [unfolded Inl]] assms uri d v Inl show thesis
          by (simp add: unf del: append_Cons append_Nil)
      next
        case (Inr srv)
        note v = v [unfolded Inr]
        obtain q l3 where q: "start_observability P ?o (blank_instance (next_ctx l)\<lparr>server := srv\<rparr>) l2 = (q, l3)"
          by fastforce
        show thesis
        proof (cases q)
          case (Inl e)
          with assms uri d v q have "l' = l3" "t = make_error e" by (simp_all add: unf)
          with no_observability [OF d v] q Inl show thesis by simp
        next
          case (Inr i)
          with assms uri d v q have "start_serving P i (next_id l + 1) l3 = Some (t, l')" by (simp add: unf)
          with serving [OF d v q [unfolded Inr]] show thesis .
        qed
      qed
    qed
  qed
qed

lemma start_serving_paths:
  assumes "start_serving P i n l = Some (t, l')"
  obtains (no_client) e l1 where
      "try_world (new_client P (server i)) (on_world (run_server P (server i) (cancel i)) l) = (Inl e, l1)"
      "l' = cleanup_observability P (i\<lparr>wg := [RunServer]\<rparr>) (on_world (cancel_context P (cancel i)) l1)"
      "t = make_error (''failed to create in-memory client: '' @ e)"
  | (no_proxy) conn l1 e l2 where
      "try_world (new_client P (server i)) (on_world (run_server P (server i) (cancel i)) l) = (Inr conn, l1)"
      "start_streaming_proxy P (i\<lparr>wg := [RunServer], client_conn := Some conn\<rparr>) conn n l1 = (Inl e, l2)"
      "l' = cleanup_observability P (i\<lparr>wg := [RunServer]\<rparr>) (on_world (cancel_context P (cancel i)) l2)"
      "t = make_error (''failed to start streaming proxy: '' @ e)"
  | (published) conn l1 j l2 where
      "try_world (new_client P (server i)) (on_world (run_server P (server i) (cancel i)) l) = (Inr conn, l1)"
      "start_streaming_proxy P (i\<lparr>wg := [RunServer], client_conn := Some conn\<rparr>) conn n l1 = (Inr j, l2)"
      "l' = l2\<lparr>instances := (instances l2)(n \<mapsto> j)\<rparr>"
      "t = make_success (Some (start_data n (streaming_addr j) (if is_windows P then ''tcp'' else ''unix'')))"
proof -
  obtain c l1 where c: "try_world (new_client P (server i)) (on_world (run_server P (server i) (cancel i)) l)
      = (c, l1)" by fastforce
  note unf = start_serving_def Let_def wg_wait_def
  show thesis
  proof (cases c)
    case (Inl e)
    with no_client [OF c [unfolded Inl]] assms c show thesis
      by (simp add: unf del: append_Cons append_Nil)
  next
    case (Inr conn)
    note c = c [unfolded Inr]
    obtain p l2 where p: "start_streaming_proxy P (i\<lparr>wg := [RunServer], client_conn := Some conn\<rparr>) conn n l1
        = (p, l2)" by fastforce
    show thesis
    proof (cases p)
      case (Inl e)
      with no_proxy [OF c p [unfolded Inl]] assms c p show thesis
        by (simp add: unf del: append_Cons append_Nil)
    next
      case (Inr j)
      with published [OF c p [unfolded Inr]] assms c p show thesis by (simp add: unf)
    qed
  qed
qed

text \<open>A start always returns: a server whose context is cancelled stops, so the waits end.\<close>

lemma start_serving_total: "\<exists>t l'. start_serving P i n l = Some (t, l')"
  by (simp add: start_serving_def Let_def wg_wait_def split: prod.split sum.split del: append_Cons append_Nil)

lemma go_start_total: "\<exists>t l'. go_start P opts l = Some (t, l')"
  by (simp add: go_start_def Let_def start_serving_total split: prod.split sum.split del: append_Cons append_Nil)

lemma start_serving_outcome:
  assumes "start_serving P i n l = Some (t, l')" and "traced i b (global_tracer l)"
  shows "(\<exists>msg. t = make_error msg) \<and> instances l' = instances l
        \<and> next_id l' = next_id l \<and> global_tracer l' = b
    \<or> (\<exists>j. t = make_success (Some (start_data n (streaming_addr j) (if is_windows P then ''tcp'' else ''unix'')))
         \<and> instances l' = (instances l)(n \<mapsto> j) \<and> next_id l' = next_id l \<and> live_instance j
         \<and> traced j b (global_tracer l'))"
  using assms(1)
proof (cases rule: start_serving_paths)
  case (no_client e l1)
  from assms(2) try_world_frame [OF no_client(1)] have "traced (i\<lparr>wg := [RunServer]\<rparr>) b (global_tracer l1)"
    by (simp add: traced_def)
  then have "global_tracer l' = b" using no_client(2) by (simp add: traced_cleanup)
  with no_client try_world_frame [OF no_client(1)] show ?thesis by auto
next
  case (no_proxy conn l1 e l2)
  note f = try_world_frame [OF no_proxy(1)] start_proxy_result(1-3) [OF no_proxy(2)]
  from assms(2) f have "traced (i\<lparr>wg := [RunServer]\<rparr>) b (global_tracer l2)" by (simp add: traced_def)
  then have "global_tracer l' = b" using no_proxy(3) by (simp add: traced_cleanup)
  with no_proxy f show ?thesis by auto
next
  case (published conn l1 j l2)
  note f = try_world_frame [OF published(1)] start_proxy_result(1-3) [OF published(2)]
  from start_proxy_result(4) [OF published(2)] have "live_instance j" by (auto simp: live_instance_def)
  moreover have "traced j b (global_tracer l2)"
    using start_proxy_result(4) [OF published(2)] assms(2) f by (auto simp: traced_def)
  ultimately show ?thesis using published f by auto
qed

lemma go_start_outcome:
  obtains t l' where "go_start P opts l = Some (t, l')"
    and "start_failed t l l' \<or> start_succeeded P t l l'"
proof -
  obtain t l' where g: "go_start P opts l = Some (t, l')" using go_start_total by blast
  have blank: "tracer_provider (blank_instance c) = None" for c by (simp add: blank_instance_def)
  have begun: "global_tracer (begun l) = global_tracer l" by (simp add: begun_def)
  from g have "start_failed t l l' \<or> start_succeeded P t l l'"
  proof (cases rule: go_start_paths)
    case refused
    then show ?thesis by (auto simp: start_failed_def)
  next
    case (no_datastore e l1)
    with try_world_frame [OF no_datastore(1)] begun show ?thesis by (auto simp: start_failed_def)
  next
    case (no_server ds l1 m e l2)
    with try_world_frame [OF no_server(1)] try_world_frame [OF no_server(2)] begun show ?thesis
      by (auto simp: start_failed_def)
  next
    case (no_observability ds l1 m srv l2 e)
    with try_world_frame [OF no_observability(1)] try_world_frame [OF no_observability(2)] begun
      start_observability_frame [OF no_observability(3)] show ?thesis
      by (auto simp: start_failed_def blank)
  next
    case (serving ds l1 m srv l2 i l3)
    note f = try_world_frame [OF serving(1)] try_world_frame [OF serving(2)] begun
      start_observability_frame [OF serving(3)]
    then have "traced i (global_tracer l) (global_tracer l3)" by (simp add: blank)
    from start_serving_outcome [OF serving(4) this] f show ?thesis
      by (auto simp: start_failed_def start_succeeded_def blank)
  qed
  with that g show thesis by blast
qed

lemma live_instance_ok: "live_instance i \<Longrightarrow> instance_ok i"
  by (simp add: live_instance_def instance_ok_def)

lemma go_start_ok:
  assumes "golib_ok l" and "go_start P opts l = Some (t, l')"
  shows "golib_ok l'"
proof -
  obtain t1 l1 where o1: "go_start P opts l = Some (t1, l1)"
    and c: "start_failed t1 l l1 \<or> start_succeeded P t1 l l1" by (rule go_start_outcome)
  from o1 assms(2) have [simp]: "l1 = l'" by simp
  from c show ?thesis
  proof
    assume "start_failed t1 l l1"
    with assms(1) show ?thesis by (simp add: start_failed_def golib_ok_def)
  next
    assume "start_succeeded P t1 l l1"
    then obtain i where "instances l' = (instances l)(next_id l + 1 \<mapsto> i)" "live_instance i"
      by (auto simp: start_succeeded_def)
    with assms(1) show ?thesis by (simp add: golib_ok_def live_instance_ok)
  qed
qed

lemma go_dispose_invalid:
  "instances l h = None \<Longrightarrow> go_dispose P h l = Some (make_error (invalid_handle h), l)"
  by (simp add: go_dispose_def)

lemma stop_serving_frame [simp]:
  "instances (stop_serving P i l) = instances l" "next_id (stop_serving P i l) = next_id l"
  "global_tracer (stop_serving P i l) = global_tracer l"
  by (simp_all add: stop_serving_def Let_def split: option.split)

lemma wg_wait_dispose: "instance_ok i \<Longrightarrow> wg_wait True (streaming_server i \<noteq> None) i l = Some l"
  by (simp add: wg_wait_def instance_ok_def)

lemma go_dispose_valid:
  assumes "instances l h = Some i" and "instance_ok i"
  shows "\<exists>l'. go_dispose P h l = Some (make_success None, l')
    \<and> instances l' = (instances l)(h := None) \<and> next_id l' = next_id l
    \<and> global_tracer l' = (if tracer_provider i = None then global_tracer l else prev_tracer_provider i)"
  using assms(1)
  by (simp add: go_dispose_def Let_def wg_wait_dispose [OF assms(2)] cleanup_tracer
      del: not_None_eq)

lemma go_dispose_ok:
  assumes "golib_ok l"
  shows "\<exists>t l'. go_dispose P h l = Some (t, l') \<and> golib_ok l'
    \<and> instances l' = (instances l)(h := None) \<and> next_id l' = next_id l"
proof (cases "instances l h")
  case None
  then have "(instances l)(h := None) = instances l" by auto
  with None assms show ?thesis by (simp add: go_dispose_invalid)
next
  case (Some i)
  with assms have "instance_ok i" by (auto simp: golib_ok_def)
  from go_dispose_valid [OF Some this, of P] obtain l' where
    "go_dispose P h l = Some (make_success None, l')" "instances l' = (instances l)(h := None)"
    "next_id l' = next_id l" by blast
  with assms show ?thesis by (auto simp: golib_ok_def)
qed

lemma run_rpc_frame:
  assumes "run_rpc P md h m ty req l = (r, l')"
  shows "instances l' = instances l" "next_id l' = next_id l" "global_tracer l' = global_tracer l"
  using assms
  by (auto simp: run_rpc_def dest: try_world_frame split: option.splits sum.splits prod.splits)

lemma go_rpc_frame:
  assumes "go_rpc P h m tp ts req l = (r, l')"
  shows "instances l' = instances l" "next_id l' = next_id l" "global_tracer l' = global_tracer l"
  using assms
  by (auto simp: go_rpc_def Let_def dest: run_rpc_frame split: option.splits)

lemma export_text_law:
  assumes "heap_ok (mem s)" and "export_text t s = (p, s')"
  shows "returns_text t (mem s) p (mem s')" and "lib s' = lib s"
  using assms malloc_fresh [OF assms(1)]
  by (auto simp: export_text_def returns_text_def split: prod.splits)

lemma set_out_law:
  assumes ok: "heap_ok (mem s)" and out: "set_out r s = (out, s')"
  shows "delivers r (mem s) out (mem s')" and "lib s' = lib s"
proof -
  obtain p h where m: "c_malloc (CText (projl r)) (mem s) = (p, h)" by fastforce
  obtain q g where n: "c_malloc (CBuf (projr r)) (mem s) = (q, g)" by fastforce
  note M = malloc_fresh [OF ok m] and N = malloc_fresh [OF ok n]
  show "delivers r (mem s) out (mem s')"
    using ok out m n M N by (cases r) (auto simp: set_out_def delivers_def)
  show "lib s' = lib s"
    using out m n by (cases r) (auto simp: set_out_def split: if_splits)
qed

lemma free_law_go:
  assumes "heap_ok (mem s)" and "blocks (mem s) p = Some b"
  shows "\<exists>s'. spicedb_free p s = Some s' \<and> heap_ok (mem s')
    \<and> blocks (mem s') = (blocks (mem s))(p := None) \<and> lib s' = lib s"
proof -
  have "p \<noteq> 0" using heap_ok_null [OF assms(1)] assms(2) by (cases "p = 0") simp_all
  moreover note f = free_Some [OF assms(2)]
  ultimately show ?thesis using free_heap_ok [OF f assms(1)] by (simp add: spicedb_free_def f)
qed

lemma spicedb_free_bytes_eq: "spicedb_free_bytes = spicedb_free"
  by (intro ext) (simp add: spicedb_free_bytes_def spicedb_free_def)

lemma go_bytes_all: "length bs < 2 ^ 31 \<Longrightarrow> go_bytes bs (of_nat (length bs)) = Some bs"
  by (simp add: go_bytes_def sint_of_nat_small)

lemma go_rpc_unsupported:
  "map_of rpc_messages (c_text m) = None \<Longrightarrow>
   go_rpc P h m tp ts req l = (Inl (''unsupported method: '' @ c_text m), l)"
  by (simp add: go_rpc_def)

interpretation go: c_library "go_ffi P esc" "go_start P" "go_dispose P" "go_rpc P" golib_ok for P esc
proof unfold_locales
  fix s :: "'b golib process" and opts
  assume ok: "heap_ok (mem s)" "golib_ok (lib s)"
  obtain t l where t: "go_start P opts (lib s) = Some (t, l)" using go_start_outcome by blast
  obtain p s' where e: "export_text t (s\<lparr>lib := l\<rparr>) = (p, s')" by fastforce
  from ok(1) have "heap_ok (mem (s\<lparr>lib := l\<rparr>))" by simp
  from export_text_law [OF this e] t e go_start_ok [OF ok(2) t]
  show "\<exists>t l p s'. go_start P opts (lib s) = Some (t, l)
      \<and> ffi_start (go_ffi P esc) opts s = Some (p, s')
      \<and> returns_text t (mem s) p (mem s') \<and> lib s' = l \<and> golib_ok l"
    by (simp add: go_ffi_def spicedb_start_def)
next
  fix s :: "'b golib process" and h
  assume ok: "heap_ok (mem s)" "golib_ok (lib s)"
  obtain t l where t: "go_dispose P h (lib s) = Some (t, l)" "golib_ok l"
    using go_dispose_ok [OF ok(2)] by blast
  obtain p s' where e: "export_text t (s\<lparr>lib := l\<rparr>) = (p, s')" by fastforce
  from ok(1) have "heap_ok (mem (s\<lparr>lib := l\<rparr>))" by simp
  from export_text_law [OF this e] t e
  show "\<exists>t l p s'. go_dispose P h (lib s) = Some (t, l)
      \<and> ffi_dispose (go_ffi P esc) h s = Some (p, s')
      \<and> returns_text t (mem s) p (mem s') \<and> lib s' = l \<and> golib_ok l"
    by (simp add: go_ffi_def spicedb_dispose_def)
next
  fix s :: "'b golib process" and m tp ts req h out0
  assume ok: "heap_ok (mem s)" "golib_ok (lib s)" and len: "length (req :: bytes) < 2 ^ 31"
  obtain r l where r: "go_rpc P h m tp ts req (lib s) = (r, l)" by fastforce
  obtain out s' where o: "set_out r (s\<lparr>lib := l\<rparr>) = (out, s')" by fastforce
  have call: "spicedb_rpc P h m tp ts req (of_nat (length req)) out0 s = Some (out, s')"
  proof (cases "map_of rpc_messages (c_text m) = None")
    case True
    with r have "r = Inl (''unsupported method: '' @ c_text m)" "l = lib s"
      by (simp_all add: go_rpc_unsupported)
    with o True show ?thesis by (simp add: spicedb_rpc_def)
  next
    case False
    then obtain ty where "map_of rpc_messages (c_text m) = Some ty" by auto
    with r o len show ?thesis by (simp add: spicedb_rpc_def go_bytes_all)
  qed
  from ok(1) have "heap_ok (mem (s\<lparr>lib := l\<rparr>))" by simp
  from set_out_law [OF this o] r call ok(2) go_rpc_frame [OF r]
  show "\<exists>out s'. ffi_rpc (go_ffi P esc) h m tp ts req (of_nat (length req)) out0 s = Some (out, s')
      \<and> delivers (fst (go_rpc P h m tp ts req (lib s))) (mem s) out (mem s')
      \<and> lib s' = snd (go_rpc P h m tp ts req (lib s)) \<and> golib_ok (lib s')"
    by (auto simp: go_ffi_def golib_ok_def)
qed (simp_all add: go_ffi_def free_law_go spicedb_free_bytes_eq)

end
