(* ===== verification/Interleaving.thy ===== *)
theory Interleaving
  imports Main
begin

text \<open>
  Calls that run side by side on a shared state.  A call is a sequence of atomic parts, a machine
  holds the requests made so far, the call each has become, the shared state, and a log of what the
  parts did to it.  A schedule lets any request be made that is allowed, and any unfinished call take
  its next part.  The locale \<open>call_system\<close> asks for an invariant that requests and parts keep, parts
  that are always possible, and a bound on the parts of a call; it gives that every call finishes.
\<close>

record ('r, 'c, 's, 'e) machine =
  requests :: "'r list"
  calls :: "'c list"
  shared :: 's
  log :: "(nat \<times> 'e) list"

type_synonym ('c, 's, 'e) part = "'c \<Rightarrow> 's \<Rightarrow> ('c \<times> 's \<times> 'e list) option"

definition make :: "('r \<Rightarrow> 'c) \<Rightarrow> 'r \<Rightarrow> ('r, 'c, 's, 'e) machine \<Rightarrow> ('r, 'c, 's, 'e) machine" where
  "make entry r m = m\<lparr>requests := requests m @ [r], calls := calls m @ [entry r]\<rparr>"

definition turn :: "('c, 's, 'e) part \<Rightarrow> nat \<Rightarrow> ('r, 'c, 's, 'e) machine \<Rightarrow> ('r, 'c, 's, 'e) machine option" where
  "turn adv k m =
     (if k < length (calls m) then
        map_option (\<lambda>(c, s, es). m\<lparr>calls := (calls m)[k := c], shared := s, log := log m @ map (Pair k) es\<rparr>)
          (adv (calls m ! k) (shared m))
      else None)"

lemma turn_Some:
  assumes "turn adv k m = Some m'"
  obtains c s es where "k < length (calls m)" and "adv (calls m ! k) (shared m) = Some (c, s, es)"
    and "m' = m\<lparr>calls := (calls m)[k := c], shared := s, log := log m @ map (Pair k) es\<rparr>"
  using assms by (auto simp: turn_def split: if_splits)

text \<open>The third argument counts the turns.\<close>

inductive schedule ::
    "('r \<Rightarrow> 'c) \<Rightarrow> ('c, 's, 'e) part \<Rightarrow> (('r, 'c, 's, 'e) machine \<Rightarrow> 'r \<Rightarrow> bool) \<Rightarrow>
     ('r, 'c, 's, 'e) machine \<Rightarrow> nat \<Rightarrow> ('r, 'c, 's, 'e) machine \<Rightarrow> bool"
  for entry adv may m where
  no_step: "schedule entry adv may m 0 m"
| request: "schedule entry adv may m n m' \<Longrightarrow> may m' r \<Longrightarrow> schedule entry adv may m n (make entry r m')"
| part: "schedule entry adv may m n m' \<Longrightarrow> turn adv k m' = Some m'' \<Longrightarrow> schedule entry adv may m (Suc n) m''"

definition idle :: "('r, 'c, 's, 'e) machine \<Rightarrow> bool" where
  "idle m \<longleftrightarrow> requests m = [] \<and> calls m = [] \<and> log m = []"

text \<open>The log entries of one call.\<close>

definition events_of :: "nat \<Rightarrow> (nat \<times> 'e) list \<Rightarrow> 'e list" where
  "events_of k es = map snd (filter (\<lambda>e. fst e = k) es)"

lemma events_of_simps [simp]:
  "events_of k [] = []" "events_of k (xs @ ys) = events_of k xs @ events_of k ys"
  "events_of k (map (Pair j) es) = (if j = k then es else [])"
  by (auto simp: events_of_def filter_map comp_def)

definition work :: "('c \<Rightarrow> nat) \<Rightarrow> ('r, 'c, 's, 'e) machine \<Rightarrow> nat" where
  "work left m = sum_list (map left (calls m))"

locale call_system =
  fixes entry :: "'r \<Rightarrow> 'c"
    and adv :: "('c, 's, 'e) part"
    and may :: "('r, 'c, 's, 'e) machine \<Rightarrow> 'r \<Rightarrow> bool"
    and left :: "'c \<Rightarrow> nat"
    and inv :: "('r, 'c, 's, 'e) machine \<Rightarrow> bool"
  assumes request_inv: "inv m \<Longrightarrow> may m r \<Longrightarrow> inv (make entry r m)"
    and part_inv: "inv m \<Longrightarrow> turn adv k m = Some m' \<Longrightarrow> inv m'"
    and can_go_on: "inv m \<Longrightarrow> c \<in> set (calls m) \<Longrightarrow> left c \<noteq> 0 \<Longrightarrow> adv c (shared m) \<noteq> None"
    and fewer_left: "adv c s = Some (c', s', es) \<Longrightarrow> left c' < left c"
begin

lemma schedule_inv: "schedule entry adv may m n m' \<Longrightarrow> inv m \<Longrightarrow> inv m'"
  by (induction rule: schedule.induct) (auto intro: request_inv part_inv)

text \<open>A turn uses some of what the calls have left.\<close>

lemma work_turn:
  assumes "turn adv k m = Some m'"
  shows "work left m' < work left m"
proof -
  from assms obtain c s es where k: "k < length (calls m)" and a: "adv (calls m ! k) (shared m) = Some (c, s, es)"
    and m': "calls m' = (calls m)[k := c]" by (auto elim: turn_Some)
  have "sum_list (map left (calls m)) = sum_list (map left (take k (calls m)))
      + left (calls m ! k) + sum_list (map left (drop (Suc k) (calls m)))"
    by (subst id_take_nth_drop [OF k]) simp
  moreover have "work left m' = sum_list (map left (take k (calls m))) + left c
      + sum_list (map left (drop (Suc k) (calls m)))"
    using k by (simp add: work_def m' upd_conv_take_nth_drop)
  ultimately show ?thesis using fewer_left [OF a] by (simp add: work_def)
qed

lemma schedule_bound:
  assumes "schedule entry adv may m n m'" and "idle m" and "\<And>r. left (entry r) \<le> b"
  shows "n + work left m' \<le> b * length (requests m') \<and> length (calls m') = length (requests m')"
  using assms(1)
proof induction
  case no_step
  from assms(2) show ?case by (simp add: idle_def work_def)
next
  case (request n m' r)
  then have "n + work left m' + left (entry r) \<le> b * length (requests m') + b"
    using assms(3) by (intro add_mono) simp_all
  with request.IH show ?case by (simp add: make_def work_def)
next
  case (part n m' k m'')
  from part.hyps(2) have "requests m'' = requests m'" "length (calls m'') = length (calls m')"
    by (auto elim: turn_Some)
  with work_turn [OF part.hyps(2)] part.IH show ?case by simp
qed

text \<open>Left alone, the calls in progress finish.\<close>

lemma all_finish:
  assumes "inv m"
  shows "\<exists>n m'. schedule entry adv may m n m' \<and> requests m' = requests m \<and> (\<forall>c \<in> set (calls m'). left c = 0)"
  using assms
proof (induction "work left m" arbitrary: m rule: less_induct)
  case less
  show ?case
  proof (cases "\<forall>c \<in> set (calls m). left c = 0")
    case True
    then show ?thesis by (blast intro: schedule.no_step)
  next
    case False
    then obtain k where k: "k < length (calls m)" "left (calls m ! k) \<noteq> 0" by (auto simp: in_set_conv_nth)
    with can_go_on [OF less.prems, of "calls m ! k"] obtain m1 where t: "turn adv k m = Some m1"
      by (auto simp: turn_def)
    from less.hyps [OF work_turn [OF t] part_inv [OF less.prems t]] obtain n m' where
      s: "schedule entry adv may m1 n m'" "requests m' = requests m1" "\<forall>c \<in> set (calls m'). left c = 0" by blast
    have one: "schedule entry adv may m (Suc 0) m1" by (rule schedule.part [OF schedule.no_step t])
    have "schedule entry adv may m (Suc 0 + n) m'" using s(1)
      by induction (use one in \<open>auto intro: schedule.intros\<close>)
    moreover from t have "requests m1 = requests m" by (auto elim: turn_Some)
    ultimately show ?thesis using s by auto
  qed
qed

end

end
