(* ===== verification/Concurrent.thy ===== *)
theory Concurrent
  imports Go_Library Interleaving
begin

text \<open>
  The exported functions of the library called from several threads.  Each is split where it touches
  what the calls share: \<open>nextID\<close> (an atomic add), the table (\<open>instanceMu\<close>) and the global tracer
  provider of OpenTelemetry, which has no lock around reading and replacing it.  What the packages
  do between two such points is one part.
\<close>

section \<open>Calls and their parts\<close>

datatype request =
  StartReq "string option"
| DisposeReq u64
| RpcReq u64 string "string option" "string option" bytes

datatype answer = Text string | Reply "string + bytes"

datatype activation =
  StartCall "string option"
| CreateServer go_options u64 instance_rec
| MakeTracer go_options u64 instance_rec
| InstallTracer go_options u64 instance_rec obj obj
| MetricsServer go_options u64 instance_rec
| Serve u64 instance_rec
| Publish u64 instance_rec
| DisposeCall u64
| Teardown u64 instance_rec
| Cleanup u64 instance_rec
| RpcCall u64 string "string option" "string option" bytes
| Invoke u64 "(string \<times> string) list" string string bytes instance_rec
| Answered answer

text \<open>What a part does to the table, each under the lock.\<close>

datatype event =
  Inserted u64 instance_rec
| Removed u64 "instance_rec option"
| Looked u64 "instance_rec option"

fun entry :: "request \<Rightarrow> activation" where
  "entry (StartReq options_json) = StartCall options_json"
| "entry (DisposeReq h) = DisposeCall h"
| "entry (RpcReq h method tp ts req) = RpcCall h method tp ts req"

text \<open>\<open>start_serving\<close> up to the lock: the instance to publish, or the error.\<close>

definition serve_instance ::
    "('m, 'w) packages \<Rightarrow> instance_rec \<Rightarrow> u64 \<Rightarrow> 'w golib \<Rightarrow> ((string + instance_rec) \<times> 'w golib) option" where
  "serve_instance P i0 iid l0 =
     (let i = i0\<lparr>wg := [RunServer]\<rparr>;
          l = on_world (run_server P (server i) (cancel i)) l0;
          fail = (\<lambda>msg l'. do {
            l'' \<leftarrow> wg_wait True False i (on_world (cancel_context P (cancel i)) l');
            Some (Inl msg, cleanup_observability P i l'') })
      in case try_world (new_client P (server i)) l of
           (Inl e, l1) \<Rightarrow> fail (''failed to create in-memory client: '' @ e) l1
         | (Inr conn, l1) \<Rightarrow>
             (case start_streaming_proxy P (i\<lparr>client_conn := Some conn\<rparr>) conn iid l1 of
                (Inl e, l2) \<Rightarrow> fail (''failed to start streaming proxy: '' @ e) l2
              | (Inr i', l2) \<Rightarrow> Some (Inr i', l2)))"

definition start_answer :: "('m, 'w) packages \<Rightarrow> u64 \<Rightarrow> instance_rec \<Rightarrow> string" where
  "start_answer P iid i =
     make_success (Some (start_data iid (streaming_addr i) (if is_windows P then ''tcp'' else ''unix'')))"

text \<open>The parts of \<open>spicedb_start\<close>.\<close>

definition begin_start ::
    "string option \<Rightarrow> 'w golib \<Rightarrow> activation \<times> 'w golib" where
  "begin_start options_json l =
     (let opts = parse_start_options options_json
      in if remote_engine (go_engine opts) \<and> DatastoreURI opts = []
         then (Answered (Text (make_error (''datastore_uri is required for '' @ go_engine opts @ '' datastore''))), l)
         else (CreateServer opts (next_id l + 1) (blank_instance (next_ctx l)),
               l\<lparr>next_ctx := Suc (next_ctx l), next_id := next_id l + 1\<rparr>))"

definition create_server ::
    "('m, 'w) packages \<Rightarrow> go_options \<Rightarrow> u64 \<Rightarrow> instance_rec \<Rightarrow> 'w golib \<Rightarrow> activation \<times> 'w golib" where
  "create_server P opts iid i l =
     (let failed = (\<lambda>msg l'. (Answered (Text (make_error msg)), on_world (cancel_context P (cancel i)) l'))
      in case try_world (new_datastore P (datastore_options opts)) l of
           (Inl e, l1) \<Rightarrow> failed (''failed to create datastore: '' @ e) l1
         | (Inr ds, l1) \<Rightarrow>
             (case try_world (new_server P ds
                      (MetricsEnabled opts \<and> bool_ptr_or_default (CacheMetricsEnabled opts) True)) l1 of
                (Inl e, l2) \<Rightarrow> failed (''failed to create server: '' @ e) l2
              | (Inr srv, l2) \<Rightarrow>
                  ((if MetricsEnabled opts \<and> OTLPEndpoint opts \<noteq> [] then MakeTracer else MetricsServer)
                     opts iid (i\<lparr>server := srv\<rparr>), l2)))"

text \<open>\<open>setupOTelTracing\<close> up to \<open>otel.GetTracerProvider\<close>.\<close>

definition make_tracer ::
    "('m, 'w) packages \<Rightarrow> go_options \<Rightarrow> u64 \<Rightarrow> instance_rec \<Rightarrow> 'w golib \<Rightarrow> activation \<times> 'w golib" where
  "make_tracer P opts iid i l =
     (case try_world (new_tracer P (OTLPEndpoint opts)
             (if OTLPServiceName opts = [] then ''spicedb'' else OTLPServiceName opts)) l of
        (Inl e, l1) \<Rightarrow> (Answered (Text (make_error (''failed to configure OTLP tracing: '' @ e))),
                        on_world (cancel_context P (cancel i)) l1)
      | (Inr tp, l1) \<Rightarrow> (InstallTracer opts iid i (global_tracer l1) tp, l1))"

definition metrics_part ::
    "('m, 'w) packages \<Rightarrow> go_options \<Rightarrow> u64 \<Rightarrow> instance_rec \<Rightarrow> 'w golib \<Rightarrow> activation \<times> 'w golib" where
  "metrics_part P opts iid i l =
     (case with_metrics_server P opts i l of
        (Inl msg, l1) \<Rightarrow> (Answered (Text (make_error msg)), l1)
      | (Inr i', l1) \<Rightarrow> (Serve iid i', l1))"

definition serve_part ::
    "('m, 'w) packages \<Rightarrow> u64 \<Rightarrow> instance_rec \<Rightarrow> 'w golib \<Rightarrow> (activation \<times> 'w golib) option" where
  "serve_part P iid i l =
     map_option (\<lambda>(r, l'). (case r of Inl msg \<Rightarrow> Answered (Text (make_error msg)) | Inr i' \<Rightarrow> Publish iid i', l'))
       (serve_instance P i iid l)"

text \<open>The parts of \<open>spicedb_dispose\<close> after the instance has been taken out.\<close>

definition teardown_part ::
    "('m, 'w) packages \<Rightarrow> u64 \<Rightarrow> instance_rec \<Rightarrow> 'w golib \<Rightarrow> (activation \<times> 'w golib) option" where
  "teardown_part P h i l =
     map_option (\<lambda>l1. (Cleanup h i, l1)) (wg_wait True (streaming_server i \<noteq> None) i (stop_serving P i l))"

definition cleanup_part ::
    "('m, 'w) packages \<Rightarrow> instance_rec \<Rightarrow> 'w golib \<Rightarrow> activation \<times> 'w golib" where
  "cleanup_part P i l =
     (let l2 = cleanup_observability P i l
      in (Answered (Text (make_success None)),
          if streaming_addr i \<noteq> [] \<and> \<not> is_windows P then on_world (remove_file P (streaming_addr i)) l2 else l2))"

text \<open>The parts of \<open>spicedb_rpc\<close>: the method and the table, then the call on the instance found.\<close>

definition lookup_part :: "u64 \<Rightarrow> string \<Rightarrow> string option \<Rightarrow> string option \<Rightarrow> bytes \<Rightarrow> 'w golib \<Rightarrow>
    activation \<times> event list" where
  "lookup_part h method tp ts req l =
     (case map_of rpc_messages (c_text method) of
        None \<Rightarrow> (Answered (Reply (Inl (''unsupported method: '' @ c_text method))), [])
      | Some (req_type, resp_type) \<Rightarrow>
          ((case instances l h of
              None \<Rightarrow> Answered (Reply (Inl (invalid_handle h)))
            | Some i \<Rightarrow> Invoke h (trace_metadata (go_string tp) (go_string ts)) (c_text method) req_type req i),
           [Looked h (instances l h)]))"

definition invoke_part ::
    "('m, 'w) packages \<Rightarrow> (string \<times> string) list \<Rightarrow> string \<Rightarrow> string \<Rightarrow> bytes \<Rightarrow> instance_rec \<Rightarrow> 'w golib \<Rightarrow>
     (string + bytes) \<times> 'w golib" where
  "invoke_part P parent method req_type req_bytes i l =
     (case client_conn i of
        None \<Rightarrow> (Inl ''instance not available for FFI RPCs'', l)
      | Some conn \<Rightarrow>
          (case unmarshal P req_type req_bytes of
             Inl e \<Rightarrow> (Inl e, l)
           | Inr req \<Rightarrow>
               (case try_world (invoke P parent method conn req) l of
                  (Inl e, l1) \<Rightarrow> (Inl e, l1)
                | (Inr resp, l1) \<Rightarrow>
                    (map_err (\<lambda>e. ''failed to marshal response: '' @ e) (marshal P resp), l1))))"

text \<open>The next part of a call.\<close>

definition quiet :: "activation \<times> 'w golib \<Rightarrow> (activation \<times> 'w golib \<times> event list) option" where
  "quiet r = Some (fst r, snd r, [])"

fun advance :: "('m, 'w) packages \<Rightarrow> (activation, 'w golib, event) part" where
  "advance P (StartCall options_json) l = quiet (begin_start options_json l)"
| "advance P (CreateServer opts iid i) l = quiet (create_server P opts iid i l)"
| "advance P (MakeTracer opts iid i) l = quiet (make_tracer P opts iid i l)"
| "advance P (InstallTracer opts iid i prev tp) l =
     quiet (MetricsServer opts iid (i\<lparr>tracer_provider := Some tp, prev_tracer_provider := prev\<rparr>),
            l\<lparr>global_tracer := tp\<rparr>)"
| "advance P (MetricsServer opts iid i) l = quiet (metrics_part P opts iid i l)"
| "advance P (Serve iid i) l = Option.bind (serve_part P iid i l) quiet"
| "advance P (Publish iid i) l =
     Some (Answered (Text (start_answer P iid i)), l\<lparr>instances := (instances l)(iid \<mapsto> i)\<rparr>, [Inserted iid i])"
| "advance P (DisposeCall h) l =
     (case instances l h of
        None \<Rightarrow> Some (Answered (Text (make_error (invalid_handle h))), l, [Removed h None])
      | Some i \<Rightarrow> Some (Teardown h i, l\<lparr>instances := (instances l)(h := None)\<rparr>, [Removed h (Some i)]))"
| "advance P (Teardown h i) l = Option.bind (teardown_part P h i l) quiet"
| "advance P (Cleanup h i) l = quiet (cleanup_part P i l)"
| "advance P (RpcCall h method tp ts req) l =
     (case lookup_part h method tp ts req l of (c, es) \<Rightarrow> Some (c, l, es))"
| "advance P (Invoke h parent method req_type req i) l =
     (case invoke_part P parent method req_type req i l of (r, l') \<Rightarrow> Some (Answered (Reply r), l', []))"
| "advance P (Answered a) l = None"

text \<open>How many parts a call has left at most.\<close>

fun parts_left :: "activation \<Rightarrow> nat" where
  "parts_left (StartCall _) = 7"
| "parts_left (CreateServer _ _ _) = 6"
| "parts_left (MakeTracer _ _ _) = 5"
| "parts_left (InstallTracer _ _ _ _ _) = 4"
| "parts_left (MetricsServer _ _ _) = 3"
| "parts_left (Serve _ _) = 2"
| "parts_left (Publish _ _) = 1"
| "parts_left (DisposeCall _) = 3"
| "parts_left (Teardown _ _) = 2"
| "parts_left (Cleanup _ _) = 1"
| "parts_left (RpcCall _ _ _ _ _) = 2"
| "parts_left (Invoke _ _ _ _ _ _) = 1"
| "parts_left (Answered _) = 0"

text \<open>A call run without interruption, at most so many parts.\<close>

fun run_alone :: "('m, 'w) packages \<Rightarrow> nat \<Rightarrow> activation \<Rightarrow> 'w golib \<Rightarrow> (answer \<times> 'w golib) option" where
  "run_alone P n (Answered a) l = Some (a, l)"
| "run_alone P 0 c l = None"
| "run_alone P (Suc n) c l = do { (c', l', es) \<leftarrow> advance P c l; run_alone P n c' l' }"

end
