(* ===== verification/Linearizable.thy ===== *)
theory Linearizable
  imports Concurrent
begin

text \<open>
  What the parts of \<open>Concurrent\<close> amount to.  Run without interruption a call is the exported function
  of \<open>Go_Library\<close>.  Interleaved with others it keeps an invariant: ids are given out once, the log is a
  history of the table, every answer is explained by its entry in the log, no part has to wait for
  ever.  The theory ends with the interpretation of \<open>call_system\<close> on the library.
\<close>

section \<open>A call alone is the exported function\<close>

abbreviation (input) as_text :: "(string \<times> 'w golib) option \<Rightarrow> (answer \<times> 'w golib) option" where
  "as_text r \<equiv> map_option (\<lambda>(t, l'). (Text t, l')) r"

lemma quiet_run:
  "quiet r = Some (c, l, es) \<longleftrightarrow> r = (c, l) \<and> es = []"
  by (cases r) (auto simp: quiet_def)

lemma run_alone_Answered [simp]: "run_alone P n (Answered a) l = Some (a, l)"
  by (cases n) simp_all

lemma run_alone_quiet:
  "advance P c l = quiet r \<Longrightarrow> (\<And>a. c \<noteq> Answered a) \<Longrightarrow> run_alone P (Suc n) c l = run_alone P n (fst r) (snd r)"
  by (cases c) (simp_all add: quiet_def)

lemma alone_serve: "run_alone P (Suc (Suc n)) (Serve iid i) l = as_text (start_serving P i iid l)"
proof -
  have s: "start_serving P i iid l = (case serve_instance P i iid l of
      None \<Rightarrow> None
    | Some (Inl msg, l') \<Rightarrow> Some (make_error msg, l')
    | Some (Inr j, l') \<Rightarrow> Some (start_answer P iid j, l'\<lparr>instances := (instances l')(iid \<mapsto> j)\<rparr>))"
    by (simp add: start_serving_def serve_instance_def start_answer_def Let_def
        split: prod.split sum.split option.split Option.bind_split del: append_Cons append_Nil)
  show ?thesis
    by (simp add: s serve_part_def quiet_def split: option.split prod.split sum.split)
qed

lemma alone_metrics: "run_alone P (Suc (Suc (Suc n))) (MetricsServer opts iid i) l =
    (case with_metrics_server P opts i l of (Inl msg, l1) \<Rightarrow> Some (Text (make_error msg), l1)
     | (Inr j, l1) \<Rightarrow> as_text (start_serving P j iid l1))"
proof (cases "with_metrics_server P opts i l")
  case (Pair r l1)
  have "run_alone P (Suc (Suc (Suc n))) (MetricsServer opts iid i) l
      = run_alone P (Suc (Suc n)) (fst (metrics_part P opts iid i l)) (snd (metrics_part P opts iid i l))"
    by (rule run_alone_quiet) simp_all
  with Pair show ?thesis
    by (cases r) (simp_all add: metrics_part_def alone_serve del: run_alone.simps)
qed

lemma alone_observability:
  "run_alone P (Suc (Suc (Suc (Suc (Suc n))))) ((if MetricsEnabled opts \<and> OTLPEndpoint opts \<noteq> []
      then MakeTracer else MetricsServer) opts iid i) l =
    (case start_observability P opts i l of (Inl msg, l1) \<Rightarrow> Some (Text (make_error msg), l1)
     | (Inr j, l1) \<Rightarrow> as_text (start_serving P j iid l1))"
proof (cases "MetricsEnabled opts \<and> OTLPEndpoint opts \<noteq> []")
  case False
  show ?thesis unfolding start_observability_def if_not_P [OF False] by (rule alone_metrics)
next
  case True
  obtain r l1 where r: "try_world (new_tracer P (OTLPEndpoint opts)
      (if OTLPServiceName opts = [] then ''spicedb'' else OTLPServiceName opts)) l = (r, l1)" by fastforce
  have make: "run_alone P (Suc (Suc (Suc (Suc (Suc n))))) (MakeTracer opts iid i) l
      = run_alone P (Suc (Suc (Suc (Suc n)))) (fst (make_tracer P opts iid i l)) (snd (make_tracer P opts iid i l))"
    by (rule run_alone_quiet) simp_all
  show ?thesis
  proof (cases r)
    case (Inl e)
    with True r make show ?thesis
      by (simp add: start_observability_def setup_otel_tracing_def make_tracer_def del: run_alone.simps append_Cons append_Nil)
  next
    case (Inr tp)
    have "run_alone P (Suc (Suc (Suc (Suc n)))) (InstallTracer opts iid i prev tp) k
        = run_alone P (Suc (Suc (Suc n))) (MetricsServer opts iid
            (i\<lparr>tracer_provider := Some tp, prev_tracer_provider := prev\<rparr>)) (k\<lparr>global_tracer := tp\<rparr>)" for prev k
      by (subst run_alone_quiet [where r = "(MetricsServer opts iid
            (i\<lparr>tracer_provider := Some tp, prev_tracer_provider := prev\<rparr>), k\<lparr>global_tracer := tp\<rparr>)"]) simp_all
    with True r make Inr show ?thesis
      by (simp add: start_observability_def setup_otel_tracing_def make_tracer_def alone_metrics del: run_alone.simps)
  qed
qed

lemma alone_start: "run_alone P (Suc (Suc (Suc (Suc (Suc (Suc (Suc n))))))) (StartCall opts) l = as_text (go_start P opts l)"
proof -
  let ?o = "parse_start_options opts"
  let ?n = "Suc (Suc (Suc (Suc (Suc n))))"
  have first: "run_alone P (Suc (Suc ?n)) (StartCall opts) l
      = run_alone P (Suc ?n) (fst (begin_start opts l)) (snd (begin_start opts l))"
    by (rule run_alone_quiet) simp_all
  have create: "run_alone P (Suc ?n) (CreateServer ?o iid i) k
      = run_alone P ?n (fst (create_server P ?o iid i k)) (snd (create_server P ?o iid i k))" for iid i k
    by (rule run_alone_quiet) simp_all
  let ?l = "l\<lparr>next_ctx := Suc (next_ctx l), next_id := next_id l + 1\<rparr>"
  obtain d l1 where d: "try_world (new_datastore P (datastore_options ?o)) ?l = (d, l1)" by fastforce
  obtain v l2 where v: "try_world (new_server P (projr d)
      (MetricsEnabled ?o \<and> bool_ptr_or_default (CacheMetricsEnabled ?o) True)) l1 = (v, l2)" by fastforce
  show ?thesis
  proof (cases "remote_engine (go_engine ?o) \<and> DatastoreURI ?o = []")
    case True
    then show ?thesis unfolding first
      by (simp add: begin_start_def go_start_def Let_def del: append_Cons append_Nil)
  next
    case ok: False
    then have "begin_start opts l = (CreateServer ?o (next_id l + 1) (blank_instance (next_ctx l)), ?l)"
      by (auto simp: begin_start_def Let_def)
    then have c: "run_alone P (Suc (Suc ?n)) (StartCall opts) l
        = run_alone P ?n (fst (create_server P ?o (next_id l + 1) (blank_instance (next_ctx l)) ?l))
            (snd (create_server P ?o (next_id l + 1) (blank_instance (next_ctx l)) ?l))"
      using first create by simp
    show ?thesis
    proof (cases d)
      case (Inl e)
      with ok d show ?thesis unfolding c
        by (auto simp: create_server_def go_start_def Let_def blank_instance_def simp del: append_Cons append_Nil)
    next
      case ds: (Inr x)
      show ?thesis
      proof (cases v)
        case (Inl e)
        with ok d ds v show ?thesis unfolding c
          by (auto simp: create_server_def go_start_def Let_def blank_instance_def simp del: append_Cons append_Nil)
      next
        case (Inr y)
        let ?i = "blank_instance (next_ctx l)\<lparr>server := y\<rparr>"
        from d ds v Inr have "create_server P ?o (next_id l + 1) (blank_instance (next_ctx l)) ?l
            = ((if MetricsEnabled ?o \<and> OTLPEndpoint ?o \<noteq> [] then MakeTracer else MetricsServer) ?o (next_id l + 1) ?i, l2)"
          by (simp add: create_server_def)
        then have "run_alone P (Suc (Suc ?n)) (StartCall opts) l
            = (case start_observability P ?o ?i l2 of (Inl msg, l1) \<Rightarrow> Some (Text (make_error msg), l1)
               | (Inr j, l1) \<Rightarrow> as_text (start_serving P j (next_id l + 1) l1))"
          unfolding c by (simp only: fst_conv snd_conv alone_observability)
        with ok d ds v Inr show ?thesis
          by (auto simp: go_start_def Let_def split: prod.split sum.split)
      qed
    qed
  qed
qed

lemma alone_dispose: "run_alone P (Suc (Suc (Suc n))) (DisposeCall h) l = as_text (go_dispose P h l)"
proof (cases "instances l h")
  case None
  then show ?thesis by (simp add: go_dispose_def)
next
  case (Some i)
  then show ?thesis
    by (simp add: go_dispose_def teardown_part_def cleanup_part_def quiet_def Let_def wg_wait_def)
qed

lemma alone_rpc: "run_alone P (Suc (Suc n)) (RpcCall h m tp ts req) l
    = (case go_rpc P h m tp ts req l of (r, l') \<Rightarrow> Some (Reply r, l'))"
proof (cases "map_of rpc_messages (c_text m)")
  case None
  then show ?thesis by (simp add: go_rpc_def lookup_part_def)
next
  case (Some ty)
  then show ?thesis
    by (cases ty; cases "instances l h")
      (simp_all add: go_rpc_def lookup_part_def run_rpc_def invoke_part_def split: prod.split)
qed

section \<open>Histories of the table\<close>

text \<open>Whether a sequence of events is one of a table used by one caller at a time, and its final table.\<close>

type_synonym table = "u64 \<rightharpoonup> instance_rec"

fun replay :: "event list \<Rightarrow> table \<Rightarrow> table option" where
  "replay [] T = Some T"
| "replay (Inserted h i # es) T = (if T h = None then replay es (T(h \<mapsto> i)) else None)"
| "replay (Removed h r # es) T = (if r = T h then replay es (T(h := None)) else None)"
| "replay (Looked h r # es) T = (if r = T h then replay es T else None)"

lemma replay_append: "replay (es @ fs) T = Option.bind (replay es T) (replay fs)"
proof (induction es arbitrary: T)
  case (Cons e es)
  then show ?case by (cases e) (simp_all del: fun_upd_apply)
qed simp

text \<open>The phases of a start before it is answered.\<close>

fun starting :: "activation \<Rightarrow> bool" where
  "starting (StartCall _) \<longleftrightarrow> True"
| "starting (CreateServer _ _ _) \<longleftrightarrow> True"
| "starting (MakeTracer _ _ _) \<longleftrightarrow> True"
| "starting (InstallTracer _ _ _ _ _) \<longleftrightarrow> True"
| "starting (MetricsServer _ _ _) \<longleftrightarrow> True"
| "starting (Serve _ _) \<longleftrightarrow> True"
| "starting (Publish _ _) \<longleftrightarrow> True"
| "starting _ \<longleftrightarrow> False"

text \<open>What the answer of a call has to be by its event, and what a call in progress has logged.\<close>

fun explains :: "('m, 'w) packages \<Rightarrow> request \<Rightarrow> activation \<Rightarrow> event list \<Rightarrow> bool" where
  "explains P (StartReq _) (Answered (Text t)) es \<longleftrightarrow>
     es = [] \<and> (\<exists>msg. t = make_error msg) \<or> (\<exists>h i. es = [Inserted h i] \<and> t = start_answer P h i)"
| "explains P (StartReq _) c es \<longleftrightarrow> es = [] \<and> starting c"
| "explains P (DisposeReq h) (DisposeCall h') es \<longleftrightarrow> h' = h \<and> es = []"
| "explains P (DisposeReq h) (Teardown h' i) es \<longleftrightarrow> h' = h \<and> es = [Removed h (Some i)]"
| "explains P (DisposeReq h) (Cleanup h' i) es \<longleftrightarrow> h' = h \<and> es = [Removed h (Some i)]"
| "explains P (DisposeReq h) (Answered (Text t)) es \<longleftrightarrow>
     (\<exists>r. es = [Removed h r]
        \<and> t = (case r of None \<Rightarrow> make_error (invalid_handle h) | Some _ \<Rightarrow> make_success None))"
| "explains P (DisposeReq h) _ es \<longleftrightarrow> False"
| "explains P (RpcReq h m tp ts req) (RpcCall h' m' tp' ts' req') es \<longleftrightarrow>
     (h', m', tp', ts', req') = (h, m, tp, ts, req) \<and> es = []"
| "explains P (RpcReq h m tp ts req) (Invoke h' md name ty req' i) es \<longleftrightarrow>
     es = [Looked h (Some i)] \<and> h' = h \<and> name = c_text m \<and> req' = req
       \<and> md = trace_metadata (go_string tp) (go_string ts) \<and> map_option fst (map_of rpc_messages name) = Some ty"
| "explains P (RpcReq h m tp ts req) (Answered (Reply r)) es \<longleftrightarrow>
     es = [] \<and> map_of rpc_messages (c_text m) = None \<and> r = Inl (''unsupported method: '' @ c_text m)
   \<or> es = [Looked h None] \<and> r = Inl (invalid_handle h)
   \<or> (\<exists>i ty l. es = [Looked h (Some i)] \<and> map_option fst (map_of rpc_messages (c_text m)) = Some ty
        \<and> r = fst (invoke_part P (trace_metadata (go_string tp) (go_string ts)) (c_text m) ty req i l))"
| "explains P (RpcReq _ _ _ _ _) _ es \<longleftrightarrow> False"


text \<open>The ids a start in progress holds, a dispose in progress takes down, and the log speaks of.\<close>

fun start_id :: "activation \<Rightarrow> u64 list" where
  "start_id (CreateServer _ h _) = [h]"
| "start_id (MakeTracer _ h _) = [h]"
| "start_id (InstallTracer _ h _ _ _) = [h]"
| "start_id (MetricsServer _ h _) = [h]"
| "start_id (Serve h _) = [h]"
| "start_id (Publish h _) = [h]"
| "start_id _ = []"

fun taken_down :: "activation \<Rightarrow> u64 list" where
  "taken_down (Teardown h _) = [h]"
| "taken_down (Cleanup h _) = [h]"
| "taken_down _ = []"

fun pending :: "activation \<Rightarrow> unit list" where
  "pending (StartCall _) = [()]"
| "pending _ = []"

fun inserted_id :: "event \<Rightarrow> u64 list" where
  "inserted_id (Inserted h _) = [h]"
| "inserted_id _ = []"

fun removed_id :: "event \<Rightarrow> u64 list" where
  "removed_id (Removed h (Some _)) = [h]"
| "removed_id _ = []"

definition all_of :: "('a \<Rightarrow> 'b list) \<Rightarrow> 'a list \<Rightarrow> 'b list" where
  "all_of f xs = concat (map f xs)"

lemma all_of_simps [simp]: "all_of f [] = []" "all_of f (xs @ ys) = all_of f xs @ all_of f ys"
  "all_of f (x # xs) = f x @ all_of f xs"
  by (simp_all add: all_of_def)

lemma all_of_update:
  assumes "k < length xs"
  obtains A B where "\<forall>x. all_of f (xs[k := x]) = A @ f x @ B" and "all_of f xs = A @ f (xs ! k) @ B"
proof -
  have "all_of f (xs[k := x]) = all_of f (take k xs) @ f x @ all_of f (drop (Suc k) xs)" for x
    using assms by (simp add: upd_conv_take_nth_drop)
  moreover from this [of "xs ! k"] assms have "all_of f xs
      = all_of f (take k xs) @ f (xs ! k) @ all_of f (drop (Suc k) xs)" by simp
  ultimately show thesis using that by blast
qed

section \<open>The invariant\<close>

type_synonym 'w go_machine = "(request, activation, 'w golib, event) machine"

definition log_events :: "'w go_machine \<Rightarrow> event list" where
  "log_events m = map snd (log m)"

text \<open>Ids are given out once; what is in the table was inserted and not removed since; what a dispose
  takes down it has removed.\<close>

definition ids_ok :: "u64 list \<Rightarrow> u64 list \<Rightarrow> u64 list \<Rightarrow> u64 list \<Rightarrow> u64 set \<Rightarrow> u64 \<Rightarrow> bool" where
  "ids_ok starts down ins rem live n \<longleftrightarrow>
     distinct (starts @ ins) \<and> (\<forall>h \<in> set starts \<union> set ins. h \<le> n)
     \<and> distinct rem \<and> set rem \<inter> live = {} \<and> set ins = set rem \<union> live
     \<and> distinct down \<and> set down \<subseteq> set rem"

definition ids_inv :: "'w go_machine \<Rightarrow> bool" where
  "ids_inv m \<longleftrightarrow>
     ids_ok (all_of start_id (calls m)) (all_of taken_down (calls m)) (all_of inserted_id (log_events m))
       (all_of removed_id (log_events m)) (dom (instances (shared m))) (next_id (shared m))"

lemma ids_ok_less:
  assumes "ids_ok (A @ x @ B) (C @ y @ D) ins rem live n" and "x' = x \<or> x' = []" and "y' = y \<or> y' = []"
  shows "ids_ok (A @ x' @ B) (C @ y' @ D) ins rem live n"
  using assms(2,3) by (elim disjE; use assms(1) in \<open>auto simp: ids_ok_def\<close>)

lemma ids_ok_take:
  assumes "ids_ok (A @ B) down ins rem live n" and "n < n'"
  shows "ids_ok (A @ n' # B) down ins rem live n'"
proof -
  from assms have "n' \<notin> set A \<union> set B \<union> set ins" unfolding ids_ok_def by (auto simp: not_le [symmetric])
  moreover from assms(1) have "distinct ((A @ B) @ ins)" by (simp only: ids_ok_def)
  ultimately have "distinct ((A @ n' # B) @ ins)" by auto
  moreover have "h \<le> n'" if "h \<in> set (A @ n' # B) \<union> set ins" for h
  proof (cases "h = n'")
    case False
    with that have "h \<in> set (A @ B) \<union> set ins" by auto
    with assms(1) have "h \<le> n" unfolding ids_ok_def by blast
    with assms(2) show ?thesis by simp
  qed simp
  ultimately show ?thesis using assms(1) by (simp only: ids_ok_def) blast
qed

lemma ids_ok_insert:
  assumes "ids_ok (A @ h # B) down ins rem live n"
  shows "ids_ok (A @ B) down (ins @ [h]) rem (insert h live) n"
  using assms unfolding ids_ok_def by auto

lemma ids_ok_remove:
  assumes "ids_ok starts (C @ D) ins rem live n" and "h \<in> live"
  shows "ids_ok starts (C @ h # D) ins (rem @ [h]) (live - {h}) n"
  using assms unfolding ids_ok_def by auto

definition history_inv :: "('m, 'w) packages \<Rightarrow> 'w go_machine \<Rightarrow> bool" where
  "history_inv P m \<longleftrightarrow> replay (log_events m) Map.empty = Some (instances (shared m))
     \<and> length (calls m) = length (requests m)
     \<and> (\<forall>k < length (calls m). explains P (requests m ! k) (calls m ! k) (events_of k (log m)))
     \<and> (\<forall>e \<in> set (log m). fst e < length (calls m))"

fun call_ok :: "activation \<Rightarrow> bool" where
  "call_ok (Publish _ i) \<longleftrightarrow> live_instance i"
| "call_ok (Teardown _ i) \<longleftrightarrow> instance_ok i"
| "call_ok _ \<longleftrightarrow> True"

definition go_inv :: "('m, 'w) packages \<Rightarrow> 'w go_machine \<Rightarrow> bool" where
  "go_inv P m \<longleftrightarrow> ids_inv m \<and> history_inv P m \<and> golib_ok (shared m)
     \<and> (\<forall>c \<in> set (calls m). call_ok c)
     \<and> unat (next_id (shared m)) + length (all_of pending (calls m)) \<le> length (requests m)
     \<and> length (requests m) < 2 ^ 64"

text \<open>Any request may be made, up to the number of ids there are.\<close>

definition any_request :: "'w go_machine \<Rightarrow> request \<Rightarrow> bool" where
  "any_request m r \<longleftrightarrow> length (requests m) + 1 < 2 ^ 64"

lemma request_keeps:
  assumes "go_inv P m" and "any_request m r"
  shows "go_inv P (make entry r m)"
proof -
  have e: "start_id (entry r) = []" "taken_down (entry r) = []" "call_ok (entry r)"
    "length (pending (entry r)) \<le> 1" "explains P r (entry r) []"
    by (cases r; simp)+
  from assms(1) have h: "history_inv P m" by (simp add: go_inv_def)
  then have "events_of (length (calls m)) (log m) = []"
    by (auto simp: history_inv_def events_of_def filter_empty_conv)
  with h e have "history_inv P (make entry r m)"
    by (auto simp: history_inv_def make_def log_events_def nth_append less_Suc_eq)
  with assms e show ?thesis
    by (auto simp: go_inv_def make_def ids_inv_def log_events_def any_request_def)
qed


section \<open>What a part does\<close>

lemma serve_instance_frame:
  obtains e l' where "serve_instance P i n l = Some (Inl e, l')" and "instances l' = instances l"
    and "next_id l' = next_id l"
  | j l' where "serve_instance P i n l = Some (Inr j, l')" and "instances l' = instances l"
    and "next_id l' = next_id l" and "live_instance j"
proof -
  let ?i = "i\<lparr>wg := [RunServer]\<rparr>"
  let ?l = "on_world (run_server P (server i) (cancel i)) l"
  obtain c l1 where c: "try_world (new_client P (server i)) ?l = (c, l1)" by fastforce
  note f = try_world_frame [OF c]
  show thesis
  proof (cases c)
    case (Inl e)
    with c f that(1) show thesis
      by (auto simp: serve_instance_def Let_def simp del: append_Cons append_Nil)
  next
    case (Inr conn)
    obtain p l2 where p: "start_streaming_proxy P (?i\<lparr>client_conn := Some conn\<rparr>) conn n l1 = (p, l2)"
      by fastforce
    note g = start_proxy_result [OF p]
    show thesis
    proof (cases p)
      case (Inl e)
      with Inr c f p g that(1) show thesis
        by (auto simp: serve_instance_def Let_def simp del: append_Cons append_Nil)
    next
      case j: (Inr j)
      from g(4) [OF j] have "live_instance j" by (auto simp: live_instance_def)
      with Inr c f p g j that(2) show thesis by (simp add: serve_instance_def Let_def)
    qed
  qed
qed

text \<open>The parts of a start between taking the id and the lock: the table and the ids stay, and the call
  goes on or ends with an error.\<close>

definition goes_on :: "activation \<Rightarrow> activation \<Rightarrow> bool" where
  "goes_on c c' \<longleftrightarrow> (\<exists>msg. c' = Answered (Text (make_error msg)))
     \<or> starting c' \<and> start_id c' = start_id c \<and> pending c' = [] \<and> taken_down c' = [] \<and> call_ok c'"

lemma try_world_table:
  "try_world f l = (r, l') \<Longrightarrow> instances l' = instances l \<and> next_id l' = next_id l"
  by (simp add: try_world_frame)

lemma create_server_frame:
  assumes "create_server P opts n i l = (c', l')"
  shows "instances l' = instances l" "next_id l' = next_id l" "goes_on (CreateServer opts n i) c'"
  using assms
  by (auto simp: create_server_def goes_on_def Let_def dest!: try_world_table
      split: prod.splits sum.splits if_splits simp del: append_Cons append_Nil)

lemma make_tracer_frame:
  assumes "make_tracer P opts n i l = (c', l')"
  shows "instances l' = instances l" "next_id l' = next_id l" "goes_on (MakeTracer opts n i) c'"
  using assms
  by (auto simp: make_tracer_def goes_on_def dest!: try_world_table
      split: prod.splits sum.splits simp del: append_Cons append_Nil)

lemma with_metrics_table:
  assumes "with_metrics_server P opts i l = (r, l')"
  shows "instances l' = instances l \<and> next_id l' = next_id l"
  using assms
  by (auto simp: with_metrics_server_def dest: start_metrics_frame
      split: prod.splits sum.splits if_splits simp del: append_Cons append_Nil)

lemma metrics_part_frame:
  assumes "metrics_part P opts n i l = (c', l')"
  shows "instances l' = instances l" "next_id l' = next_id l" "goes_on (MetricsServer opts n i) c'"
  using assms
  by (auto simp: metrics_part_def goes_on_def dest!: with_metrics_table split: prod.splits sum.splits)

lemma serve_part_frame:
  obtains c' l' where "serve_part P n i l = Some (c', l')" "instances l' = instances l"
    "next_id l' = next_id l" "goes_on (Serve n i) c'"
  by (rule serve_instance_frame [of P i n l]) (auto simp: serve_part_def goes_on_def)

lemma invoke_part_frame:
  assumes "invoke_part P md m ty req i l = (r, l')"
  shows "instances l' = instances l" "next_id l' = next_id l"
  using assms
  by (auto simp: invoke_part_def dest: try_world_frame split: option.splits sum.splits prod.splits)

text \<open>The kinds of parts.\<close>

lemma advance_cases:
  assumes "advance P c s = Some (c', s', es)" and "call_ok c" and "golib_ok s"
  obtains (quiet) "instances s' = instances s" and "next_id s' = next_id s" and "es = []"
      and "start_id c' = start_id c \<or> start_id c' = []" and "taken_down c' = taken_down c \<or> taken_down c' = []"
      and "pending c' = []" and "call_ok c'"
  | (id_taken) opts where "c = StartCall opts" and "instances s' = instances s" and "next_id s' = next_id s + 1"
      and "es = []" and "start_id c' = [next_id s + 1]" and "taken_down c' = []" and "pending c' = []" and "call_ok c'"
  | (inserted) h i where "c = Publish h i" and "instances s' = (instances s)(h \<mapsto> i)" and "next_id s' = next_id s"
      and "es = [Inserted h i]" and "start_id c' = []" and "taken_down c' = []" and "pending c' = []" and "call_ok c'"
  | (removed) h i where "c = DisposeCall h" and "instances s h = Some i"
      and "instances s' = (instances s)(h := None)" and "next_id s' = next_id s"
      and "es = [Removed h (Some i)]" and "c' = Teardown h i" and "call_ok c'"
  | (looked) h where "s' = s" and "es = [Looked h (instances s h)] \<or> es = [Removed h None] \<and> instances s h = None"
      and "start_id c' = []" and "taken_down c' = []" and "pending c' = []" and "call_ok c'"
proof (cases c)
  case (StartCall x)
  with assms(1) quiet id_taken show thesis
    by (auto simp: quiet_def begin_start_def Let_def split: if_splits)
next
  case (CreateServer x n i)
  with assms(1) create_server_frame [of P x n i s] quiet show thesis
    by (auto simp: quiet_run goes_on_def)
next
  case (MakeTracer x n i)
  with assms(1) make_tracer_frame [of P x n i s] quiet show thesis by (auto simp: quiet_run goes_on_def)
next
  case (InstallTracer x n i p t)
  with assms(1) quiet show thesis by (auto simp: quiet_def)
next
  case (MetricsServer x n i)
  with assms(1) metrics_part_frame [of P x n i s] quiet show thesis by (auto simp: quiet_run goes_on_def)
next
  case (Serve n i)
  obtain d k where "serve_part P n i s = Some (d, k)" "instances k = instances s" "next_id k = next_id s"
    "goes_on (Serve n i) d" by (rule serve_part_frame)
  with Serve assms(1) quiet show thesis by (auto simp: quiet_run goes_on_def)
next
  case (Publish h i)
  with assms(1) inserted show thesis by auto
next
  case (DisposeCall h)
  show thesis
  proof (cases "instances s h")
    case None
    with DisposeCall assms(1) show thesis by (intro looked) auto
  next
    case (Some i)
    with assms(3) have "instance_ok i" by (auto simp: golib_ok_def)
    with Some DisposeCall assms(1) show thesis by (intro removed [of h i]) auto
  qed
next
  case (Teardown h i)
  with assms(2) have "teardown_part P h i s = Some (Cleanup h i, stop_serving P i s)"
    by (simp add: teardown_part_def wg_wait_dispose del: not_None_eq)
  with Teardown assms(1) quiet show thesis by (auto simp: quiet_run)
next
  case (Cleanup h i)
  with assms(1) quiet show thesis
    by (auto simp: quiet_def cleanup_part_def Let_def)
next
  case (RpcCall h m tp ts req)
  show thesis
  proof (cases "map_of rpc_messages (c_text m)")
    case None
    with RpcCall assms(1) show thesis by (intro quiet) (auto simp: lookup_part_def)
  next
    case (Some ty)
    with RpcCall assms(1) show thesis
      by (intro looked [of h]) (auto simp: lookup_part_def split: prod.splits option.splits)
  qed
next
  case (Invoke h md m ty req i)
  with assms(1) invoke_part_frame [of P md m ty req i s] quiet show thesis by (auto split: prod.splits)
qed (use assms(1) in simp)

lemma advance_explains:
  assumes "advance P c s = Some (c', s', es)" and "explains P r c fs"
  shows "explains P r c' (fs @ es)"
proof (cases r)
  case r: (StartReq x)
  have st: "explains P r d []" if "goes_on b d" for b d
    using that by (auto simp: r goes_on_def elim: starting.elims)
  show ?thesis
  proof (cases "starting c")
    case False
    with assms show ?thesis by (cases c) (auto simp: r)
  next
    case True
    with assms(2) have fs: "fs = []" by (cases c) (simp_all add: r)
    show ?thesis
    proof (cases c)
      case (StartCall y)
      with assms(1) fs show ?thesis by (auto simp: r quiet_def begin_start_def Let_def split: if_splits)
    next
      case (CreateServer y n i)
      with assms(1) fs show ?thesis by (auto simp: quiet_run dest!: create_server_frame(3) intro!: st)
    next
      case (MakeTracer y n i)
      with assms(1) fs show ?thesis by (auto simp: quiet_run dest!: make_tracer_frame(3) intro!: st)
    next
      case (MetricsServer y n i)
      with assms(1) fs show ?thesis by (auto simp: quiet_run dest!: metrics_part_frame(3) intro!: st)
    next
      case (Serve n i)
      obtain d k where "serve_part P n i s = Some (d, k)" "goes_on (Serve n i) d" by (rule serve_part_frame)
      with Serve assms(1) fs st show ?thesis by (auto simp: quiet_run)
    qed (use True assms(1) fs in \<open>auto simp: r quiet_def\<close>)
  qed
next
  case r: (DisposeReq h)
  with assms show ?thesis
    by (cases c) (auto simp: quiet_def teardown_part_def cleanup_part_def Let_def split: option.splits Option.bind_splits)
next
  case r: (RpcReq h m tp ts req)
  with assms show ?thesis
    by (cases c) (auto simp: lookup_part_def split: option.splits prod.splits, metis fst_conv)
qed

lemma ids_update:
  assumes inv: "ids_inv m" and k: "k < length (calls m)"
    and m': "m' = m\<lparr>calls := (calls m)[k := c'], shared := s', log := log m @ map (Pair k) es\<rparr>"
    and a: "advance P (calls m ! k) (shared m) = Some (c', s', es)"
    and ok: "call_ok (calls m ! k)" "golib_ok (shared m)"
    and room: "pending (calls m ! k) \<noteq> [] \<Longrightarrow> next_id (shared m) < next_id (shared m) + 1"
  shows "ids_inv m'"
proof -
  obtain A B where S: "\<forall>c. all_of start_id ((calls m)[k := c]) = A @ start_id c @ B"
      "all_of start_id (calls m) = A @ start_id (calls m ! k) @ B" by (rule all_of_update [OF k, of start_id])
  obtain C D where T: "\<forall>c. all_of taken_down ((calls m)[k := c]) = C @ taken_down c @ D"
      "all_of taken_down (calls m) = C @ taken_down (calls m ! k) @ D" by (rule all_of_update [OF k, of taken_down])
  have log': "log_events m' = log_events m @ es" by (simp add: m' log_events_def comp_def)
  note I = inv [unfolded ids_inv_def S(2) T(2)]
  note unf = ids_inv_def log' and upd = m' S(1) [rule_format] T(1) [rule_format]
  from a ok show ?thesis
  proof (cases rule: advance_cases)
    case quiet
    from ids_ok_less [OF I quiet(4,5)] quiet show ?thesis unfolding unf by (simp add: upd)
  next
    case (id_taken opts)
    with I ids_ok_take [of A B "C @ D"] room show ?thesis unfolding unf by (simp add: upd)
  next
    case (inserted h i)
    with I ids_ok_insert [of A h B "C @ D"] show ?thesis unfolding unf by (simp add: upd)
  next
    case (removed h i)
    then have "h \<in> dom (instances (shared m))" by blast
    from ids_ok_remove [OF _ this, of "A @ B" C D] I removed show ?thesis unfolding unf by (simp add: upd)
  next
    case (looked h)
    have "all_of inserted_id es = []" "all_of removed_id es = []" using looked(2) by auto
    with ids_ok_less [OF I, of "[]" "[]"] looked show ?thesis unfolding unf by (simp add: upd)
  qed
qed

lemma history_update:
  assumes inv: "history_inv P m" and k: "k < length (calls m)"
    and m': "m' = m\<lparr>calls := (calls m)[k := c'], shared := s', log := log m @ map (Pair k) es\<rparr>"
    and a: "advance P (calls m ! k) (shared m) = Some (c', s', es)"
    and ok: "call_ok (calls m ! k)" "golib_ok (shared m)"
    and new: "\<And>h i. calls m ! k = Publish h i \<Longrightarrow> instances (shared m) h = None"
  shows "history_inv P m'"
proof -
  have log': "log_events m' = log_events m @ es" by (simp add: m' log_events_def comp_def)
  have drop: "T h = None \<Longrightarrow> T(h := None) = T" for T :: table and h by (rule fun_upd_idem)
  have "replay es (instances (shared m)) = Some (instances s')"
    using a ok by (cases rule: advance_cases) (auto simp: new drop)
  moreover have "explains P (requests m ! k) c' (events_of k (log m) @ es)"
    using inv k by (intro advance_explains [OF a]) (simp add: history_inv_def)
  ultimately show ?thesis using inv k unfolding history_inv_def log' replay_append
    by (auto simp: m' nth_list_update)
qed

lemma part_keeps:
  assumes inv: "go_inv P m" and t: "turn (advance P) k m = Some m'"
  shows "go_inv P m'"
proof -
  from t obtain c' s' es where k: "k < length (calls m)"
    and a: "advance P (calls m ! k) (shared m) = Some (c', s', es)"
    and m': "m' = m\<lparr>calls := (calls m)[k := c'], shared := s', log := log m @ map (Pair k) es\<rparr>"
    by (rule turn_Some)
  from inv have ids: "ids_inv m" and his: "history_inv P m" and ok: "call_ok (calls m ! k)" "golib_ok (shared m)"
    and room: "unat (next_id (shared m)) + length (all_of pending (calls m)) \<le> length (requests m)"
      "length (requests m) < 2 ^ 64"
    using k by (simp_all add: go_inv_def)
  obtain A B where W: "\<forall>c. all_of pending ((calls m)[k := c]) = A @ pending c @ B"
    "all_of pending (calls m) = A @ pending (calls m ! k) @ B" by (rule all_of_update [OF k, of pending])
  have step: "unat (next_id (shared m) + 1) = unat (next_id (shared m)) + 1"
    if "pending (calls m ! k) \<noteq> []"
    using that room W(2) by (cases "pending (calls m ! k)") (auto simp: unat_word_ariths)
  have "ids_inv m'"
    by (rule ids_update [OF ids k m' a ok]) (simp add: word_less_nat_alt step)
  moreover have "instances (shared m) h = None" if "calls m ! k = Publish h i" for h i
  proof -
    obtain C D where "all_of start_id (calls m) = C @ start_id (calls m ! k) @ D"
      using all_of_update [OF k, of start_id] by metis
    with that ids show ?thesis by (auto simp: ids_inv_def ids_ok_def)
  qed
  then have "history_inv P m'" by (rule history_update [OF his k m' a ok])
  moreover have "golib_ok s'" "call_ok c'" "unat (next_id s') + length (all_of pending ((calls m)[k := c'])) \<le> length (requests m)"
    using a ok
    by (cases rule: advance_cases; use ok room W step in \<open>auto simp: golib_ok_def live_instance_ok\<close>)+
  ultimately show ?thesis using inv
    by (auto simp: go_inv_def m' dest!: set_update_subset_insert [THEN subsetD])
qed

lemma can_advance:
  assumes "go_inv P m" and "c \<in> set (calls m)" and "parts_left c \<noteq> 0"
  shows "advance P c (shared m) \<noteq> None"
proof (cases c)
  case (Serve n i)
  then show ?thesis by (auto simp: quiet_def intro: serve_part_frame [of P n i "shared m"])
next
  case (Teardown h i)
  with assms have "instance_ok i" by (auto simp: go_inv_def)
  with Teardown show ?thesis by (simp add: teardown_part_def wg_wait_dispose quiet_def del: not_None_eq)
qed (use assms(3) in \<open>auto simp: quiet_def split: option.split prod.split\<close>)

lemma advance_fewer: "advance P c s = Some (c', s', es) \<Longrightarrow> parts_left c' < parts_left c"
proof (cases c)
  case (Serve n i)
  assume a: "advance P c s = Some (c', s', es)"
  obtain d k where "serve_part P n i s = Some (d, k)" "parts_left d < 2"
    by (rule serve_instance_frame [of P i n s]) (auto simp: serve_part_def)
  with a Serve show ?thesis by (auto simp: quiet_run)
qed (auto simp: quiet_run quiet_def begin_start_def create_server_def make_tracer_def metrics_part_def
      serve_part_def teardown_part_def cleanup_part_def lookup_part_def Let_def bind_eq_Some_conv
      split: if_splits sum.splits prod.splits option.splits simp del: append_Cons append_Nil)

interpretation threads: call_system entry "advance P" any_request parts_left "go_inv P" for P
  by unfold_locales (fact request_keeps part_keeps can_advance advance_fewer)+

end
