(* ===== verification/Sample_Packages.thy ===== *)
theory Sample_Packages
  imports Go_Library
begin

text \<open>
  One concrete choice of the packages the Go library calls, for the worked examples: an echo server
  whose world is the log of what was done to it.  The messages are byte strings.
\<close>

definition logging :: "string \<Rightarrow> 'a \<Rightarrow> string list \<Rightarrow> (string + 'a) \<times> string list" where
  "logging e x w = (Inr x, w @ [e])"

definition sample_packages :: "(bytes, string list) packages" where
  "sample_packages =
     \<lparr>is_windows = False, temp_file = (\<lambda>n. ''/tmp/'' @ n), process_id = 7,
      new_datastore = (\<lambda>opts. logging ''new datastore'' 1),
      new_server = (\<lambda>ds m. logging ''new server'' 2),
      new_client = (\<lambda>srv. logging ''new client'' 3),
      run_server = (\<lambda>srv ctx w. w @ [''run'']),
      cancel_context = (\<lambda>ctx w. w @ [''cancel'']),
      close_conn = (\<lambda>c w. w @ [''close connection'']),
      new_tracer = (\<lambda>e n w. (Inr (10 + length w), w @ [''new tracer''])),
      shutdown_tracer = (\<lambda>t w. w @ [''shutdown tracer'']),
      serve_metrics = (\<lambda>a. logging ''serve metrics'' 4),
      shutdown_metrics = (\<lambda>v w. w @ [''shutdown metrics'']),
      listen_unix = (\<lambda>a. logging ''listen'' 5),
      listen_tcp = (\<lambda>a. logging ''listen'' (5, ''127.0.0.1:50152'')),
      close_listener = (\<lambda>v w. w @ [''close listener'']),
      remove_file = (\<lambda>f w. w @ [''remove '' @ f]),
      serve_proxy = (\<lambda>c v w. (6, w @ [''serve proxy''])),
      graceful_stop = (\<lambda>v w. w @ [''graceful stop'']),
      unmarshal = (\<lambda>ty bs. Inr bs),
      marshal = (\<lambda>m. if length m < 2 ^ 31 then Inr m else Inl ''message too large''),
      invoke = (\<lambda>md method c m. logging method m)\<rparr>"

text \<open>The same packages with a listener that fails.\<close>

definition failing_listener :: "(bytes, string list) packages" where
  "failing_listener = sample_packages\<lparr>listen_unix := (\<lambda>a w. (Inl ''address in use'', w))\<rparr>"

definition empty_lib :: "string list golib" where
  "empty_lib = \<lparr>instances = Map.empty, next_id = 0, next_ctx = 0, global_tracer = 0, world = []\<rparr>"

definition empty_process :: "string list golib process" where
  "empty_process = \<lparr>mem = \<lparr>blocks = Map.empty, brk = 1\<rparr>, lib = empty_lib\<rparr>"

lemma empty_lib_ok: "golib_ok empty_lib" "instances empty_lib = Map.empty" "next_id empty_lib = 0"
  by (simp_all add: empty_lib_def golib_ok_def)

lemma empty_process_parts: "heap_ok (mem empty_process)" "lib empty_process = empty_lib"
  by (simp_all add: empty_process_def heap_ok_def)

text \<open>A start with no options.\<close>

definition sample_instance :: "u64 \<Rightarrow> obj \<Rightarrow> instance_rec" where
  "sample_instance n ctx =
     \<lparr>server = 2, client_conn = Some 3,
      streaming_addr = ''/tmp/spicedb-streaming-7-'' @ dec (unat n) @ ''.sock'',
      streaming_listener = Some 5, streaming_server = Some 6, cancel = ctx,
      wg = [RunServer, ServeProxy], tracer_provider = None, prev_tracer_provider = 0,
      metrics_server = None\<rparr>"

lemma dec_7: "dec 7 = ''7''"
  by code_simp

lemma sample_go_start:
  assumes "parse_start_options opts = zero_options" and n: "n = next_id l + 1"
  shows "\<exists>l'. go_start sample_packages opts l
      = Some (make_success (Some (start_data n (streaming_addr (sample_instance n (next_ctx l))) ''unix'')), l')
    \<and> instances l' = (instances l)(n \<mapsto> sample_instance n (next_ctx l)) \<and> next_id l' = n
    \<and> next_ctx l' = Suc (next_ctx l) \<and> global_tracer l' = global_tracer l"
  by (simp add: go_start_def assms(1) zero_options_def remote_engine_def go_engine_def
      datastore_options_def sample_packages_def logging_def try_world_def Let_def
      start_observability_def with_metrics_server_def start_serving_def on_world_def
      start_streaming_proxy_def proxy_listen_def streaming_proxy_addr_def sample_instance_def
      blank_instance_def n dec_7)

end
