(* ===== verification/Concurrent_Facts.thy ===== *)
theory Concurrent_Facts
  imports Linearizable Sample_Packages
begin

text \<open>
  What holds of the library under concurrent calls, for arbitrary callers and for programs that respect
  ownership as safe Rust does, and the one place where starts that overlap disturb each other.
\<close>

section \<open>Programs that respect ownership\<close>

text \<open>
  A Rust program calls with a handle only while it owns the instance and borrows it for the call, and
  \<open>drop\<close> needs it unborrowed: a dispose of a handle is requested once, when no call on it is in
  progress, and no call is requested from then on.
\<close>

fun called_on :: "activation \<Rightarrow> u64 list" where
  "called_on (RpcCall h _ _ _ _) = [h]"
| "called_on (Invoke h _ _ _ _ _) = [h]"
| "called_on _ = []"

fun disposing :: "activation \<Rightarrow> u64 list" where
  "disposing (DisposeCall h) = [h]"
| "disposing _ = []"

definition rust_request :: "'w go_machine \<Rightarrow> request \<Rightarrow> bool" where
  "rust_request m r \<longleftrightarrow> any_request m r
     \<and> (case r of
          StartReq _ \<Rightarrow> True
        | DisposeReq h \<Rightarrow> h \<in> dom (instances (shared m)) \<and> h \<notin> set (all_of called_on (calls m))
            \<and> h \<notin> set (all_of disposing (calls m))
        | RpcReq h _ _ _ _ \<Rightarrow> h \<in> dom (instances (shared m)) \<and> h \<notin> set (all_of disposing (calls m)))"

fun met :: "event \<Rightarrow> bool" where
  "met (Removed h None) \<longleftrightarrow> False"
| "met (Looked h None) \<longleftrightarrow> False"
| "met _ \<longleftrightarrow> True"

definition current_target :: "table \<Rightarrow> activation \<Rightarrow> bool" where
  "current_target T c \<longleftrightarrow> (\<forall>h md m ty req i. c = Invoke h md m ty req i \<longrightarrow> T h = Some i)"

definition owned_inv :: "'w go_machine \<Rightarrow> bool" where
  "owned_inv m \<longleftrightarrow> distinct (all_of disposing (calls m))
     \<and> set (all_of called_on (calls m)) \<inter> set (all_of disposing (calls m)) = {}
     \<and> set (all_of called_on (calls m)) \<union> set (all_of disposing (calls m)) \<subseteq> dom (instances (shared m))
     \<and> (\<forall>c \<in> set (calls m). current_target (instances (shared m)) c)
     \<and> (\<forall>e \<in> set (log_events m). met e)"

lemma owned_request:
  assumes "owned_inv m" and "rust_request m r"
  shows "owned_inv (make entry r m)"
  using assms
  by (cases r) (auto simp: owned_inv_def rust_request_def make_def current_target_def log_events_def)

text \<open>What a part does to the table and to the handles in use.\<close>

lemma advance_owned:
  assumes "advance P c s = Some (c', s', es)"
  obtains (same) "instances s' = instances s" and "called_on c' = called_on c \<or> called_on c' = []"
      and "disposing c' = []" and "disposing c = [] \<or> (\<exists>h. disposing c = [h] \<and> instances s h = None)" and "list_all met es \<or> (\<exists>h. instances s h = None \<and> h \<in> set (called_on c @ disposing c))"
      and "current_target (instances s) c'"
  | (more) h i where "c = Publish h i" and "instances s' = (instances s)(h \<mapsto> i)" and "list_all met es"
      and "called_on c' = []" and "disposing c' = []" and "current_target (instances s') c'"
  | (fewer) h i where "c = DisposeCall h" and "instances s h = Some i" and "instances s' = (instances s)(h := None)"
      and "list_all met es" and "called_on c' = []" and "disposing c' = []" and "current_target (instances s') c'"
proof -
  have g: "called_on d = [] \<and> disposing d = [] \<and> current_target T d" if "goes_on b d" for b d T
    using that by (auto simp: goes_on_def current_target_def elim: starting.elims)
  show thesis
  proof (cases c)
    case (StartCall x)
    with assms same show thesis
      by (auto simp: quiet_def begin_start_def Let_def current_target_def split: if_splits)
  next
    case (CreateServer x n i)
    with assms create_server_frame [of P x n i s] g same show thesis by (auto simp: quiet_run)
  next
    case (MakeTracer x n i)
    with assms make_tracer_frame [of P x n i s] g same show thesis by (auto simp: quiet_run)
  next
    case (InstallTracer x n i p t)
    with assms same show thesis by (auto simp: quiet_def current_target_def)
  next
    case (MetricsServer x n i)
    with assms metrics_part_frame [of P x n i s] g same show thesis by (auto simp: quiet_run)
  next
    case (Serve n i)
    obtain d k where "serve_part P n i s = Some (d, k)" "instances k = instances s" "goes_on (Serve n i) d"
      by (rule serve_part_frame)
    with Serve assms g same show thesis by (auto simp: quiet_run)
  next
    case (Publish h i)
    with assms more show thesis by (auto simp: current_target_def)
  next
    case (DisposeCall h)
    show thesis
    proof (cases "instances s h")
      case None
      with DisposeCall assms show thesis by (intro same) (auto simp: current_target_def)
    next
      case (Some i)
      with DisposeCall assms show thesis by (intro fewer [of h i]) (auto simp: current_target_def)
    qed
  next
    case (Teardown h i)
    with assms same show thesis
      by (auto simp: quiet_run teardown_part_def wg_wait_def current_target_def split: if_splits)
  next
    case (Cleanup h i)
    with assms same show thesis by (auto simp: quiet_def cleanup_part_def Let_def current_target_def)
  next
    case (RpcCall h m tp ts req)
    show thesis
    proof (cases "map_of rpc_messages (c_text m)")
      case None
      with RpcCall assms show thesis by (intro same) (auto simp: lookup_part_def current_target_def)
    next
      case (Some ty)
      with RpcCall assms show thesis
        by (intro same) (auto simp: lookup_part_def current_target_def split: prod.splits option.splits)
    qed
  next
    case (Invoke h md m ty req i)
    with assms invoke_part_frame [of P md m ty req i s] same show thesis
      by (auto simp: current_target_def split: prod.splits)
  qed (use assms in simp)
qed

lemma publish_fresh:
  assumes "ids_inv m" and "k < length (calls m)" and "calls m ! k = Publish h i"
  shows "instances (shared m) h = None"
proof -
  obtain C D where "all_of start_id (calls m) = C @ start_id (calls m ! k) @ D"
    using all_of_update [OF assms(2), of start_id] by metis
  with assms show ?thesis by (auto simp: ids_inv_def ids_ok_def)
qed

lemma owned_part:
  assumes own: "owned_inv m" and inv: "go_inv P m" and t: "turn (advance P) k m = Some m'"
  shows "owned_inv m'"
proof -
  from t obtain c' s' es where k: "k < length (calls m)"
    and a: "advance P (calls m ! k) (shared m) = Some (c', s', es)"
    and m': "m' = m\<lparr>calls := (calls m)[k := c'], shared := s', log := log m @ map (Pair k) es\<rparr>"
    by (rule turn_Some)
  obtain A B where U: "\<forall>c. all_of called_on ((calls m)[k := c]) = A @ called_on c @ B"
    "all_of called_on (calls m) = A @ called_on (calls m ! k) @ B" by (rule all_of_update [OF k, of called_on])
  obtain C D where V: "\<forall>c. all_of disposing ((calls m)[k := c]) = C @ disposing c @ D"
    "all_of disposing (calls m) = C @ disposing (calls m ! k) @ D" by (rule all_of_update [OF k, of disposing])
  have log': "log_events m' = log_events m @ es" by (simp add: m' log_events_def comp_def)
  note I = own [unfolded owned_inv_def U(2) V(2)]
  have tgt: "\<forall>c \<in> set (calls m'). current_target T c"
    if "current_target T c'" "\<And>c. c \<in> set (calls m) \<Longrightarrow> current_target T c" for T
    using that by (auto simp: m' dest!: set_update_subset_insert [THEN subsetD])
  have old: "current_target T c"
    if "c \<in> set (calls m)" and keep: "\<And>h i. h \<in> set (all_of called_on (calls m)) \<Longrightarrow> instances (shared m) h = Some i \<Longrightarrow> T h = Some i"
    for T c
  proof -
    from own that(1) have "current_target (instances (shared m)) c" by (simp add: owned_inv_def)
    moreover have "h \<in> set (all_of called_on (calls m))" if "c = Invoke h md me ty req i" for h md me ty req i
      using \<open>c \<in> set (calls m)\<close> that by (force simp: all_of_def)
    ultimately have "T h = Some i" if "c = Invoke h md me ty req i" for h md me ty req i
      using that by (intro keep) (simp_all add: current_target_def)
    then show ?thesis by (simp add: current_target_def)
  qed
  have targets: "\<forall>c \<in> set (calls m'). current_target T c"
    if "current_target T c'" and "\<And>h i. h \<in> set (all_of called_on (calls m)) \<Longrightarrow> instances (shared m) h = Some i \<Longrightarrow> T h = Some i" for T
    using that old by (intro tgt) simp_all
  have events: "(\<forall>e \<in> set (log_events m'). met e)" if "list_all met es"
    using own that by (auto simp: owned_inv_def log' list_all_iff)
  from a show ?thesis
  proof (cases rule: advance_owned)
    case same
    then have "list_all met es" "disposing (calls m ! k) = []" using I by auto
    moreover have "\<forall>c \<in> set (calls m'). current_target (instances s') c"
      using same by (intro targets) auto
    ultimately show ?thesis using same(2) unfolding owned_inv_def
      by (elim disjE; use I events same(1,3) in \<open>auto simp: m' U(1) V(1)\<close>)
  next
    case (more h i)
    then have new: "instances (shared m) h = None"
      using inv k by (auto simp: go_inv_def dest: publish_fresh)
    have "\<forall>c \<in> set (calls m'). current_target (instances s') c"
      using more new by (intro targets) auto
    then show ?thesis using I events more unfolding owned_inv_def by (auto simp: m' U(1) V(1))
  next
    case (fewer h i)
    then have h: "h \<notin> set (all_of called_on (calls m))" "h \<notin> set (C @ D)" using own V(2) by (auto simp: owned_inv_def)
    have "\<forall>c \<in> set (calls m'). current_target (instances s') c"
      using fewer h(1) by (intro targets) auto
    then show ?thesis using I h events fewer U(2) unfolding owned_inv_def by (auto simp: m' U(1) V(1))
  qed
qed

lemma rust_is_any: "rust_request m r \<Longrightarrow> any_request m r"
  by (simp add: rust_request_def)

interpretation rust: call_system entry "advance P" rust_request parts_left
    "\<lambda>m. go_inv P m \<and> owned_inv m" for P
  by unfold_locales
    (auto intro: owned_request rust_is_any dest: threads.request_inv threads.part_inv owned_part
      threads.can_go_on threads.fewer_left)

section \<open>A library nobody has called\<close>

definition unused :: "'w go_machine \<Rightarrow> bool" where
  "unused m \<longleftrightarrow> idle m \<and> instances (shared m) = Map.empty \<and> next_id (shared m) = 0"

lemma unused_inv:
  assumes "unused m"
  shows "go_inv P m" and "owned_inv m" and "idle m"
  using assms
  by (simp_all add: unused_def idle_def go_inv_def ids_inv_def ids_ok_def history_inv_def owned_inv_def
      log_events_def golib_ok_def)

definition untouched :: "string list go_machine" where
  "untouched = \<lparr>requests = [], calls = [], shared = empty_lib, log = []\<rparr>"

lemma untouched_unused: "unused untouched"
  by (simp add: unused_def untouched_def idle_def empty_lib_def)

text \<open>A given order of requests and parts.\<close>

datatype action = Ask request | Go nat

fun play :: "('m, 'w) packages \<Rightarrow> action list \<Rightarrow> 'w go_machine \<Rightarrow> 'w go_machine option" where
  "play P [] m = Some m"
| "play P (Ask r # as) m = play P as (make entry r m)"
| "play P (Go k # as) m = Option.bind (turn (advance P) k m) (play P as)"

text \<open>Whether its requests are allowed where they are made.\<close>

fun allowed ::
    "('w go_machine \<Rightarrow> request \<Rightarrow> bool) \<Rightarrow> ('m, 'w) packages \<Rightarrow> action list \<Rightarrow> 'w go_machine \<Rightarrow> bool" where
  "allowed may P [] m \<longleftrightarrow> True"
| "allowed may P (Ask r # as) m \<longleftrightarrow> may m r \<and> allowed may P as (make entry r m)"
| "allowed may P (Go k # as) m \<longleftrightarrow>
     (case turn (advance P) k m of None \<Rightarrow> True | Some m' \<Rightarrow> allowed may P as m')"

lemma play_schedule:
  assumes "play P as m = Some m'" and "allowed may P as m" and "schedule entry (advance P) may a n m"
  shows "\<exists>n'. schedule entry (advance P) may a n' m'"
  using assms
proof (induction as arbitrary: n m)
  case (Cons x xs)
  show ?case
  proof (cases x)
    case (Ask r)
    with Cons.prems have "schedule entry (advance P) may a n (make entry r m)"
      by (intro schedule.request) simp_all
    from Cons.IH [OF _ _ this] Cons.prems Ask show ?thesis by simp
  next
    case (Go k)
    with Cons.prems(1) obtain m1 where t: "turn (advance P) k m = Some m1" "play P xs m1 = Some m'"
      by (auto simp: bind_eq_Some_conv)
    with Cons.IH [OF t(2) _ schedule.part [OF Cons.prems(3) t(1)]] Cons.prems(2) Go show ?thesis by simp
  qed
qed auto

lemma allowed_any: "length (requests m) + length as < 2 ^ 64 \<Longrightarrow> allowed any_request P as m"
proof (induction as arbitrary: m)
  case (Cons x xs)
  show ?case
  proof (cases x)
    case (Ask r)
    with Cons.prems Cons.IH [of "make entry r m"] show ?thesis by (simp add: any_request_def make_def)
  next
    case (Go k)
    with Cons show ?thesis by (auto split: option.split elim!: turn_Some)
  qed
qed simp

definition traced_options :: string where
  "traced_options = ''{'' @ [CHR 0x22] @ ''metrics_enabled'' @ [CHR 0x22] @ '':true,'' @ [CHR 0x22]
     @ ''otlp_endpoint'' @ [CHR 0x22] @ '':'' @ [CHR 0x22] @ ''x:1'' @ [CHR 0x22] @ ''}''"

definition race :: "action list" where
  "race = [Ask (StartReq (Some traced_options)), Ask (StartReq (Some traced_options)),
     Go 0, Go 0, Go 0, Go 1, Go 1, Go 1, Go 0, Go 0, Go 0, Go 0, Go 1, Go 1, Go 1, Go 1,
     Ask (DisposeReq 2), Go 2, Go 2, Go 2]"

definition traced :: go_options where
  "traced = zero_options\<lparr>MetricsEnabled := True, OTLPEndpoint := ''x:1''\<rparr>"

lemma parse_traced: "parse_start_options (Some traced_options) = traced"
  by code_simp

lemma begin_traced: "begin_start (Some traced_options) l
   = (CreateServer traced (next_id l + 1) (blank_instance (next_ctx l)),
               l\<lparr>next_ctx := Suc (next_ctx l), next_id := next_id l + 1\<rparr>)"
  by (simp add: begin_start_def parse_traced remote_engine_def go_engine_def traced_def zero_options_def)

lemma create_traced: "create_server sample_packages traced n i l
   = (MakeTracer traced n (i\<lparr>server := 2\<rparr>), l\<lparr>world := world l @ [''new datastore'', ''new server'']\<rparr>)"
  by (simp add: create_server_def sample_packages_def logging_def try_world_def Let_def traced_def zero_options_def)

lemma tracer_traced: "make_tracer sample_packages traced n i l
   = (InstallTracer traced n i (global_tracer l) (10 + length (world l)), l\<lparr>world := world l @ [''new tracer'']\<rparr>)"
  by (simp add: make_tracer_def sample_packages_def logging_def try_world_def Let_def traced_def zero_options_def)

lemma metrics_traced: "metrics_part sample_packages traced n i l = (Serve n i, l)"
  by (simp add: metrics_part_def with_metrics_server_def traced_def zero_options_def)

definition serving :: "u64 \<Rightarrow> instance_rec \<Rightarrow> instance_rec" where
  "serving n i = i\<lparr>client_conn := Some 3, streaming_listener := Some 5, streaming_server := Some 6,
     wg := [RunServer, ServeProxy], streaming_addr := streaming_proxy_addr sample_packages n\<rparr>"

lemma serve_traced: "serve_part sample_packages n i l = Some (Publish n (serving n i),
    l\<lparr>world := world l @ [''run'', ''new client'', ''remove '' @ streaming_proxy_addr sample_packages n,
      ''listen'', ''serve proxy'']\<rparr>)"
  by (simp add: serve_part_def serve_instance_def sample_packages_def logging_def try_world_def Let_def
     start_streaming_proxy_def proxy_listen_def on_world_def serving_def)

lemma teardown_traced: "teardown_part sample_packages h (serving n i) l
    = Some (Cleanup h (serving n i), stop_serving sample_packages (serving n i) l)"
  by (simp add: teardown_part_def wg_wait_def serving_def)

lemma cleanup_traced:
  "fst (cleanup_part P i l) = Answered (Text (make_success None))"
  "instances (snd (cleanup_part P i l)) = instances l"
  "global_tracer (snd (cleanup_part P i l))
     = (if tracer_provider i = None then global_tracer l else prev_tracer_provider i)"
  by (simp_all add: cleanup_part_def cleanup_tracer Let_def)

lemma serving_tracer:
  "tracer_provider (serving n i) = tracer_provider i" "prev_tracer_provider (serving n i) = prev_tracer_provider i"
  by (simp_all add: serving_def)

lemma race_outcome:
  "\<exists>m i t. play sample_packages race untouched = Some m
    \<and> requests m = [StartReq (Some traced_options), StartReq (Some traced_options), DisposeReq 2]
    \<and> list_all (\<lambda>c. parts_left c = 0) (calls m) \<and> dom (instances (shared m)) = {1}
    \<and> instances (shared m) 1 = Some i \<and> tracer_provider i = Some t \<and> global_tracer (shared m) \<noteq> t"
  by (simp add: race_def untouched_def make_def turn_def begin_traced create_traced tracer_traced quiet_def
      metrics_traced empty_lib_def serve_traced teardown_traced cleanup_traced serving_tracer)

section \<open>Properties\<close>

text \<open>
  C13: the library is linearizable: however the parts of concurrent calls interleave, the log of what
  they did to the table, each within its call, is a run of a table used by one caller at a time and
  ends in the table there is, and every answer is the one its own entry of the log gives.
\<close>

theorem concurrent_calls_linearizable:
  assumes "schedule entry (advance P) any_request m n m'" and "unused m"
  shows "replay (log_events m') Map.empty = Some (instances (shared m'))
    \<and> length (calls m') = length (requests m')
    \<and> (\<forall>k < length (requests m'). explains P (requests m' ! k) (calls m' ! k) (events_of k (log m')))"
  using threads.schedule_inv [OF assms(1) unused_inv(1) [OF assms(2)]]
  by (simp add: go_inv_def history_inv_def)

text \<open>
  C14: handles are unique and an instance is taken down once: among any number of concurrent calls no
  two starts publish the same handle, no two disposes take out the same instance, the table holds
  what was published and not taken out, and what a dispose is taking down is no longer in it.
\<close>

theorem concurrent_instances_once:
  assumes "schedule entry (advance P) any_request m n m'" and "unused m"
  shows "distinct (all_of inserted_id (log_events m')) \<and> distinct (all_of removed_id (log_events m'))
    \<and> dom (instances (shared m')) = set (all_of inserted_id (log_events m')) - set (all_of removed_id (log_events m'))
    \<and> distinct (all_of start_id (calls m') @ all_of taken_down (calls m'))
    \<and> set (all_of start_id (calls m') @ all_of taken_down (calls m')) \<inter> dom (instances (shared m')) = {}"
proof -
  from threads.schedule_inv [OF assms(1) unused_inv(1) [OF assms(2)]] have "ids_inv m'"
    by (simp add: go_inv_def)
  then show ?thesis unfolding ids_inv_def ids_ok_def by auto
qed


text \<open>
  A call that is not interrupted is the exported function: the parts of a start, a dispose or a
  unary call, run one after the other, give what \<open>go_start\<close>, \<open>go_dispose\<close> and \<open>go_rpc\<close> give in one step.
\<close>

lemma uninterrupted_calls_are_atomic:
  "run_alone P 7 (entry r) l =
    (case r of
       StartReq options_json \<Rightarrow> map_option (\<lambda>(t, l'). (Text t, l')) (go_start P options_json l)
     | DisposeReq h \<Rightarrow> map_option (\<lambda>(t, l'). (Text t, l')) (go_dispose P h l)
     | RpcReq h m tp ts req \<Rightarrow> (case go_rpc P h m tp ts req l of (x, l') \<Rightarrow> Some (Reply x, l')))"
proof -
  have "(7::nat) = Suc (Suc (Suc (Suc (Suc (Suc (Suc 0))))))" by simp
  then have "run_alone P 7 c l = run_alone P (Suc (Suc (Suc (Suc (Suc (Suc (Suc 0))))))) c l" for c
    by (simp only:)
  then show ?thesis
    by (cases r) (simp_all only: entry.simps alone_start alone_dispose alone_rpc request.case)
qed

text \<open>
  In a program that respects ownership, as safe Rust does, no call and no dispose ever meets a
  handle that is not in the table, and a call that has found its instance runs while that instance is
  still in the table: its connection is not closed under it.
\<close>

lemma owned_calls_meet_live_instances:
  assumes "schedule entry (advance P) rust_request m n m'" and "unused m"
  shows "(\<forall>h. Looked h None \<notin> set (log_events m') \<and> Removed h None \<notin> set (log_events m'))
    \<and> (\<forall>h md name ty req i. Invoke h md name ty req i \<in> set (calls m') \<longrightarrow> instances (shared m') h = Some i)"
proof -
  from rust.schedule_inv [OF assms(1)] unused_inv [OF assms(2)] have "owned_inv m'" by blast
  then show ?thesis by (auto simp: owned_inv_def current_target_def)
qed


section \<open>An example\<close>

text \<open>The schedule of the last property is one of the others too.\<close>

lemma race_schedule:
  obtains n m where "schedule entry (advance sample_packages) any_request untouched n m"
    and "length (requests m) = 3" and "dom (instances (shared m)) = {1}"
proof -
  have "allowed any_request sample_packages race untouched"
    by (rule allowed_any) (simp add: untouched_def race_def)
  from play_schedule [OF _ this schedule.no_step] race_outcome that show thesis
    by (metis length_Cons list.size(3) numeral_3_eq_3)
qed

theorem concurrent_calls_linearizable_witness:
  "\<exists>m. length (calls m) = 3 \<and> dom (instances (shared m)) = {1}
    \<and> replay (log_events (m :: string list go_machine)) Map.empty = Some (instances (shared m))"
proof -
  obtain n m where m: "schedule entry (advance sample_packages) any_request untouched n m"
    "length (requests m) = 3" "dom (instances (shared m)) = {1}" by (rule race_schedule)
  from concurrent_calls_linearizable [OF m(1) untouched_unused] m(2,3) show ?thesis by auto
qed

theorem concurrent_instances_once_witness:
  "\<exists>m. dom (instances (shared (m :: string list go_machine))) = {1}
    \<and> {1} = set (all_of inserted_id (log_events m)) - set (all_of removed_id (log_events m))"
proof -
  obtain n m where m: "schedule entry (advance sample_packages) any_request untouched n m"
    "dom (instances (shared m)) = {1}" by (rule race_schedule)
  from concurrent_instances_once [OF m(1) untouched_unused] m(2) show ?thesis by auto
qed


text \<open>A Rust program that starts an instance and is in the middle of a call on it.\<close>

definition start_and_call :: "action list" where
  "start_and_call = [Ask (StartReq None), Go 0, Go 0, Go 0, Go 0, Go 0,
     Ask (RpcReq 1 (full_method_name ''SchemaService'' ''ReadSchema'') None None []), Go 1]"

lemma plain_parts:
  "begin_start None l = (CreateServer zero_options (next_id l + 1) (blank_instance (next_ctx l)),
     l\<lparr>next_ctx := Suc (next_ctx l), next_id := next_id l + 1\<rparr>)"
  "create_server sample_packages zero_options n i l
     = (MetricsServer zero_options n (i\<lparr>server := 2\<rparr>), l\<lparr>world := world l @ [''new datastore'', ''new server'']\<rparr>)"
  "metrics_part sample_packages zero_options n i l = (Serve n i, l)"
  by (simp_all add: begin_start_def parse_start_options_def remote_engine_def go_engine_def zero_options_def
      create_server_def sample_packages_def logging_def try_world_def metrics_part_def with_metrics_server_def)

lemma read_schema_part: "lookup_part h (full_method_name ''SchemaService'' ''ReadSchema'') None None [] l =
    ((case instances l h of
        None \<Rightarrow> Answered (Reply (Inl (invalid_handle h)))
      | Some i \<Rightarrow> Invoke h [] (full_method_name ''SchemaService'' ''ReadSchema'') ''ReadSchemaRequest'' [] i),
     [Looked h (instances l h)])"
  by (simp add: lookup_part_def full_method_name_def c_text_def rpc_messages_def trace_metadata_def go_string_def
      split: option.split)

lemma start_and_call_outcome:
  "\<exists>m i. play sample_packages start_and_call untouched = Some m \<and> allowed rust_request sample_packages start_and_call untouched
    \<and> Invoke 1 [] (full_method_name ''SchemaService'' ''ReadSchema'') ''ReadSchemaRequest'' [] i \<in> set (calls m)"
  by (simp add: start_and_call_def untouched_def make_def turn_def plain_parts quiet_def empty_lib_def serve_traced
      read_schema_part rust_request_def any_request_def)

lemma owned_calls_meet_live_instances_example:
  "\<exists>n m i. schedule entry (advance sample_packages) rust_request untouched n m
    \<and> Invoke 1 [] (full_method_name ''SchemaService'' ''ReadSchema'') ''ReadSchemaRequest'' [] i \<in> set (calls m)
    \<and> instances (shared m) 1 = Some i"
proof -
  obtain m i where m: "play sample_packages start_and_call untouched = Some m"
    "allowed rust_request sample_packages start_and_call untouched"
    and i: "Invoke 1 [] (full_method_name ''SchemaService'' ''ReadSchema'') ''ReadSchemaRequest'' [] i \<in> set (calls m)"
    using start_and_call_outcome by blast
  from play_schedule [OF m schedule.no_step] obtain n where
    s: "schedule entry (advance sample_packages) rust_request untouched n m" by blast
  from owned_calls_meet_live_instances [OF s untouched_unused] i s show ?thesis by blast
qed

end
