(* ===== verification/Trace_Context.thy ===== *)
theory Trace_Context
  imports Go_Library
begin

text \<open>
  The caller's W3C trace context: \<open>current\<close> and \<open>interceptor\<close> of \<open>src/rust/src/trace_context.rs\<close>,
  and \<open>forwardTraceContext\<close> of \<open>src/shared/c/streaming_proxy.go\<close>, which takes over where the
  interceptor ends.  The span of the \<open>opentelemetry\<close> crate is a record of what the code asks of it;
  the check of \<open>MetadataValue::try_from\<close> is a predicate on text.  The lemmas show the format of a
  \<open>traceparent\<close>, that the interceptor keeps what a call already carries, and that a streaming call
  and a unary call reach the server with the same metadata.
\<close>

section \<open>The current context\<close>

text \<open>What \<open>SpanContext\<close> answers: the ids are their \<open>Display\<close> texts, the state its header.\<close>

record span_context =
  is_valid :: bool
  trace_id :: string
  span_id :: string
  trace_flags :: u8
  trace_state :: string

text \<open>The first argument is the feature \<open>opentelemetry\<close>, the second the span of the current context.\<close>

definition current :: "bool \<Rightarrow> span_context \<Rightarrow> trace_context" where
  "current otel span =
     (if \<not> otel then trace_default
      else if \<not> is_valid span then trace_default
      else
        (let header = trace_state span
         in \<lparr>traceparent = Some (''00-'' @ trace_id span @ ''-'' @ span_id span @ ''-''
               @ hex02 (trace_flags span)),
             tracestate = (if header \<noteq> [] then Some header else None)\<rparr>))"

section \<open>The interceptor\<close>

text \<open>The metadata of a request, by key; a key may have several values.\<close>

type_synonym metadata = "string \<rightharpoonup> string list"

record 'e request =
  metadata :: metadata
  extensions :: 'e

definition TRACEPARENT :: string where
  "TRACEPARENT = ''traceparent''"

definition TRACESTATE :: string where
  "TRACESTATE = ''tracestate''"

lemma header_names [simp]: "TRACEPARENT \<noteq> TRACESTATE" "TRACESTATE \<noteq> TRACEPARENT"
  by (simp_all add: TRACEPARENT_def TRACESTATE_def)

text \<open>One turn of the loop: a value that is no metadata value is left out.\<close>

definition insert_header ::
    "(string \<Rightarrow> bool) \<Rightarrow> string \<times> string option \<Rightarrow> metadata \<Rightarrow> metadata" where
  "insert_header valid kv md =
     (case snd kv of
        None \<Rightarrow> md
      | Some v \<Rightarrow> if valid v then md(fst kv \<mapsto> [v]) else md)"

definition interceptor ::
    "(string \<Rightarrow> bool) \<Rightarrow> bool \<Rightarrow> span_context \<Rightarrow> 'e request \<Rightarrow> 'st + 'e request" where
  "interceptor valid otel span request =
     (if metadata request TRACEPARENT \<noteq> None then Inr request
      else
        (let trace = current otel span
         in Inr (request\<lparr>metadata := fold (insert_header valid)
              [(TRACEPARENT, traceparent trace), (TRACESTATE, tracestate trace)]
              (metadata request)\<rparr>)))"

section \<open>The streaming proxy\<close>

fun join_commas :: "string list \<Rightarrow> string" where
  "join_commas [] = []"
| "join_commas [v] = v"
| "join_commas (v # vs) = v @ '','' @ join_commas vs"

text \<open>\<open>forwardTraceContext\<close>: the first \<open>traceparent\<close>, the \<open>tracestate\<close> values joined in order.\<close>

definition forward_trace_context :: "metadata \<Rightarrow> (string \<times> string) list" where
  "forward_trace_context md =
     (let tp = (case md TRACEPARENT of Some (v # vs) \<Rightarrow> v | _ \<Rightarrow> []);
          ts = join_commas (case md TRACESTATE of Some vs \<Rightarrow> vs | None \<Rightarrow> [])
      in trace_metadata tp ts)"

section \<open>The shape of a traceparent\<close>

text \<open>Documented of \<open>TraceId\<close> and \<open>SpanId\<close>: 32 and 16 lower-case hexadecimal digits.\<close>

definition span_ok :: "span_context \<Rightarrow> bool" where
  "span_ok span \<longleftrightarrow> length (trace_id span) = 32 \<and> length (span_id span) = 16
     \<and> list_all is_hex (trace_id span) \<and> list_all is_hex (span_id span)"

text \<open>A reader of version 00 of the W3C format: the fields at their fixed places.\<close>

definition parse_traceparent :: "string \<Rightarrow> (string \<times> string \<times> u8) option" where
  "parse_traceparent t =
     (if length t = 55 \<and> take 3 t = ''00-'' \<and> t ! 35 = CHR ''-'' \<and> t ! 52 = CHR ''-''
         \<and> list_all is_hex (take 32 (drop 3 t) @ take 16 (drop 36 t) @ drop 53 t)
      then Some (take 32 (drop 3 t), take 16 (drop 36 t), unhex02 (drop 53 t)) else None)"

lemma traceparent_parts:
  assumes "length a = 32" and "length b = 16" and "length c = 2"
  defines "t \<equiv> ''00-'' @ a @ ''-'' @ b @ ''-'' @ c"
  shows "length t = 55" "take 3 t = ''00-''" "t ! 35 = CHR ''-''" "t ! 52 = CHR ''-''"
    "take 32 (drop 3 t) = a" "take 16 (drop 36 t) = b" "drop 53 t = c"
  using assms by (simp_all add: nth_append numeral_eq_Suc)

lemma traceparent_Some:
  "is_valid span \<Longrightarrow> traceparent (current True span)
     = Some (''00-'' @ trace_id span @ ''-'' @ span_id span @ ''-'' @ hex02 (trace_flags span))"
  by (simp add: current_def Let_def)

lemma current_without_span: "\<not> otel \<or> \<not> is_valid span \<Longrightarrow> current otel span = trace_default"
  by (auto simp: current_def)

lemma interceptor_keeps:
  "metadata request TRACEPARENT \<noteq> None \<Longrightarrow> interceptor valid otel span request = Inr request"
  by (simp add: interceptor_def)

lemma interceptor_adds:
  assumes "metadata request TRACEPARENT = None"
  shows "interceptor valid otel span request
    = Inr (request\<lparr>metadata :=
        insert_header valid (TRACESTATE, tracestate (current otel span))
          (insert_header valid (TRACEPARENT, traceparent (current otel span)) (metadata request))\<rparr>)"
  using assms by (simp add: interceptor_def Let_def)

lemma insert_header_other:
  "k \<noteq> fst kv \<Longrightarrow> insert_header valid kv md k = md k"
  by (simp add: insert_header_def split: option.split)

lemma insert_header_same:
  "insert_header valid (k, v) md k
     = (case v of None \<Rightarrow> md k | Some t \<Rightarrow> if valid t then Some [t] else md k)"
  by (simp add: insert_header_def split: option.split)

lemmas header_simps = insert_header_other insert_header_same

lemma go_string_Some: "NUL \<notin> set t \<Longrightarrow> go_string (Some t) = t"
  by (simp add: go_string_def c_text_id)

lemma go_string_None [simp]: "go_string None = []"
  by (simp add: go_string_def)

lemma current_state_nonempty: "tracestate (current otel span) \<noteq> Some []"
  by (simp add: current_def trace_default_def Let_def)

lemma current_parent_None:
  "traceparent (current otel span) = None \<Longrightarrow> tracestate (current otel span) = None"
  by (auto simp: current_def trace_default_def Let_def split: if_splits)

section \<open>Properties\<close>

text \<open>
  The interceptor never fails; a request that carries a traceparent is returned unchanged, and
  of any other request only the two trace headers can change.
\<close>

lemma interceptor_frame:
  "\<exists>r. (interceptor valid otel span request :: 'st + 'e request) = Inr r
     \<and> (metadata request TRACEPARENT \<noteq> None \<longrightarrow> r = request)
     \<and> extensions r = extensions request
     \<and> (\<forall>k. k \<notin> {TRACEPARENT, TRACESTATE} \<longrightarrow> metadata r k = metadata request k)"
proof (cases "metadata request TRACEPARENT = None")
  case True
  then show ?thesis by (auto simp: interceptor_adds header_simps)
next
  case False
  then show ?thesis by (simp add: interceptor_keeps)
qed

lemma interceptor_frame_example:
  "\<exists>r. (interceptor (\<lambda>_. True) True \<lparr>is_valid = True, trace_id = ''a'', span_id = ''b'', trace_flags = 1,
        trace_state = []\<rparr> \<lparr>metadata = [TRACEPARENT \<mapsto> [''x'']], extensions = ()\<rparr> :: unit + unit request)
     = Inr r \<and> metadata r TRACEPARENT = Some [''x''] \<and> metadata r ''k'' = None"
proof -
  let ?q = "\<lparr>metadata = [TRACEPARENT \<mapsto> [''x'']], extensions = ()\<rparr>"
  from interceptor_frame [of "\<lambda>_. True" True "\<lparr>is_valid = True, trace_id = ''a'', span_id = ''b'',
      trace_flags = 1, trace_state = []\<rparr>" ?q]
  obtain r where r: "(interceptor (\<lambda>_. True) True \<lparr>is_valid = True, trace_id = ''a'', span_id = ''b'',
      trace_flags = 1, trace_state = []\<rparr> ?q :: unit + unit request) = Inr r"
    and keep: "metadata ?q TRACEPARENT \<noteq> None \<longrightarrow> r = ?q" by blast
  from keep have "r = ?q" by simp
  moreover have "''k'' \<noteq> TRACEPARENT" by (simp add: TRACEPARENT_def)
  ultimately show ?thesis using r by simp
qed

text \<open>
  Under a valid span the traceparent is a well-formed version 00 header, and reading it gives
  back the span's ids and flags.
\<close>

lemma traceparent_round_trip:
  assumes "is_valid span" and "span_ok span"
  shows "\<exists>t. traceparent (current True span) = Some t
    \<and> parse_traceparent t = Some (trace_id span, span_id span, trace_flags span)"
proof -
  let ?h = "hex02 (trace_flags span)"
  from assms(2) have len: "length (trace_id span) = 32" "length (span_id span) = 16"
    and hex: "list_all is_hex (trace_id span)" "list_all is_hex (span_id span)"
    by (simp_all add: span_ok_def)
  have h: "length ?h = 2" "list_all is_hex ?h"
    by (simp_all add: hex02_props list_all_iff)
  note parts = traceparent_parts [OF len h(1)]
  show ?thesis
    unfolding traceparent_Some [OF assms(1)]
    by (rule exI, rule conjI, rule refl)
      (simp only: parse_traceparent_def parts, simp add: hex h unhex02_hex02)
qed

lemma traceparent_round_trip_example:
  "\<exists>t. traceparent (current True \<lparr>is_valid = True, trace_id = replicate 32 (CHR ''1''),
        span_id = replicate 16 (CHR ''2''), trace_flags = 1, trace_state = []\<rparr>) = Some t
     \<and> parse_traceparent t = Some (replicate 32 (CHR ''1''), replicate 16 (CHR ''2''), 1)"
  using traceparent_round_trip [of "\<lparr>is_valid = True, trace_id = replicate 32 (CHR ''1''),
        span_id = replicate 16 (CHR ''2''), trace_flags = 1, trace_state = []\<rparr>"]
  by (simp add: span_ok_def is_hex_def is_digit_def list_all_iff)

text \<open>
  C37: a streaming call sent through the interceptor and the proxy reaches the server with the same
  trace metadata as a unary call, whose context crosses as two C strings.
\<close>

theorem streaming_trace_as_unary:
  assumes "metadata request TRACEPARENT = None" and "metadata request TRACESTATE = None"
    and "\<And>t. t \<in> set_option (traceparent (current otel span)) \<union> set_option (tracestate (current otel span))
      \<Longrightarrow> valid t \<and> NUL \<notin> set t"
    and "(interceptor valid otel span request :: 'st + 'e request) = Inr r"
  shows "forward_trace_context (metadata r)
    = trace_metadata (go_string (traceparent (current otel span)))
        (go_string (tracestate (current otel span)))"
  using assms current_parent_None [of otel span]
  by (cases "traceparent (current otel span)"; cases "tracestate (current otel span)")
    (auto simp: interceptor_adds forward_trace_context_def header_simps go_string_Some)

theorem streaming_trace_as_unary_witness:
  "forward_trace_context (metadata (projr (interceptor (\<lambda>_. True) True
        \<lparr>is_valid = True, trace_id = ''a'', span_id = ''b'', trace_flags = 1, trace_state = ''v=1''\<rparr>
        \<lparr>metadata = Map.empty, extensions = ()\<rparr> :: unit + unit request)))
     = [(''traceparent'', ''00-a-b-01''), (''tracestate'', ''v=1'')]"
proof -
  let ?s = "\<lparr>is_valid = True, trace_id = ''a'', span_id = ''b'', trace_flags = 1, trace_state = ''v=1''\<rparr>"
  let ?q = "\<lparr>metadata = Map.empty, extensions = ()\<rparr>"
  have c: "current True ?s = \<lparr>traceparent = Some ''00-a-b-01'', tracestate = Some ''v=1''\<rparr>"
    by (simp add: current_def) code_simp
  obtain r where r: "(interceptor (\<lambda>_. True) True ?s ?q :: unit + unit request) = Inr r"
    by (simp add: interceptor_adds)
  have nul: "NUL \<notin> set ''00-a-b-01''" "NUL \<notin> set ''v=1''" by simp_all
  then have "True \<and> NUL \<notin> set t"
    if "t \<in> set_option (traceparent (current True ?s)) \<union> set_option (tracestate (current True ?s))" for t
    using that by (auto simp only: c trace_context.simps option.set)
  from streaming_trace_as_unary [OF _ _ this r] show ?thesis
    by (simp add: r c go_string_def c_text_def trace_metadata_def)
qed

end
