(* ===== verification/Embedded.thy ===== *)
theory Embedded
  imports Trace_Context Sample_Packages
begin

text \<open>
  The public API of the crate: \<open>src/rust/src/spicedb.rs\<close> and the error type of \<open>src/rust/src/lib.rs\<close>.
  A client function takes the extern block (\<open>'l ffi\<close>), \<open>serde_json\<close> (\<open>serde\<close>) and, for unary calls,
  the current span; its result is \<open>None\<close> only for undefined behaviour or a wait that never ends.
  The protobuf codecs are arguments.  The lemmas run the client on the Go library of \<open>Go_Library\<close>.
\<close>

section \<open>Errors\<close>

datatype spicedb_error =
  ModuleLoad string
| Runtime string
| Protocol string
| SpiceDB string

fun error_text :: "spicedb_error \<Rightarrow> string" where
  "error_text (ModuleLoad e) = ''failed to load module: '' @ e"
| "error_text (Runtime e) = ''runtime error: '' @ e"
| "error_text (Protocol e) = ''protocol error: '' @ e"
| "error_text (SpiceDB e) = ''SpiceDB error: '' @ e"

type_synonym 'a db_result = "spicedb_error + 'a"

section \<open>Responses and options\<close>

record c_response =
  success :: bool
  error :: "string option"
  data :: "json option"

record start_options =
  datastore :: "string option"
  datastore_uri :: "string option"
  spanner_credentials_file :: "string option"
  spanner_emulator_host :: "string option"
  mysql_table_prefix :: "string option"
  metrics_enabled :: "bool option"
  datastore_metrics_enabled :: "bool option"
  cache_metrics_enabled :: "bool option"
  otlp_endpoint :: "string option"
  otlp_service_name :: "string option"
  metrics_port :: "u16 option"
  metrics_host :: "string option"

definition default_options :: start_options where
  "default_options =
     \<lparr>datastore = None, datastore_uri = None, spanner_credentials_file = None,
      spanner_emulator_host = None, mysql_table_prefix = None, metrics_enabled = None,
      datastore_metrics_enabled = None, cache_metrics_enabled = None, otlp_endpoint = None,
      otlp_service_name = None, metrics_port = None, metrics_host = None\<rparr>"

text \<open>One member of the derived \<open>Serialize\<close>, under \<open>skip_serializing_if\<close>.\<close>

definition member :: "string \<Rightarrow> ('a \<Rightarrow> json) \<Rightarrow> 'a option \<Rightarrow> (string \<times> json) list" where
  "member k f v = (case v of None \<Rightarrow> [] | Some x \<Rightarrow> [(k, f x)])"

definition start_options_json :: "start_options \<Rightarrow> json" where
  "start_options_json opts = JObj
     (member ''datastore'' JStr (datastore opts)
      @ member ''datastore_uri'' JStr (datastore_uri opts)
      @ member ''spanner_credentials_file'' JStr (spanner_credentials_file opts)
      @ member ''spanner_emulator_host'' JStr (spanner_emulator_host opts)
      @ member ''mysql_table_prefix'' JStr (mysql_table_prefix opts)
      @ member ''metrics_enabled'' JBool (metrics_enabled opts)
      @ member ''datastore_metrics_enabled'' JBool (datastore_metrics_enabled opts)
      @ member ''cache_metrics_enabled'' JBool (cache_metrics_enabled opts)
      @ member ''otlp_endpoint'' JStr (otlp_endpoint opts)
      @ member ''otlp_service_name'' JStr (otlp_service_name opts)
      @ member ''metrics_port'' (\<lambda>p. JInt (uint p)) (metrics_port opts)
      @ member ''metrics_host'' JStr (metrics_host opts))"

text \<open>\<open>serde_json::to_string\<close> and \<open>serde_json::from_str\<close> at the types the crate uses; an error is the
  text of \<open>serde_json::Error\<close>.\<close>

record serde =
  to_string :: "json \<Rightarrow> string + string"
  from_str :: "string \<Rightarrow> string + c_response"

definition parse_json_response :: "serde \<Rightarrow> string \<Rightarrow> json db_result" where
  "parse_json_response S response_str =
     and_then (map_err (\<lambda>e. Protocol (''invalid JSON: '' @ e @ '' (raw: '' @ response_str @ '')''))
                (from_str S response_str))
       (\<lambda>response.
          if success response then Inr (unwrap_or (data response) JNull)
          else Inl (SpiceDB (unwrap_or (error response) ''unknown error'')))"

definition db_err :: "rpc_error \<Rightarrow> spicedb_error" where
  "db_err e = SpiceDB (rpc_error_text e)"

section \<open>Starting and dropping an instance\<close>

record embedded =
  db_handle :: u64
  streaming_address :: string
  streaming_transport :: string

definition embedded_from :: "json \<Rightarrow> embedded db_result" where
  "embedded_from v =
     and_then (ok_or (Option.bind (json_get v ''handle'') json_as_u64)
        (Protocol ''missing handle in start response'')) (\<lambda>h.
     and_then (ok_or (Option.bind (json_get v ''streaming_address'') json_as_str)
        (Protocol ''missing streaming_address in start response'')) (\<lambda>a.
     and_then (ok_or (Option.bind (json_get v ''streaming_transport'') json_as_str)
        (Protocol ''missing streaming_transport in start response'')) (\<lambda>t.
     Inr \<lparr>db_handle = h, streaming_address = a, streaming_transport = t\<rparr>)))"

definition start ::
    "'l ffi \<Rightarrow> serde \<Rightarrow> start_options option \<Rightarrow> 'l process \<Rightarrow> (embedded db_result \<times> 'l process) option" where
  "start F S options s =
     (let opts = unwrap_or options default_options
      in case to_string S (start_options_json opts) of
           Inl e \<Rightarrow> Some (Inl (Protocol (''serialize options: '' @ e)), s)
         | Inr json \<Rightarrow> do {
             (r, s') \<leftarrow> sys_start F (Some json) s;
             Some (and_then (map_err Runtime r)
               (\<lambda>response_str. and_then (parse_json_response S response_str) embedded_from), s') })"

text \<open>\<open>Drop\<close>: the result of \<open>dispose\<close> is ignored.\<close>

definition drop_db :: "'l ffi \<Rightarrow> embedded \<Rightarrow> 'l process \<Rightarrow> 'l process option" where
  "drop_db F db s = map_option snd (sys_dispose F (db_handle db) s)"

text \<open>The request messages the bootstrap builds (\<open>authzed.api.v1\<close>), the enum with its numbers.\<close>

datatype operation = Unspecified | Create | Touch | Delete

fun operation_i32 :: "operation \<Rightarrow> i32" where
  "operation_i32 Unspecified = 0"
| "operation_i32 Create = 1"
| "operation_i32 Touch = 2"
| "operation_i32 Delete = 3"

record write_schema_request =
  schema_text :: string

record 'r relationship_update =
  operation :: i32
  relationship :: "'r option"

record ('r, 'p, 'm) write_relationships_request =
  updates :: "'r relationship_update list"
  optional_preconditions :: "'p list"
  optional_transaction_metadata :: "'m option"

definition bootstrap_updates :: "'r list \<Rightarrow> ('r, 'p, 'm) write_relationships_request" where
  "bootstrap_updates relationships =
     \<lparr>updates = map (\<lambda>r. \<lparr>operation = operation_i32 Touch, relationship = Some r\<rparr>) relationships,
      optional_preconditions = [], optional_transaction_metadata = None\<rparr>"

text \<open>The two guarded writes of \<open>start_with_schema\<close>.\<close>

definition bootstrap_schema where
  "bootstrap_schema F CS db schema s =
     (if schema \<noteq> [] then
        map_option (map_prod (\<lambda>r. map_err db_err (map_sum id (\<lambda>_. ()) r)) id)
          (write_schema F CS (db_handle db) \<lparr>schema_text = schema\<rparr> s)
      else Some (Inr (), s))"

definition bootstrap_relationships where
  "bootstrap_relationships F CR db relationships s =
     (if relationships \<noteq> [] then
        map_option (map_prod (\<lambda>r. map_err db_err (map_sum id (\<lambda>_. ()) r)) id)
          (write_relationships F CR (db_handle db) (bootstrap_updates relationships) s)
      else Some (Inr (), s))"

text \<open>An early return drops \<open>db\<close>, which disposes of the instance.\<close>

definition start_with_schema ::
    "'l ffi \<Rightarrow> serde \<Rightarrow> (write_schema_request, 'a) codec \<Rightarrow>
     (('r, 'p, 'm) write_relationships_request, 'b) codec \<Rightarrow> string \<Rightarrow> 'r list \<Rightarrow>
     start_options option \<Rightarrow> 'l process \<Rightarrow> (embedded db_result \<times> 'l process) option" where
  "start_with_schema F S CS CR schema relationships options s = do {
     (r, s1) \<leftarrow> start F S options s;
     (case r of
        Inl e \<Rightarrow> Some (Inl e, s1)
      | Inr db \<Rightarrow> do {
          (r1, s2) \<leftarrow> bootstrap_schema F CS db schema s1;
          (case r1 of
             Inl e \<Rightarrow> do { s3 \<leftarrow> drop_db F db s2; Some (Inl e, s3) }
           | Inr _ \<Rightarrow> do {
               (r2, s3) \<leftarrow> bootstrap_relationships F CR db relationships s2;
               (case r2 of
                  Inl e \<Rightarrow> do { s4 \<leftarrow> drop_db F db s3; Some (Inl e, s4) }
                | Inr _ \<Rightarrow> Some (Inr db, s3)) }) }) }"

definition new_db where
  "new_db F S CS CR schema relationships options s =
     start_with_schema F S CS CR schema relationships options s"

section \<open>The clients\<close>

record memory_permissions_client =
  permissions_handle :: u64

record memory_schema_client =
  schema_handle :: u64

definition permissions_client :: "embedded \<Rightarrow> memory_permissions_client" where
  "permissions_client db = \<lparr>permissions_handle = db_handle db\<rparr>"

definition schema_client :: "embedded \<Rightarrow> memory_schema_client" where
  "schema_client db = \<lparr>schema_handle = db_handle db\<rparr>"

text \<open>\<open>call\<close>: a unary method under the current trace context.\<close>

definition call ::
    "'l ffi \<Rightarrow> bool \<Rightarrow> span_context \<Rightarrow> ('q, 'a) codec \<Rightarrow> u64 \<Rightarrow> string \<Rightarrow> 'q \<Rightarrow> 'l process \<Rightarrow>
     ('a db_result \<times> 'l process) option" where
  "call F otel span C handle method request s =
     map_option (map_prod (map_err db_err) id)
       (transport_call F C handle method (current otel span) request s)"

definition client_check_permission where
  "client_check_permission F otel span C client request =
     call F otel span C (permissions_handle client) CHECK_PERMISSION request"

definition client_write_relationships where
  "client_write_relationships F otel span C client request =
     call F otel span C (permissions_handle client) WRITE_RELATIONSHIPS request"

definition client_delete_relationships where
  "client_delete_relationships F otel span C client request =
     call F otel span C (permissions_handle client) DELETE_RELATIONSHIPS request"

definition client_check_bulk_permissions where
  "client_check_bulk_permissions F otel span C client request =
     call F otel span C (permissions_handle client) CHECK_BULK_PERMISSIONS request"

definition client_expand_permission_tree where
  "client_expand_permission_tree F otel span C client request =
     call F otel span C (permissions_handle client) EXPAND_PERMISSION_TREE request"

definition client_read_schema where
  "client_read_schema F otel span C client request =
     call F otel span C (schema_handle client) READ_SCHEMA request"

definition client_write_schema where
  "client_write_schema F otel span C client request =
     call F otel span C (schema_handle client) WRITE_SCHEMA request"

section \<open>The options reach the library\<close>

text \<open>Rust strings are valid UTF-8.\<close>

definition opt_valid :: "string option \<Rightarrow> bool" where
  "opt_valid v \<longleftrightarrow> (\<forall>t. v = Some t \<longrightarrow> utf8_valid t)"

definition options_valid :: "start_options \<Rightarrow> bool" where
  "options_valid opts \<longleftrightarrow>
     opt_valid (datastore opts) \<and> opt_valid (datastore_uri opts)
     \<and> opt_valid (spanner_credentials_file opts) \<and> opt_valid (spanner_emulator_host opts)
     \<and> opt_valid (mysql_table_prefix opts) \<and> opt_valid (otlp_endpoint opts)
     \<and> opt_valid (otlp_service_name opts) \<and> opt_valid (metrics_host opts)"

text \<open>What the library makes of the options: absent strings are empty, absent flags their zero.\<close>

definition go_options_of :: "start_options \<Rightarrow> go_options" where
  "go_options_of opts =
     \<lparr>Datastore = unwrap_or (datastore opts) [], DatastoreURI = unwrap_or (datastore_uri opts) [],
      SpannerCredentialsFile = unwrap_or (spanner_credentials_file opts) [],
      SpannerEmulatorHost = unwrap_or (spanner_emulator_host opts) [],
      MySQLTablePrefix = unwrap_or (mysql_table_prefix opts) [],
      MetricsEnabled = unwrap_or (metrics_enabled opts) False,
      DatastoreMetricsEnabled = datastore_metrics_enabled opts,
      CacheMetricsEnabled = cache_metrics_enabled opts,
      OTLPEndpoint = unwrap_or (otlp_endpoint opts) [],
      OTLPServiceName = unwrap_or (otlp_service_name opts) [],
      MetricsPort = unwrap_or (map_option uint (metrics_port opts)) 0,
      MetricsHost = unwrap_or (metrics_host opts) []\<rparr>"

lemma fold_names:
  "fold_name ''datastore'' = ''datastore''"
  "fold_name ''datastore_uri'' = ''datastore_uri''"
  "fold_name ''spanner_credentials_file'' = ''spanner_credentials_file''"
  "fold_name ''spanner_emulator_host'' = ''spanner_emulator_host''"
  "fold_name ''mysql_table_prefix'' = ''mysql_table_prefix''"
  "fold_name ''metrics_enabled'' = ''metrics_enabled''"
  "fold_name ''datastore_metrics_enabled'' = ''datastore_metrics_enabled''"
  "fold_name ''cache_metrics_enabled'' = ''cache_metrics_enabled''"
  "fold_name ''otlp_endpoint'' = ''otlp_endpoint''"
  "fold_name ''otlp_service_name'' = ''otlp_service_name''"
  "fold_name ''metrics_port'' = ''metrics_port''"
  "fold_name ''metrics_host'' = ''metrics_host''"
  by simp_all

lemma fold_member:
  "fold set_field (member k f v) g = (case v of None \<Rightarrow> g | Some x \<Rightarrow> set_field (k, f x) g)"
  by (simp add: member_def split: option.split)

lemma u16_range: "- (2 ^ 63) \<le> uint (p :: u16)" "uint (p :: u16) < 2 ^ 63"
proof -
  show "- (2 ^ 63) \<le> uint p" by (rule order_trans [of _ 0]) simp_all
  have "uint p < 2 ^ 16" using uint_lt2p [of p] by simp
  also have "(2 ^ 16 :: int) < 2 ^ 63" by simp
  finally show "uint p < 2 ^ 63" .
qed

lemma set_members:
  "fold set_field (member ''datastore'' JStr v) g = g\<lparr>Datastore := unwrap_or v (Datastore g)\<rparr>"
  "fold set_field (member ''datastore_uri'' JStr v) g = g\<lparr>DatastoreURI := unwrap_or v (DatastoreURI g)\<rparr>"
  "fold set_field (member ''spanner_credentials_file'' JStr v) g
     = g\<lparr>SpannerCredentialsFile := unwrap_or v (SpannerCredentialsFile g)\<rparr>"
  "fold set_field (member ''spanner_emulator_host'' JStr v) g
     = g\<lparr>SpannerEmulatorHost := unwrap_or v (SpannerEmulatorHost g)\<rparr>"
  "fold set_field (member ''mysql_table_prefix'' JStr v) g
     = g\<lparr>MySQLTablePrefix := unwrap_or v (MySQLTablePrefix g)\<rparr>"
  "fold set_field (member ''metrics_enabled'' JBool b) g
     = g\<lparr>MetricsEnabled := unwrap_or b (MetricsEnabled g)\<rparr>"
  "fold set_field (member ''datastore_metrics_enabled'' JBool b) g
     = g\<lparr>DatastoreMetricsEnabled := or_else b (DatastoreMetricsEnabled g)\<rparr>"
  "fold set_field (member ''cache_metrics_enabled'' JBool b) g
     = g\<lparr>CacheMetricsEnabled := or_else b (CacheMetricsEnabled g)\<rparr>"
  "fold set_field (member ''otlp_endpoint'' JStr v) g = g\<lparr>OTLPEndpoint := unwrap_or v (OTLPEndpoint g)\<rparr>"
  "fold set_field (member ''otlp_service_name'' JStr v) g
     = g\<lparr>OTLPServiceName := unwrap_or v (OTLPServiceName g)\<rparr>"
  "fold set_field (member ''metrics_port'' (\<lambda>p. JInt (uint p)) p) g
     = g\<lparr>MetricsPort := unwrap_or (map_option uint (p :: u16 option)) (MetricsPort g)\<rparr>"
  "fold set_field (member ''metrics_host'' JStr v) g = g\<lparr>MetricsHost := unwrap_or v (MetricsHost g)\<rparr>"
  unfolding fold_member
  by (simp_all only: set_field_def Let_def fst_conv snd_conv fold_names split: option.split)
    (simp_all add: set_str_def set_bool_def set_bool_ptr_def set_int_def u16_range [simplified])

lemma fold_start_options:
  assumes "start_options_json opts = JObj ms"
  shows "fold set_field ms zero_options = go_options_of opts"
proof -
  from assms have "ms = (case start_options_json opts of JObj ms \<Rightarrow> ms | _ \<Rightarrow> [])" by simp
  then show ?thesis
    by (simp only: start_options_json_def json.case fold_append o_apply set_members)
      (simp add: zero_options_def go_options_of_def)
qed

lemma members_all_member:
  "members_all P (member k f v) \<longleftrightarrow> (\<forall>x. v = Some x \<longrightarrow> P k \<and> json_all P (f x))"
  by (simp add: member_def split: option.split)

lemma option_names_valid:
  "utf8_valid ''datastore''" "utf8_valid ''datastore_uri''" "utf8_valid ''spanner_credentials_file''"
  "utf8_valid ''spanner_emulator_host''" "utf8_valid ''mysql_table_prefix''"
  "utf8_valid ''metrics_enabled''" "utf8_valid ''datastore_metrics_enabled''"
  "utf8_valid ''cache_metrics_enabled''" "utf8_valid ''otlp_endpoint''"
  "utf8_valid ''otlp_service_name''" "utf8_valid ''metrics_port''" "utf8_valid ''metrics_host''"
  by simp_all

lemma start_options_all:
  "options_valid opts \<Longrightarrow> json_all utf8_valid (start_options_json opts)"
  by (simp add: start_options_json_def members_all_member option_names_valid options_valid_def
      opt_valid_def del: utf8_valid.simps)

lemma start_options_obj: obtains ms where "start_options_json opts = JObj ms"
  by (simp add: start_options_json_def)

lemma parse_options_text:
  assumes "c_safe t" and "json_read t = Some (start_options_json opts)"
  shows "parse_start_options (Some t) = go_options_of opts"
proof -
  obtain ms where ms: "start_options_json opts = JObj ms" by (rule start_options_obj)
  have t: "c_text t = t" using assms(1) by (simp add: c_safe_def c_text_id)
  have "t \<noteq> []"
  proof
    assume "t = []"
    with assms(2) show False by (simp add: json_read_def)
  qed
  then show ?thesis
    by (simp add: parse_start_options_def t assms(2) ms fold_start_options [OF ms])
qed

section \<open>What the client needs of serde\<close>

text \<open>
  Documented of \<open>serde_json\<close>: it writes JSON, with the control characters escaped, and it reads the
  two kinds of response the library sends.
\<close>

definition serde_ok :: "serde \<Rightarrow> bool" where
  "serde_ok S \<longleftrightarrow>
     (\<forall>opts. options_valid opts \<longrightarrow>
        (\<exists>t. to_string S (start_options_json opts) = Inr t \<and> c_safe t
           \<and> json_read t = Some (start_options_json opts)))
     \<and> (\<forall>b e. from_str S (go_json (response_json b e None))
           = Inr \<lparr>success = b, error = map_option go_valid e, data = None\<rparr>)
     \<and> (\<forall>h a t. from_str S (go_json (response_json True None (Some (start_data h a t))))
           = Inr \<lparr>success = True, error = None, data = Some (start_data h (go_valid a) (go_valid t))\<rparr>)"

text \<open>A serde of that kind: the writer with the escapes RFC 8259 requires, and the JSON reader.\<close>

definition opt_string :: "json option \<Rightarrow> string + string option" where
  "opt_string v =
     (case v of None \<Rightarrow> Inr None | Some JNull \<Rightarrow> Inr None | Some (JStr s) \<Rightarrow> Inr (Some s)
      | Some _ \<Rightarrow> Inl ''invalid type: expected a string'')"

definition opt_value :: "json option \<Rightarrow> json option" where
  "opt_value v = (case v of Some JNull \<Rightarrow> None | _ \<Rightarrow> v)"

definition response_from :: "json \<Rightarrow> string + c_response" where
  "response_from v =
     (case json_get v ''success'' of
        Some (JBool b) \<Rightarrow>
          and_then (opt_string (json_get v ''error''))
            (\<lambda>e. Inr \<lparr>success = b, error = e, data = opt_value (json_get v ''data'')\<rparr>)
      | Some _ \<Rightarrow> Inl ''invalid type: expected a boolean''
      | None \<Rightarrow> Inl ''missing field `success`'')"

definition rfc_serde :: serde where
  "rfc_serde =
     \<lparr>to_string = (\<lambda>v. Inr (json_print plain_escape v)),
      from_str = (\<lambda>t. case json_read t of None \<Rightarrow> Inl ''expected value'' | Some v \<Rightarrow> response_from v)\<rparr>"

lemma response_from_json:
  "v \<noteq> Some JNull \<Longrightarrow>
   response_from (response_json b e v) = Inr \<lparr>success = b, error = e, data = v\<rparr>"
  by (cases e; cases v)
    (auto simp: response_json_def response_from_def opt_string_def opt_value_def split: json.split)

lemma start_data_all: "json_all (\<lambda>_. True) (start_data h a t)"
  by (simp add: start_data_def)

lemma start_data_map: "json_map go_valid (start_data h a t) = start_data h (go_valid a) (go_valid t)"
  by (simp add: start_data_def go_valid_id utf8_valid_ascii)

lemma start_data_not_null: "start_data h a t \<noteq> JNull"
  by (simp add: start_data_def)

lemma rfc_serde_ok: "serde_ok rfc_serde"
proof -
  have w: "\<exists>t. to_string rfc_serde (start_options_json opts) = Inr t \<and> c_safe t
      \<and> json_read t = Some (start_options_json opts)" if "options_valid opts" for opts
  proof -
    note v = start_options_all [OF that]
    have "c_safe (json_print plain_escape (start_options_json opts))"
      by (rule c_safe_json_print(1) [OF c_safe_plain_escape v])
    with json_read_print [OF escapes_plain v] v show ?thesis
      by (simp add: rfc_serde_def json_map_id(1) [OF _ v])
  qed
  have r: "from_str rfc_serde (go_json (response_json b e d))
      = Inr \<lparr>success = b, error = map_option go_valid e, data = map_option (json_map go_valid) d\<rparr>"
    if "\<forall>v. d = Some v \<longrightarrow> json_all (\<lambda>_. True) v \<and> json_map go_valid v \<noteq> JNull" for b e d
  proof -
    have "json_all (\<lambda>_. True) (response_json b e d)"
      using that by (simp add: response_json_all)
    from go_reads_back [OF this] that show ?thesis
      by (auto simp: rfc_serde_def go_json_def json_map_response response_from_json)
  qed
  show ?thesis
    unfolding serde_ok_def
    using w r [of None] r [of "Some (start_data h a t)" for h a t]
    by (simp add: start_data_all start_data_map start_data_not_null)
qed

section \<open>The client on the Go library\<close>

text \<open>The states the client keeps: a sound heap and a library whose waits end.\<close>

definition process_ok :: "'w golib process \<Rightarrow> bool" where
  "process_ok s \<longleftrightarrow> heap_ok (mem s) \<and> golib_ok (lib s)"

lemma process_ok_balanced: "balanced s s' \<Longrightarrow> golib_ok (lib s') \<Longrightarrow> process_ok s'"
  by (simp add: process_ok_def balanced_def)

text \<open>Handles in use are not above the last one given out.\<close>

definition handles_ok :: "'w golib \<Rightarrow> bool" where
  "handles_ok l \<longleftrightarrow> (\<forall>h \<in> dom (instances l). h \<le> next_id l)"

lemma next_handle_free:
  assumes "handles_ok l" and "next_id l \<noteq> - 1"
  shows "next_id l + 1 \<notin> dom (instances l)" and "next_id l < next_id l + 1"
proof -
  have "unat (- 1 :: u64) = 2 ^ 64 - 1" by (simp add: unsigned_minus_1_eq_mask mask_eq_exp_minus_1)
  moreover from assms(2) have "unat (next_id l) \<noteq> unat (- 1 :: u64)" by (simp add: word_unat_eq_iff)
  ultimately have "unat (next_id l) < 2 ^ 64 - 1" using unsigned_less [of "next_id l", where 'a = nat] by simp
  then have "unat (next_id l + 1) = unat (next_id l) + 1" by (simp add: unat_word_ariths)
  then have lt: "next_id l < next_id l + 1" by (simp add: word_less_nat_alt)
  then show "next_id l < next_id l + 1" .
  show "next_id l + 1 \<notin> dom (instances l)"
    using assms(1) lt leD unfolding handles_ok_def by blast
qed

lemma db_err_RpcError [simp]: "db_err (RpcError e) = SpiceDB e"
  by (simp add: db_err_def)

lemma parse_error_response:
  assumes "serde_ok S"
  shows "parse_json_response S (make_error m)
    = Inl (SpiceDB (if m = [] then ''unknown error'' else go_valid m))"
  using assms by (simp add: parse_json_response_def make_error_response serde_ok_def)

lemma parse_start_response:
  assumes "serde_ok S"
  shows "and_then (parse_json_response S (make_success (Some (start_data h a t)))) embedded_from
    = Inr \<lparr>db_handle = h, streaming_address = go_valid a, streaming_transport = go_valid t\<rparr>"
proof -
  have "and_then (parse_json_response S (make_success (Some (start_data h a t)))) embedded_from
      = embedded_from (start_data h (go_valid a) (go_valid t))"
    using assms by (simp add: parse_json_response_def make_success_response serde_ok_def)
  moreover have "0 \<le> uint h" "uint h < 2 ^ 64" using uint_lt2p [of h] by simp_all
  ultimately show ?thesis by (simp add: embedded_from_def start_data_def)
qed

lemma response_crosses:
  "utf8_lossy (c_text (make_error m)) = make_error m"
  "utf8_lossy (c_text (make_success (Some (start_data h a t)))) = make_success (Some (start_data h a t))"
  "utf8_lossy (c_text (make_success None)) = make_success None"
  unfolding make_error_response make_success_response go_json_def
  by (rule go_crosses, simp add: response_json_all start_data_all)+

definition transport_of :: "('m, 'w) packages \<Rightarrow> string" where
  "transport_of P = (if is_windows P then ''tcp'' else ''unix'')"

lemma transport_valid: "go_valid (transport_of P) = transport_of P"
  by (simp add: transport_of_def go_valid_id utf8_valid_ascii)

text \<open>How a start ends for the client: an error of the library and no instance, or one.\<close>

definition start_result ::
    "('m, 'w) packages \<Rightarrow> embedded db_result \<Rightarrow> 'w golib \<Rightarrow> 'w golib \<Rightarrow> bool" where
  "start_result P r l l' \<longleftrightarrow>
     (case r of
        Inl e \<Rightarrow> (\<exists>m. e = SpiceDB m) \<and> instances l' = instances l
          \<and> next_id l' \<in> {next_id l, next_id l + 1}
      | Inr db \<Rightarrow> db_handle db = next_id l + 1 \<and> streaming_transport db = transport_of P
          \<and> next_id l' = next_id l + 1
          \<and> (\<exists>i. instances l' = (instances l)(db_handle db \<mapsto> i) \<and> live_instance i
               \<and> streaming_address db = go_valid (streaming_addr i)))"

lemma start_on_go:
  assumes ok: "process_ok s" and serde: "serde_ok S"
    and opts: "options_valid (unwrap_or options default_options)"
  obtains t l r s' where "go_start P (Some t) (lib s) = Some (r, l)"
    and "parse_start_options (Some t) = go_options_of (unwrap_or options default_options)"
    and "start (go_ffi P esc) S options s
      = Some (and_then (parse_json_response S r) embedded_from, s')"
    and "balanced s s'" and "lib s' = l" and "golib_ok l"
    and "start_failed r (lib s) l \<or> start_succeeded P r (lib s) l"
proof -
  let ?o = "unwrap_or options default_options"
  from serde opts obtain t where t: "to_string S (start_options_json ?o) = Inr t" "c_safe t"
    "json_read t = Some (start_options_json ?o)" by (auto simp: serde_ok_def)
  from t(2) have nul: "\<forall>v. Some t = Some v \<longrightarrow> NUL \<notin> set v" by (simp add: c_safe_def)
  from ok have "heap_ok (mem s)" "golib_ok (lib s)" by (simp_all add: process_ok_def)
  from go.sys_start_law [OF this nul, of P esc] obtain r l s' where
    st: "go_start P (Some t) (lib s) = Some (r, l)"
    and sys: "sys_start (go_ffi P esc) (Some t) s = Some (Inr (utf8_lossy (c_text r)), s')"
    and s': "balanced s s'" "lib s' = l" "golib_ok l" by blast
  from st go_start_outcome [of P "Some t" "lib s"]
  have o: "start_failed r (lib s) l \<or> start_succeeded P r (lib s) l" by auto
  then have "utf8_lossy (c_text r) = r"
    by (auto simp: start_failed_def start_succeeded_def response_crosses)
  with sys have "start (go_ffi P esc) S options s
      = Some (and_then (parse_json_response S r) embedded_from, s')"
    by (simp add: start_def Let_def t(1))
  with that [OF st parse_options_text [OF t(2,3)] _ s' o] show thesis by simp
qed

lemma start_outcome:
  assumes "process_ok s" and "serde_ok S"
    and "options_valid (unwrap_or options default_options)"
  obtains r s' where "start (go_ffi P esc) S options s = Some (r, s')"
    and "balanced s s'" and "process_ok s'" and "start_result P r (lib s) (lib s')"
proof -
  from start_on_go [OF assms, of P esc] obtain l r s' where
    st: "start (go_ffi P esc) S options s = Some (and_then (parse_json_response S r) embedded_from, s')"
    and s': "balanced s s'" "lib s' = l" "golib_ok l"
    and o: "start_failed r (lib s) l \<or> start_succeeded P r (lib s) l" by metis
  from o have "start_result P (and_then (parse_json_response S r) embedded_from) (lib s) (lib s')"
  proof
    assume "start_failed r (lib s) l"
    with s'(2) show ?thesis
      by (auto simp: start_failed_def start_result_def parse_error_response [OF assms(2)])
  next
    assume "start_succeeded P r (lib s) l"
    with s'(2) show ?thesis
      by (auto simp: start_succeeded_def start_result_def parse_start_response [OF assms(2)]
          transport_of_def [symmetric] transport_valid)
  qed
  with that [OF st s'(1) process_ok_balanced] s' show thesis by blast
qed

lemma drop_outcome:
  assumes "process_ok s"
  obtains s' where "drop_db (go_ffi P esc) db s = Some s'" and "balanced s s'" and "process_ok s'"
    and "instances (lib s') = (instances (lib s))(db_handle db := None)"
    and "next_id (lib s') = next_id (lib s)"
proof -
  from assms have ok: "heap_ok (mem s)" "golib_ok (lib s)" by (simp_all add: process_ok_def)
  from go.sys_dispose_law [OF this, of P "db_handle db" esc] obtain t l s' where
    d: "go_dispose P (db_handle db) (lib s) = Some (t, l)"
    and sys: "sys_dispose (go_ffi P esc) (db_handle db) s = Some (Inr (utf8_lossy (c_text t)), s')"
    and s': "balanced s s'" "lib s' = l" "golib_ok l" by blast
  from go_dispose_ok [OF ok(2), of P "db_handle db"] d
  have "instances l = (instances (lib s))(db_handle db := None)" "next_id l = next_id (lib s)"
    by auto
  with sys s' that [of s'] process_ok_balanced [OF s'(1)] show thesis by (simp add: drop_db_def)
qed

section \<open>Unary calls on the Go library\<close>

text \<open>Documented of protobuf: a message is smaller than 2 GiB.\<close>

definition small_responses :: "('m, 'w) packages \<Rightarrow> bool" where
  "small_responses P \<longleftrightarrow> (\<forall>m bs. marshal P m = Inr bs \<longrightarrow> length bs < 2 ^ 31)"

definition trace_c_ok :: "trace_context \<Rightarrow> bool" where
  "trace_c_ok tr \<longleftrightarrow> (\<forall>t. traceparent tr = Some t \<longrightarrow> NUL \<notin> set t)
     \<and> (\<forall>t. tracestate tr = Some t \<longrightarrow> NUL \<notin> set t)"

text \<open>The specification of a unary call, on the state of the library alone.\<close>

definition lib_call ::
    "('m, 'w) packages \<Rightarrow> ('q, 'a) codec \<Rightarrow> u64 \<Rightarrow> string \<Rightarrow> trace_context \<Rightarrow> 'q \<Rightarrow> 'w golib \<Rightarrow>
     'a rpc_result \<times> 'w golib" where
  "lib_call P C h method tr request l =
     (if 2 ^ 31 \<le> length (encode C request)
      then (Inl (RpcError ''request too large for FFI (exceeds c_int::MAX)''), l)
      else
        (let (x, l') = go_rpc P h method (traceparent tr) (tracestate tr) (encode C request) l
         in (case x of
               Inl e \<Rightarrow> Inl (RpcError (utf8_lossy (c_text e)))
             | Inr bs \<Rightarrow> map_err RpcError (decode C bs), l')))"

lemma lib_call_frame:
  assumes "lib_call P C h m tr q l = (r, l')"
  shows "instances l' = instances l" "next_id l' = next_id l" "global_tracer l' = global_tracer l"
  using assms by (auto simp: lib_call_def dest: go_rpc_frame split: if_splits prod.splits)

lemma run_rpc_small:
  "small_responses P \<Longrightarrow> run_rpc P md h m ty req l = (Inr bs, l') \<Longrightarrow> length bs < 2 ^ 31"
  by (auto simp: run_rpc_def small_responses_def map_err_eq_Inr split: option.splits sum.splits prod.splits)

lemma go_rpc_small:
  "small_responses P \<Longrightarrow> go_rpc P h m tp ts req l = (Inr bs, l') \<Longrightarrow> length bs < 2 ^ 31"
  by (auto simp: go_rpc_def Let_def split: option.splits dest: run_rpc_small)

lemma transport_on_go:
  assumes ok: "process_ok s" and small: "small_responses P"
    and m: "NUL \<notin> set m" and tr: "trace_c_ok tr"
    and spec: "lib_call P C h m tr q (lib s) = (r, l')"
  obtains s' where "transport_call (go_ffi P esc) C h m tr q s = Some (r, s')"
    and "balanced s s'" and "process_ok s'" and "lib s' = l'"
proof -
  from m tr have args: "c_arguments (go_ffi P esc) m tr = Inr (m, traceparent tr, tracestate tr)"
    by (simp add: c_arguments_eq_Inr trace_c_ok_def)
  obtain x l where x: "go_rpc P h m (traceparent tr) (tracestate tr) (encode C q) (lib s) = (x, l)"
    by fastforce
  let ?big = "2 ^ 31 \<le> length (encode C q)"
  let ?o = "if ?big then Inl (RpcError ''request too large for FFI (exceeds c_int::MAX)'') else Inr x"
  have out: "call_outcome (go_rpc P) (go_ffi P esc) h m tr (encode C q) (lib s) = (?o, l')"
    using spec by (auto simp: call_outcome_def lib_call_def args x)
  have no_leak: "\<forall>y. ?o = Inr y \<longrightarrow> \<not> leaks y"
    using go_rpc_small [OF small, of h m] x by (cases x) (auto simp: leaks_small)
  from ok have "heap_ok (mem s)" "golib_ok (lib s)" by (simp_all add: process_ok_def)
  from go.transport_call_refines [OF this out] obtain s' where
    c: "transport_call (go_ffi P esc) C h m tr q s
      = Some (and_then (and_then ?o received) (\<lambda>bs. map_err RpcError (decode C bs)), s')"
    and s': "(\<forall>y. ?o = Inr y \<longrightarrow> \<not> leaks y) \<Longrightarrow> balanced s s'" "lib s' = l'" "golib_ok l'"
    by blast
  have "and_then (and_then ?o received) (\<lambda>bs. map_err RpcError (decode C bs)) = r"
    using spec x go_rpc_small [OF small, of h m "traceparent tr" "tracestate tr" "encode C q" "lib s"]
    by (cases x) (auto simp: lib_call_def received_small)
  with c s'(2,3) that [of s'] s'(1) [OF no_leak] show thesis
    by (simp add: process_ok_balanced)
qed

lemma method_no_NUL: "m \<in> set unary_methods \<Longrightarrow> NUL \<notin> set m"
  by (auto simp: unary_methods_def method_defs)

lemma methods_no_NUL [simp]:
  "NUL \<notin> set CHECK_PERMISSION" "NUL \<notin> set WRITE_RELATIONSHIPS" "NUL \<notin> set DELETE_RELATIONSHIPS"
  "NUL \<notin> set CHECK_BULK_PERMISSIONS" "NUL \<notin> set EXPAND_PERMISSION_TREE" "NUL \<notin> set READ_SCHEMA"
  "NUL \<notin> set WRITE_SCHEMA"
  by (simp_all add: method_no_NUL unary_methods_def)

lemma trace_default_ok [simp]: "trace_c_ok trace_default"
  by (simp add: trace_c_ok_def trace_default_def)

text \<open>A bootstrap step, specified on the library.\<close>

definition lib_step :: "bool \<Rightarrow> 'a rpc_result \<times> 'w golib \<Rightarrow> 'w golib \<Rightarrow> unit db_result \<times> 'w golib" where
  "lib_step needed rl l =
     (if needed then (map_err db_err (map_sum id (\<lambda>_. ()) (fst rl)), snd rl) else (Inr (), l))"

lemma bootstrap_schema_on_go:
  assumes "process_ok s" and "small_responses P"
    and "lib_step (schema \<noteq> []) (lib_call P CS (db_handle db) WRITE_SCHEMA trace_default
      \<lparr>schema_text = schema\<rparr> (lib s)) (lib s) = (r, l')"
  obtains s' where "bootstrap_schema (go_ffi P esc) CS db schema s = Some (r, s')"
    and "balanced s s'" and "process_ok s'" and "lib s' = l'"
proof (cases "schema = []")
  case True
  with assms that [of s] show thesis
    by (auto simp: bootstrap_schema_def lib_step_def process_ok_def)
next
  case False
  obtain q l where q: "lib_call P CS (db_handle db) WRITE_SCHEMA trace_default
    \<lparr>schema_text = schema\<rparr> (lib s) = (q, l)" by fastforce
  from transport_on_go [OF assms(1,2) _ trace_default_ok q, of esc] obtain s' where
    "transport_call (go_ffi P esc) CS (db_handle db) WRITE_SCHEMA trace_default
      \<lparr>schema_text = schema\<rparr> s = Some (q, s')" "balanced s s'" "process_ok s'" "lib s' = l"
    by auto
  with False assms(3) q that [of s'] show thesis
    by (simp add: bootstrap_schema_def write_schema_def lib_step_def)
qed

lemma bootstrap_relationships_on_go:
  assumes "process_ok s" and "small_responses P"
    and "lib_step (rels \<noteq> []) (lib_call P CR (db_handle db) WRITE_RELATIONSHIPS trace_default
      (bootstrap_updates rels) (lib s)) (lib s) = (r, l')"
  obtains s' where "bootstrap_relationships (go_ffi P esc) CR db rels s = Some (r, s')"
    and "balanced s s'" and "process_ok s'" and "lib s' = l'"
proof (cases "rels = []")
  case True
  with assms that [of s] show thesis
    by (auto simp: bootstrap_relationships_def lib_step_def process_ok_def)
next
  case False
  obtain q l where q: "lib_call P CR (db_handle db) WRITE_RELATIONSHIPS trace_default
    (bootstrap_updates rels) (lib s) = (q, l)" by fastforce
  from transport_on_go [OF assms(1,2) _ trace_default_ok q, of esc] obtain s' where
    "transport_call (go_ffi P esc) CR (db_handle db) WRITE_RELATIONSHIPS trace_default
      (bootstrap_updates rels) s = Some (q, s')" "balanced s s'" "process_ok s'" "lib s' = l"
    by auto
  with False assms(3) q that [of s'] show thesis
    by (simp add: bootstrap_relationships_def write_relationships_def lib_step_def)
qed

text \<open>
  The specification of \<open>start_with_schema\<close> after a successful start, on the library: the schema
  first, then the relationships, and disposal of the instance at the first failure.
\<close>

definition bootstrap_spec ::
    "('m, 'w) packages \<Rightarrow> (write_schema_request, 'a) codec \<Rightarrow>
     (('r, 'p, 'n) write_relationships_request, 'b) codec \<Rightarrow> string \<Rightarrow> 'r list \<Rightarrow> embedded \<Rightarrow>
     'w golib \<Rightarrow> (embedded db_result \<times> 'w golib) option" where
  "bootstrap_spec P CS CR schema rels db l =
     (let h = db_handle db;
          (r1, l1) = lib_step (schema \<noteq> [])
            (lib_call P CS h WRITE_SCHEMA trace_default \<lparr>schema_text = schema\<rparr> l) l;
          (r2, l2) = lib_step (rels \<noteq> [])
            (lib_call P CR h WRITE_RELATIONSHIPS trace_default (bootstrap_updates rels) l1) l1
      in case r1 of
           Inl e \<Rightarrow> map_option (\<lambda>(t, l'). (Inl e, l')) (go_dispose P h l1)
         | Inr _ \<Rightarrow>
             (case r2 of
                Inl e \<Rightarrow> map_option (\<lambda>(t, l'). (Inl e, l')) (go_dispose P h l2)
              | Inr _ \<Rightarrow> Some (Inr db, l2)))"

lemma drop_on_go:
  assumes "process_ok s"
  obtains t l s' where "go_dispose P (db_handle db) (lib s) = Some (t, l)"
    and "drop_db (go_ffi P esc) db s = Some s'" and "balanced s s'" and "process_ok s'"
    and "lib s' = l"
proof -
  from assms have ok: "heap_ok (mem s)" "golib_ok (lib s)" by (simp_all add: process_ok_def)
  from go.sys_dispose_law [OF this, of P "db_handle db" esc] obtain t l s' where
    d: "go_dispose P (db_handle db) (lib s) = Some (t, l)"
    and sys: "sys_dispose (go_ffi P esc) (db_handle db) s = Some (Inr (utf8_lossy (c_text t)), s')"
    and s': "balanced s s'" "lib s' = l" "golib_ok l" by blast
  with that [OF d _ s'(1)] process_ok_balanced [OF s'(1)] show thesis by (simp add: drop_db_def)
qed

lemma start_with_schema_on_go:
  assumes st: "start (go_ffi P esc) S options s = Some (Inr db, s1)"
    and bal: "balanced s s1" and ok: "process_ok s1" and small: "small_responses P"
  obtains r l s' where "bootstrap_spec P CS CR schema rels db (lib s1) = Some (r, l)"
    and "start_with_schema (go_ffi P esc) S CS CR schema rels options s = Some (r, s')"
    and "balanced s s'" and "process_ok s'" and "lib s' = l"
proof -
  obtain r1 l1 where r1: "lib_step (schema \<noteq> []) (lib_call P CS (db_handle db) WRITE_SCHEMA
    trace_default \<lparr>schema_text = schema\<rparr> (lib s1)) (lib s1) = (r1, l1)" by fastforce
  from bootstrap_schema_on_go [OF ok small this, of esc] obtain s2 where
    s2: "bootstrap_schema (go_ffi P esc) CS db schema s1 = Some (r1, s2)"
    and b2: "balanced s1 s2" and ok2: "process_ok s2" and l2: "lib s2 = l1" by blast
  obtain r2 l2 where r2: "lib_step (rels \<noteq> []) (lib_call P CR (db_handle db) WRITE_RELATIONSHIPS
    trace_default (bootstrap_updates rels) l1) l1 = (r2, l2)" by fastforce
  from bootstrap_relationships_on_go [OF ok2 small, of rels CR db r2 l2 esc] r2 l2 obtain s3 where
    s3: "bootstrap_relationships (go_ffi P esc) CR db rels s2 = Some (r2, s3)"
    and b3: "balanced s2 s3" and ok3: "process_ok s3" and l3: "lib s3 = l2" by blast
  note spec = bootstrap_spec_def Let_def r1 r2
  note code = start_with_schema_def st s2 s3
  show thesis
  proof (cases r1)
    case (Inl e)
    obtain t l s' where d: "go_dispose P (db_handle db) (lib s2) = Some (t, l)"
      "drop_db (go_ffi P esc) db s2 = Some s'" "balanced s2 s'" "process_ok s'" "lib s' = l"
      using drop_on_go [OF ok2, of P db esc] by blast
    with Inl l2 bal b2 show thesis
      by (intro that [of "Inl e" l s']) (auto simp: spec code intro: balanced_trans)
  next
    case (Inr u)
    show thesis
    proof (cases r2)
      case (Inl e)
      obtain t l s' where d: "go_dispose P (db_handle db) (lib s3) = Some (t, l)"
        "drop_db (go_ffi P esc) db s3 = Some s'" "balanced s3 s'" "process_ok s'" "lib s' = l"
        using drop_on_go [OF ok3, of P db esc] by blast
      with Inl Inr l3 bal b2 b3 show thesis
        by (intro that [of "Inl e" l s']) (auto simp: spec code intro: balanced_trans)
    next
      case u2: (Inr u2)
      with Inr l3 bal b2 b3 ok3 show thesis
        by (intro that [of "Inr db" l2 s3]) (auto simp: spec code intro: balanced_trans)
    qed
  qed
qed

section \<open>Properties\<close>

lemma default_valid: "options_valid default_options"
  by (simp add: options_valid_def opt_valid_def default_options_def)

lemma empty_process_ok: "process_ok empty_process"
  by (simp add: process_ok_def empty_process_parts empty_lib_ok)

text \<open>
  C16: starting an instance always returns, leaks no C allocation, and ends in one of two ways: an
  error of the library with its instances untouched, or an instance that is live in the library
  under the next id, whose handle, streaming address and transport the caller gets.
\<close>

theorem start_correct:
  assumes "process_ok s" and "serde_ok S"
    and "options_valid (unwrap_or options default_options)"
  shows "\<exists>r s'. start (go_ffi P esc) S options s = Some (r, s') \<and> balanced s s' \<and> process_ok s'
    \<and> start_result P r (lib s) (lib s')"
  using start_outcome [OF assms, of P esc] by metis

theorem start_correct_witness:
  "\<exists>r s'. start (go_ffi sample_packages (\<lambda>_. False)) rfc_serde None empty_process = Some (r, s')
    \<and> balanced empty_process s' \<and> start_result sample_packages r empty_lib (lib s')"
  using start_correct [OF empty_process_ok rfc_serde_ok, of None sample_packages "\<lambda>_. False"]
  by (auto simp: default_valid empty_process_parts)

text \<open>
  C21: the options a Rust program sets arrive in the library's option struct field by field: an
  absent string is empty, an absent switch is off or has the library's default, the port is the number set.
\<close>

theorem options_reach_library:
  assumes "serde_ok S" and "options_valid opts"
  shows "\<exists>t. to_string S (start_options_json opts) = Inr t \<and> NUL \<notin> set t
    \<and> parse_start_options (Some t) = go_options_of opts"
  using assms parse_options_text by (auto simp: serde_ok_def c_safe_def)

theorem options_reach_library_witness:
  "\<exists>t. to_string rfc_serde (start_options_json (default_options\<lparr>datastore := Some ''mysql'',
        metrics_port := Some 9090\<rparr>)) = Inr t
     \<and> Datastore (parse_start_options (Some t)) = ''mysql''
     \<and> MetricsPort (parse_start_options (Some t)) = 9090"
proof -
  let ?o = "default_options\<lparr>datastore := Some ''mysql'', metrics_port := Some 9090\<rparr>"
  have "options_valid ?o"
    by (simp add: options_valid_def opt_valid_def default_options_def utf8_valid_ascii)
  from options_reach_library [OF rfc_serde_ok this] show ?thesis
    by (auto simp: go_options_of_def)
qed

lemma remote_engine_ascii: "remote_engine e \<Longrightarrow> c \<in> set e \<Longrightarrow> (of_char c :: nat) < 128"
  by (auto simp: remote_engine_def)

text \<open>
  A remote datastore without a connection string is refused: the caller gets the error that
  names the datastore, and the library is as it was (no id spent, no instance).
\<close>

lemma start_requires_uri:
  assumes "process_ok s" and "serde_ok S" and "options_valid opts"
    and "datastore opts = Some e" and "remote_engine e"
    and "unwrap_or (datastore_uri opts) [] = []"
  shows "\<exists>s'. start (go_ffi P esc) S (Some opts) s
      = Some (Inl (SpiceDB (''datastore_uri is required for '' @ e @ '' datastore'')), s')
    \<and> balanced s s' \<and> lib s' = lib s"
proof -
  let ?m = "''datastore_uri is required for '' @ e @ '' datastore''"
  have v: "options_valid (unwrap_or (Some opts) default_options)" using assms(3) by simp
  obtain t l r s' where g: "go_start P (Some t) (lib s) = Some (r, l)"
    "parse_start_options (Some t) = go_options_of opts"
    and st: "start (go_ffi P esc) S (Some opts) s
      = Some (and_then (parse_json_response S r) embedded_from, s')"
    and s': "balanced s s'" "lib s' = l"
    by (rule start_on_go [OF assms(1,2) v, of P esc]) simp
  have e: "e \<noteq> []" using assms(5) by (auto simp: remote_engine_def)
  from g assms(4-6) e have r: "r = make_error ?m" "l = lib s"
    by (simp_all add: go_start_def go_options_of_def go_engine_def)
  have "utf8_valid ?m"
    using remote_engine_ascii [OF assms(5)] by (intro utf8_valid_ascii) auto
  then have "and_then (parse_json_response S r) embedded_from = Inl (SpiceDB ?m)"
    by (simp only: r parse_error_response [OF assms(2)] go_valid_id) simp
  with st s' r show ?thesis by simp
qed

lemma start_requires_uri_example:
  "\<exists>s'. start (go_ffi sample_packages (\<lambda>_. False)) rfc_serde
        (Some (default_options\<lparr>datastore := Some ''postgres''\<rparr>)) empty_process
      = Some (Inl (SpiceDB ''datastore_uri is required for postgres datastore''), s')
    \<and> lib s' = empty_lib"
  using start_requires_uri [OF empty_process_ok rfc_serde_ok,
      of "default_options\<lparr>datastore := Some ''postgres''\<rparr>" "''postgres''"
        sample_packages "\<lambda>_. False"]
  by (auto simp: options_valid_def opt_valid_def default_options_def remote_engine_def
      utf8_valid_ascii empty_process_parts)

text \<open>
  C18: once started, \<open>start_with_schema\<close> does what its specification on the library says: the schema
  is written first, if there is one, then all relationships in order as touches, if there are any;
  the first failing write ends it with that write's error and disposes of the instance.
\<close>

theorem start_with_schema_refines:
  assumes "process_ok s" and "serde_ok S"
    and "options_valid (unwrap_or options default_options)" and "small_responses P"
    and "start (go_ffi P esc) S options s = Some (Inr db, s1)"
  shows "\<exists>r l s'. bootstrap_spec P CS CR schema rels db (lib s1) = Some (r, l)
    \<and> start_with_schema (go_ffi P esc) S CS CR schema rels options s = Some (r, s')
    \<and> balanced s s' \<and> lib s' = l"
proof -
  from start_outcome [OF assms(1-3), of P esc] assms(5) have "balanced s s1" "process_ok s1"
    by auto
  from start_with_schema_on_go [OF assms(5) this assms(4), of CS CR schema rels] show ?thesis by metis
qed

text \<open>Codecs for the worked examples: the response is the bytes received.\<close>

definition to_bytes :: "string \<Rightarrow> bytes" where
  "to_bytes s = map of_char s"

definition bytes_codec :: "('q \<Rightarrow> bytes) \<Rightarrow> ('q, bytes) codec" where
  "bytes_codec f = \<lparr>encode = f, decode = Inr\<rparr>"

definition sample_schema_codec :: "(write_schema_request, bytes) codec" where
  "sample_schema_codec = bytes_codec (\<lambda>q. to_bytes (schema_text q))"

definition sample_updates_codec :: "((string, unit, unit) write_relationships_request, bytes) codec" where
  "sample_updates_codec = bytes_codec (\<lambda>q. concat (map (\<lambda>u. to_bytes (unwrap_or (relationship u) [])) (updates q)))"

lemma sample_small: "small_responses sample_packages"
  by (auto simp: small_responses_def sample_packages_def split: if_splits)

text \<open>A start without options succeeds for the client if it does in the library.\<close>

lemma start_default_Inr:
  assumes "process_ok s"
    and lib: "\<And>t. parse_start_options (Some t) = zero_options \<Longrightarrow>
      \<exists>h a u l. go_start P (Some t) (lib s) = Some (make_success (Some (start_data h a u)), l)"
  shows "\<exists>db s1. start (go_ffi P esc) rfc_serde None s = Some (Inr db, s1)"
proof -
  have v: "options_valid (unwrap_or None default_options)" by (simp add: default_valid)
  obtain t l r s1 where g: "go_start P (Some t) (lib s) = Some (r, l)"
    and p: "parse_start_options (Some t) = go_options_of default_options"
    and st: "start (go_ffi P esc) rfc_serde None s
      = Some (and_then (parse_json_response rfc_serde r) embedded_from, s1)"
    by (rule start_on_go [OF assms(1) rfc_serde_ok v, of P esc]) simp
  have "go_options_of default_options = zero_options"
    by (simp add: go_options_of_def default_options_def zero_options_def)
  with p g lib obtain h a u where "r = make_success (Some (start_data h a u))" by fastforce
  with st show ?thesis by (simp add: parse_start_response [OF rfc_serde_ok])
qed

lemma sample_start_Inr:
  "\<exists>db s1. start (go_ffi sample_packages esc) rfc_serde None empty_process = Some (Inr db, s1)"
  using sample_go_start [of _ 1 empty_lib]
  by (intro start_default_Inr [OF empty_process_ok]) (fastforce simp: empty_process_parts empty_lib_ok)

theorem start_with_schema_refines_witness:
  "\<exists>db s1 r l s'. start (go_ffi sample_packages (\<lambda>_. False)) rfc_serde None empty_process = Some (Inr db, s1)
    \<and> bootstrap_spec sample_packages sample_schema_codec sample_updates_codec
        ''definition user {}'' [''alice''] db (lib s1) = Some (r, l)
    \<and> start_with_schema (go_ffi sample_packages (\<lambda>_. False)) rfc_serde sample_schema_codec sample_updates_codec
        ''definition user {}'' [''alice''] None empty_process = Some (r, s')"
proof -
  from sample_start_Inr [of "\<lambda>_. False"] obtain db s1 where
    st: "start (go_ffi sample_packages (\<lambda>_. False)) rfc_serde None empty_process = Some (Inr db, s1)"
    by blast
  have v: "options_valid (unwrap_or None default_options)" by (simp add: default_valid)
  from start_with_schema_refines [OF empty_process_ok rfc_serde_ok v sample_small st,
      of sample_schema_codec sample_updates_codec "''definition user {}''" "[''alice'']"]
  show ?thesis using st by blast
qed

lemma bootstrap_instances:
  assumes "bootstrap_spec P CS CR schema rels db l = Some (r, l')" and "golib_ok l"
  shows "r = Inr db \<and> instances l' = instances l
    \<or> (\<exists>e. r = Inl e) \<and> instances l' = (instances l)(db_handle db := None)"
proof -
  obtain r1 l1 where r1: "lib_step (schema \<noteq> []) (lib_call P CS (db_handle db) WRITE_SCHEMA
    trace_default \<lparr>schema_text = schema\<rparr> l) l = (r1, l1)" by fastforce
  obtain r2 l2 where r2: "lib_step (rels \<noteq> []) (lib_call P CR (db_handle db) WRITE_RELATIONSHIPS
    trace_default (bootstrap_updates rels) l1) l1 = (r2, l2)" by fastforce
  have step: "instances (snd (lib_step b (lib_call P C h m tr q k) k)) = instances k"
    for b and C :: "('x, 'y) codec" and h m tr q k
    using lib_call_frame(1) [of P C h m tr q k] by (cases "lib_call P C h m tr q k") (auto simp: lib_step_def)
  have i1: "instances l1 = instances l" using step r1 by (metis snd_conv)
  have i2: "instances l2 = instances l1" using step r2 by (metis snd_conv)
  have ok: "golib_ok l1" "golib_ok l2" using assms(2) i1 i2 by (simp_all add: golib_ok_def)
  note d1 = go_dispose_ok [OF ok(1), of P "db_handle db"] and d2 = go_dispose_ok [OF ok(2), of P "db_handle db"]
  from assms(1) show ?thesis
    unfolding bootstrap_spec_def Let_def r1 prod.case r2
    using d1 d2 i1 i2 by (auto split: sum.splits)
qed

lemma start_with_schema_outcome:
  assumes "process_ok s" and "serde_ok S"
    and "options_valid (unwrap_or options default_options)" and "small_responses P"
    and "handles_ok (lib s)" and "next_id (lib s) \<noteq> - 1"
  obtains r s' where "start_with_schema (go_ffi P esc) S CS CR schema rels options s = Some (r, s')"
    and "balanced s s'" and "process_ok s'"
    and "case r of
        Inl e \<Rightarrow> instances (lib s') = instances (lib s)
      | Inr db \<Rightarrow> db_handle db \<notin> dom (instances (lib s))
          \<and> (\<exists>i. instances (lib s') = (instances (lib s))(db_handle db \<mapsto> i))"
proof -
  from start_outcome [OF assms(1-3), of P esc] obtain r1 s1 where
    st: "start (go_ffi P esc) S options s = Some (r1, s1)" and b: "balanced s s1"
    and ok: "process_ok s1" and res: "start_result P r1 (lib s) (lib s1)" by metis
  note free = next_handle_free [OF assms(5,6)]
  show thesis
  proof (cases r1)
    case (Inl e)
    with st b ok res that [of "Inl e" s1] show thesis by (simp add: start_with_schema_def start_result_def)
  next
    case (Inr db)
    with res obtain i where h: "db_handle db = next_id (lib s) + 1"
      and i: "instances (lib s1) = (instances (lib s))(db_handle db \<mapsto> i)"
      by (auto simp: start_result_def)
    from Inr st have st': "start (go_ffi P esc) S options s = Some (Inr db, s1)" by simp
    from start_with_schema_on_go [OF st' b ok assms(4), of CS CR schema rels] obtain r l s' where
      spec: "bootstrap_spec P CS CR schema rels db (lib s1) = Some (r, l)"
      and run: "start_with_schema (go_ffi P esc) S CS CR schema rels options s = Some (r, s')"
      and s': "balanced s s'" "process_ok s'" "lib s' = l" by metis
    from ok have "golib_ok (lib s1)" by (simp add: process_ok_def)
    from bootstrap_instances [OF spec this] s' h i free(1) show thesis
      by (intro that [OF run s'(1,2)]) (auto simp: fun_upd_idem domIff)
  qed
qed

text \<open>
  C17: when \<open>start_with_schema\<close> fails, at the start or in either write, no instance is left behind:
  the table is what it was before, and so is the heap.
\<close>

theorem start_with_schema_cleans_up:
  assumes "process_ok s" and "serde_ok S"
    and "options_valid (unwrap_or options default_options)" and "small_responses P"
    and "handles_ok (lib s)" and "next_id (lib s) \<noteq> - 1"
  shows "\<exists>r s'. start_with_schema (go_ffi P esc) S CS CR schema rels options s = Some (r, s')
    \<and> balanced s s' \<and> (\<forall>e. r = Inl e \<longrightarrow> instances (lib s') = instances (lib s))
    \<and> (\<forall>db. r = Inr db \<longrightarrow> db_handle db \<notin> dom (instances (lib s))
         \<and> insert (db_handle db) (dom (instances (lib s))) = dom (instances (lib s')))"
proof -
  obtain r s' where run: "start_with_schema (go_ffi P esc) S CS CR schema rels options s = Some (r, s')"
    and b: "balanced s s'"
    and i: "case r of Inl e \<Rightarrow> instances (lib s') = instances (lib s)
      | Inr db \<Rightarrow> db_handle db \<notin> dom (instances (lib s))
          \<and> (\<exists>i. instances (lib s') = (instances (lib s))(db_handle db \<mapsto> i))"
    by (rule start_with_schema_outcome [OF assms, of esc CS CR schema rels])
  from i have "(\<forall>e. r = Inl e \<longrightarrow> instances (lib s') = instances (lib s))
    \<and> (\<forall>db. r = Inr db \<longrightarrow> db_handle db \<notin> dom (instances (lib s))
         \<and> insert (db_handle db) (dom (instances (lib s))) = dom (instances (lib s')))"
    by (cases r) auto
  with run b show ?thesis by blast
qed

lemma empty_handles_ok: "handles_ok empty_lib" "next_id empty_lib \<noteq> - 1"
  by (simp_all add: handles_ok_def empty_lib_ok)

theorem start_with_schema_cleans_up_witness:
  "\<exists>r s'. start_with_schema (go_ffi sample_packages (\<lambda>_. False)) rfc_serde sample_schema_codec
      sample_updates_codec ''definition user {}'' [''alice''] None empty_process = Some (r, s')
    \<and> (\<forall>e. r = Inl e \<longrightarrow> instances (lib s') = Map.empty)"
proof -
  have v: "options_valid (unwrap_or None default_options)" by (simp add: default_valid)
  have h: "handles_ok (lib empty_process)" "next_id (lib empty_process) \<noteq> - 1"
    by (simp_all add: empty_process_parts empty_handles_ok)
  obtain r s' where run: "start_with_schema (go_ffi sample_packages (\<lambda>_. False)) rfc_serde
      sample_schema_codec sample_updates_codec ''definition user {}'' [''alice''] None empty_process
      = Some (r, s')"
    and e: "\<forall>e. r = Inl e \<longrightarrow> instances (lib s') = instances (lib empty_process)"
    using start_with_schema_cleans_up [OF empty_process_ok rfc_serde_ok v sample_small h,
      of "\<lambda>_. False" sample_schema_codec sample_updates_codec "''definition user {}''" "[''alice'']"]
    by blast
  have "instances (lib empty_process) = Map.empty" by (simp add: empty_process_parts empty_lib_ok)
  with run e show ?thesis by auto
qed

lemma parse_dispose_response:
  "serde_ok S \<Longrightarrow> parse_json_response S (make_success None) = Inr JNull"
  by (simp add: parse_json_response_def make_success_response serde_ok_def)

text \<open>
  C23: the two sides agree on the type of every response: what \<open>spicedb_start\<close> and \<open>spicedb_dispose\<close>
  return crosses the C boundary unchanged and decodes without a protocol error, a failure to its
  message, a start to a handle with its address and transport, a dispose to no data.
\<close>

theorem responses_well_typed:
  assumes "serde_ok S" and "golib_ok l"
  shows "(\<exists>t l'. go_start P opts l = Some (t, l') \<and> utf8_lossy (c_text t) = t
        \<and> ((\<exists>m. parse_json_response S t = Inl (SpiceDB m))
            \<or> (\<exists>v db. parse_json_response S t = Inr v \<and> embedded_from v = Inr db)))
    \<and> (\<exists>t l'. go_dispose P h l = Some (t, l') \<and> utf8_lossy (c_text t) = t
        \<and> ((\<exists>m. parse_json_response S t = Inl (SpiceDB m)) \<or> parse_json_response S t = Inr JNull))"
proof
  obtain t l' where g: "go_start P opts l = Some (t, l')"
    and o: "start_failed t l l' \<or> start_succeeded P t l l'" by (rule go_start_outcome)
  from o have "utf8_lossy (c_text t) = t \<and> ((\<exists>m. parse_json_response S t = Inl (SpiceDB m))
      \<or> (\<exists>v db. parse_json_response S t = Inr v \<and> embedded_from v = Inr db))"
  proof
    assume "start_failed t l l'"
    then show ?thesis
      by (auto simp: start_failed_def response_crosses parse_error_response [OF assms(1)])
  next
    assume "start_succeeded P t l l'"
    then obtain n a u where t: "t = make_success (Some (start_data n a u))" by (auto simp: start_succeeded_def)
    with parse_start_response [OF assms(1), of n a u] show ?thesis
      by (cases "parse_json_response S t") (auto simp: response_crosses)
  qed
  with g show "\<exists>t l'. go_start P opts l = Some (t, l') \<and> utf8_lossy (c_text t) = t
        \<and> ((\<exists>m. parse_json_response S t = Inl (SpiceDB m))
            \<or> (\<exists>v db. parse_json_response S t = Inr v \<and> embedded_from v = Inr db))" by blast
next
  note resp = response_crosses parse_error_response [OF assms(1)] parse_dispose_response [OF assms(1)]
  show "\<exists>t l'. go_dispose P h l = Some (t, l') \<and> utf8_lossy (c_text t) = t
        \<and> ((\<exists>m. parse_json_response S t = Inl (SpiceDB m)) \<or> parse_json_response S t = Inr JNull)"
  proof (cases "instances l h")
    case None
    then show ?thesis by (auto simp: go_dispose_invalid resp)
  next
    case (Some i)
    with assms(2) have "instance_ok i" by (auto simp: golib_ok_def)
    from go_dispose_valid [OF Some this, of P] show ?thesis by (auto simp: resp)
  qed
qed

theorem responses_well_typed_witness:
  "\<exists>t l'. go_dispose sample_packages 9 empty_lib = Some (t, l') \<and> utf8_lossy (c_text t) = t
     \<and> ((\<exists>m. parse_json_response rfc_serde t = Inl (SpiceDB m)) \<or> parse_json_response rfc_serde t = Inr JNull)"
  using responses_well_typed [OF rfc_serde_ok empty_lib_ok(1), of sample_packages None 9] by blast

text \<open>
  Dropping an instance gives everything back: it always returns, the heap is balanced, and
  after the start that made it the table of instances is what it was before that start.
\<close>

lemma drop_undoes_start:
  assumes "process_ok s" and "serde_ok S"
    and "options_valid (unwrap_or options default_options)"
    and "handles_ok (lib s)" and "next_id (lib s) \<noteq> - 1"
    and "start (go_ffi P esc) S options s = Some (Inr db, s1)"
  shows "\<exists>s2. drop_db (go_ffi P esc) db s1 = Some s2 \<and> balanced s s2 \<and> process_ok s2
    \<and> instances (lib s2) = instances (lib s)"
proof -
  from start_outcome [OF assms(1-3), of P esc] assms(6) have b: "balanced s s1" "process_ok s1"
    and r: "start_result P (Inr db) (lib s) (lib s1)" by auto
  from drop_outcome [OF b(2), of P esc db] obtain s2 where
    "drop_db (go_ffi P esc) db s1 = Some s2" "balanced s1 s2" "process_ok s2"
    "instances (lib s2) = (instances (lib s1))(db_handle db := None)" by blast
  with b r next_handle_free(1) [OF assms(4,5)] show ?thesis
    by (auto simp: start_result_def fun_upd_idem domIff intro: balanced_trans)
qed

lemma drop_undoes_start_example:
  "\<exists>db s1 s2. start (go_ffi sample_packages (\<lambda>_. False)) rfc_serde None empty_process = Some (Inr db, s1)
    \<and> drop_db (go_ffi sample_packages (\<lambda>_. False)) db s1 = Some s2
    \<and> instances (lib s2) = Map.empty"
proof -
  from sample_start_Inr [of "\<lambda>_. False"] obtain db s1 where
    st: "start (go_ffi sample_packages (\<lambda>_. False)) rfc_serde None empty_process = Some (Inr db, s1)"
    by blast
  have v: "options_valid (unwrap_or None default_options)" by (simp add: default_valid)
  have h: "handles_ok (lib empty_process)" "next_id (lib empty_process) \<noteq> - 1"
    by (simp_all add: empty_process_parts empty_handles_ok)
  from drop_undoes_start [OF empty_process_ok rfc_serde_ok v h st] st show ?thesis
    by (auto simp: empty_process_parts empty_lib_ok)
qed

text \<open>
  C19: a unary call of the client computes what its specification on the library says: the library
  is called once with the request and the current trace context, its error text or its response
  decoded is the result, and every C allocation is given back.
\<close>

theorem unary_call_refines:
  assumes "process_ok s" and "small_responses P" and "method \<in> set unary_methods"
    and "trace_c_ok (current otel span)"
  shows "\<exists>s'. call (go_ffi P esc) otel span C h method request s
      = Some (map_err db_err (fst (lib_call P C h method (current otel span) request (lib s))), s')
    \<and> balanced s s' \<and> process_ok s'
    \<and> lib s' = snd (lib_call P C h method (current otel span) request (lib s))"
proof -
  obtain r l where r: "lib_call P C h method (current otel span) request (lib s) = (r, l)" by fastforce
  from transport_on_go [OF assms(1,2) method_no_NUL [OF assms(3)] assms(4) r, of esc] obtain s' where
    "transport_call (go_ffi P esc) C h method (current otel span) request s = Some (r, s')"
    "balanced s s'" "process_ok s'" "lib s' = l" by blast
  with r show ?thesis by (simp add: call_def)
qed

definition no_span :: span_context where
  "no_span = \<lparr>is_valid = False, trace_id = [], span_id = [], trace_flags = 0, trace_state = []\<rparr>"

lemma no_span_current [simp]: "current otel no_span = trace_default"
  by (simp add: current_def no_span_def)

theorem unary_call_refines_witness:
  "\<exists>s'. call (go_ffi sample_packages (\<lambda>_. False)) True no_span (bytes_codec to_bytes) 3 READ_SCHEMA
      ''x'' empty_process = Some (Inl (SpiceDB ''invalid handle: 3''), s')"
proof -
  have "READ_SCHEMA \<in> set unary_methods" by (simp add: unary_methods_def)
  moreover have "lib_call sample_packages (bytes_codec to_bytes) 3 READ_SCHEMA trace_default ''x'' empty_lib
      = (Inl (RpcError ''invalid handle: 3''), empty_lib)"
    by (simp add: lib_call_def bytes_codec_def to_bytes_def go_rpc_def c_text_def READ_SCHEMA_def
        rpc_messages_def full_method_name_def run_rpc_def empty_lib_ok invalid_handle_def)
      code_simp
  ultimately show ?thesis
    using unary_call_refines [OF empty_process_ok sample_small, of READ_SCHEMA True no_span
        "\<lambda>_. False" "bytes_codec to_bytes" 3 "''x''"]
    by (auto simp: empty_process_parts)
qed

lemma rpc_methods: "set (map fst rpc_messages) = set unary_methods"
  by (auto simp: rpc_messages_def full_method_name_def unary_methods_def method_defs)

lemma rpc_lookup: "map_of rpc_messages m = None \<longleftrightarrow> m \<notin> set unary_methods"
  using rpc_methods by (simp add: map_of_eq_None_iff)

lemma methods_distinct: "distinct (map fst rpc_messages)" "distinct unary_methods"
  by (simp_all add: rpc_messages_def full_method_name_def unary_methods_def method_defs)

lemma c_text_method: "m \<in> set unary_methods \<Longrightarrow> c_text m = m"
  by (simp add: c_text_id method_no_NUL)

lemma call_on_go:
  assumes "process_ok s" and "small_responses P" and "NUL \<notin> set m"
    and "trace_c_ok (current otel span)"
    and "lib_call P C h m (current otel span) q (lib s) = (r, l)"
  shows "\<exists>s'. call (go_ffi P esc) otel span C h m q s = Some (map_err db_err r, s')
    \<and> balanced s s' \<and> process_ok s' \<and> lib s' = l"
proof -
  from transport_on_go [OF assms, of esc] obtain s' where
    "transport_call (go_ffi P esc) C h m (current otel span) q s = Some (r, s')"
    "balanced s s'" "process_ok s'" "lib s' = l" by blast
  then show ?thesis by (simp add: call_def)
qed

text \<open>
  C22: the methods the Rust client names are exactly the methods the library accepts, each once;
  any other name comes back as an error that names it, and the library is not touched.
\<close>

theorem methods_agree:
  assumes "process_ok s" and "small_responses P" and "utf8_valid m" and "NUL \<notin> set m"
    and "trace_c_ok (current otel span)" and "length (encode C request) < 2 ^ 31"
  shows "distinct unary_methods
    \<and> (m \<in> set unary_methods \<longleftrightarrow> map_of rpc_messages m \<noteq> None)
    \<and> (m \<notin> set unary_methods \<longrightarrow>
         (\<exists>s'. call (go_ffi P esc) otel span C h m request s
             = Some (Inl (SpiceDB (''unsupported method: '' @ m)), s')
           \<and> balanced s s' \<and> lib s' = lib s))"
proof (intro conjI impI)
  show "distinct unary_methods" by (rule methods_distinct)
  show "m \<in> set unary_methods \<longleftrightarrow> map_of rpc_messages m \<noteq> None" by (simp only: rpc_lookup) blast
  assume m: "m \<notin> set unary_methods"
  let ?e = "''unsupported method: '' @ m"
  have "c_safe ?e"
    using assms(3,4) by (intro c_safe_append) (auto simp: c_safe_def utf8_valid_ascii)
  then have e: "utf8_lossy (c_text ?e) = ?e" by (rule c_safe_crosses)
  have "lib_call P C h m (current otel span) request (lib s) = (Inl (RpcError ?e), lib s)"
    using m assms(6) rpc_lookup [of m] e
    by (simp only: lib_call_def go_rpc_def Let_def c_text_id [OF assms(4)]) auto
  from call_on_go [OF assms(1,2,4,5) this, of esc] show
    "\<exists>s'. call (go_ffi P esc) otel span C h m request s = Some (Inl (SpiceDB ?e), s')
      \<and> balanced s s' \<and> lib s' = lib s"
    unfolding map_err_simps db_err_RpcError by blast
qed

theorem methods_agree_witness:
  "\<exists>s'. call (go_ffi sample_packages (\<lambda>_. False)) False no_span (bytes_codec to_bytes) 1 ''/x/Watch'' []
      empty_process = Some (Inl (SpiceDB ''unsupported method: /x/Watch''), s')"
  using methods_agree [OF empty_process_ok sample_small, of "''/x/Watch''" False no_span
      "bytes_codec to_bytes" "[]" "\<lambda>_. False" 1]
  by (auto simp: utf8_valid_ascii unary_methods_def method_defs bytes_codec_def to_bytes_def)

text \<open>
  A call on a live instance is one invocation of its server, with the method named, the
  decoded request and the caller's trace context, and the decoded answer is the result; of the
  library only the world changes.
\<close>

lemma live_call_reaches_server:
  assumes "process_ok s" and "small_responses P" and "method \<in> set unary_methods"
    and "trace_c_ok (current otel span)" and "length (encode C request) < 2 ^ 31"
    and "instances (lib s) h = Some i" and "client_conn i = Some conn"
    and "map_of rpc_messages method = Some (req_type, resp_type)"
    and "unmarshal P req_type (encode C request) = Inr msg"
    and "invoke P (trace_metadata (go_string (traceparent (current otel span)))
          (go_string (tracestate (current otel span)))) method conn msg (world (lib s)) = (Inr resp, w)"
    and "marshal P resp = Inr bs" and "decode C bs = Inr answer"
  shows "\<exists>s'. call (go_ffi P esc) otel span C h method request s = Some (Inr answer, s')
    \<and> balanced s s' \<and> lib s' = (lib s)\<lparr>world := w\<rparr>"
proof -
  have "lib_call P C h method (current otel span) request (lib s)
      = (Inr answer, (lib s)\<lparr>world := w\<rparr>)"
    using assms by (simp add: lib_call_def go_rpc_def run_rpc_def try_world_def c_text_method)
  from call_on_go [OF assms(1,2) method_no_NUL [OF assms(3)] assms(4) this, of esc] show ?thesis
    unfolding map_err_simps by blast
qed

definition live_process :: "string list golib process" where
  "live_process = empty_process\<lparr>lib := empty_lib\<lparr>instances := [1 \<mapsto> sample_instance 1 0], next_id := 1\<rparr>\<rparr>"

lemma live_process_ok: "process_ok live_process"
  by (simp add: process_ok_def live_process_def empty_process_parts golib_ok_def empty_lib_def
      instance_ok_def sample_instance_def)

lemma live_call_example:
  "\<exists>s'. call (go_ffi sample_packages (\<lambda>_. False)) False no_span (bytes_codec to_bytes) 1 READ_SCHEMA
        ''ab'' live_process = Some (Inr (to_bytes ''ab''), s')
    \<and> world (lib s') = [READ_SCHEMA]"
proof -
  have "map_of rpc_messages READ_SCHEMA = Some (''ReadSchemaRequest'', ''ReadSchemaResponse'')"
    by (simp add: rpc_messages_def full_method_name_def READ_SCHEMA_def)
  from live_call_reaches_server [OF live_process_ok sample_small _ _ _ _ _ this,
      of False no_span "bytes_codec to_bytes" "''ab''" 1 "sample_instance 1 0" 3 "to_bytes ''ab''"
        "to_bytes ''ab''" "[READ_SCHEMA]" "to_bytes ''ab''" "to_bytes ''ab''" "\<lambda>_. False"]
  show ?thesis
    by (auto simp: unary_methods_def bytes_codec_def to_bytes_def live_process_def sample_instance_def
        sample_packages_def logging_def empty_lib_def)
qed

lemma invalid_handle_crosses: "utf8_lossy (c_text (invalid_handle h)) = invalid_handle h"
proof (rule c_safe_crosses, rule c_safe_ascii)
  fix c assume "c \<in> set (invalid_handle h)"
  then have "c \<in> set ''invalid handle: '' \<or> is_digit c"
    by (auto simp: invalid_handle_def dest: dec_digits)
  then show "0 < (of_char c :: nat) \<and> of_char c < (128::nat)" by (auto simp: is_digit_def)
qed

text \<open>
  C20: once an instance is dropped its handle is dead: every unary method called on it returns the
  error \<open>invalid handle\<close> with the number, without reaching a server, and a second drop changes nothing
  in the table.
\<close>

theorem dropped_handle_is_invalid:
  assumes "process_ok s" and "small_responses P" and "drop_db (go_ffi P esc) db s = Some s1"
    and "method \<in> set unary_methods" and "trace_c_ok (current otel span)"
    and "length (encode C request) < 2 ^ 31"
  shows "\<exists>s2. call (go_ffi P esc) otel span C (db_handle db) method request s1
      = Some (Inl (SpiceDB (''invalid handle: '' @ dec (unat (db_handle db)))), s2)
    \<and> balanced s s2 \<and> lib s2 = lib s1
    \<and> (\<exists>s3. drop_db (go_ffi P esc) db s2 = Some s3 \<and> instances (lib s3) = instances (lib s1))"
proof -
  from drop_outcome [OF assms(1), of P esc db] assms(3) have b: "balanced s s1" "process_ok s1"
    and i: "instances (lib s1) = (instances (lib s))(db_handle db := None)" by auto
  have known: "map_of rpc_messages method \<noteq> None" using assms(4) rpc_lookup by blast
  have "lib_call P C (db_handle db) method (current otel span) request (lib s1)
      = (Inl (RpcError (invalid_handle (db_handle db))), lib s1)"
    using known assms(4,6) i
    by (auto simp: lib_call_def go_rpc_def run_rpc_def c_text_method invalid_handle_crosses)
  from transport_on_go [OF b(2) assms(2) method_no_NUL [OF assms(4)] assms(5) this, of esc] obtain s2 where
    c: "transport_call (go_ffi P esc) C (db_handle db) method (current otel span) request s1
      = Some (Inl (RpcError (invalid_handle (db_handle db))), s2)"
    and s2: "balanced s1 s2" "process_ok s2" "lib s2 = lib s1" by blast
  from drop_outcome [OF s2(2), of P esc db] obtain s3 where
    "drop_db (go_ffi P esc) db s2 = Some s3" "instances (lib s3) = (instances (lib s2))(db_handle db := None)"
    by blast
  with c s2 b(1) i show ?thesis
    by (auto simp: call_def invalid_handle_def intro: balanced_trans)
qed

theorem dropped_handle_is_invalid_witness:
  "\<exists>s1 s2. drop_db (go_ffi sample_packages (\<lambda>_. False))
        \<lparr>db_handle = 1, streaming_address = [], streaming_transport = []\<rparr> live_process = Some s1
    \<and> call (go_ffi sample_packages (\<lambda>_. False)) False no_span (bytes_codec to_bytes) 1
        CHECK_PERMISSION [] s1 = Some (Inl (SpiceDB ''invalid handle: 1''), s2)"
proof -
  let ?db = "\<lparr>db_handle = 1, streaming_address = [], streaming_transport = []\<rparr>"
  from drop_outcome [OF live_process_ok, of sample_packages "\<lambda>_. False" ?db] obtain s1 where
    d: "drop_db (go_ffi sample_packages (\<lambda>_. False)) ?db live_process = Some s1" by blast
  have "dec 1 = ''1''" by code_simp
  with dropped_handle_is_invalid [OF live_process_ok sample_small d, of CHECK_PERMISSION False no_span
      "bytes_codec to_bytes" "[]"] d
  show ?thesis by (auto simp: unary_methods_def bytes_codec_def to_bytes_def)
qed

end
