(* ===== verification/System.thy ===== *)
theory System
  imports Embedded
begin

text \<open>
  A program that uses the crate, as a step relation: it starts instances, calls unary methods (on
  any handle: a client keeps a copy of the number and may outlive its instance) and drops the
  instances it owns, in any order.  The invariant ties what the program owns to the table of the Go
  library and to the C heap.  A bootstrapped start is a start followed by calls and, on failure, a drop.
\<close>

record 'w app =
  proc :: "'w golib process"
  owned :: "embedded list"

text \<open>A start is a step as long as the library has an id left: it gives out \<open>2 ^ 64 - 1\<close> of them.\<close>

inductive step ::
    "('m, 'w) packages \<Rightarrow> (nat \<Rightarrow> bool) \<Rightarrow> serde \<Rightarrow> 'w app \<Rightarrow> 'w app \<Rightarrow> bool"
  for P esc S where
  started: "start (go_ffi P esc) S options (proc a) = Some (Inr db, s') \<Longrightarrow>
      options_valid (unwrap_or options default_options) \<Longrightarrow> next_id (lib (proc a)) \<noteq> - 1 \<Longrightarrow>
      step P esc S a (a\<lparr>proc := s', owned := owned a @ [db]\<rparr>)"
| start_refused: "start (go_ffi P esc) S options (proc a) = Some (Inl e, s') \<Longrightarrow>
      options_valid (unwrap_or options default_options) \<Longrightarrow> next_id (lib (proc a)) \<noteq> - 1 \<Longrightarrow>
      step P esc S a (a\<lparr>proc := s'\<rparr>)"
| called: "raw_call (go_ffi P esc) h m tr req (proc a) = Some (r, s') \<Longrightarrow>
      step P esc S a (a\<lparr>proc := s'\<rparr>)"
| dropped: "db \<in> set (owned a) \<Longrightarrow> drop_db (go_ffi P esc) db (proc a) = Some s' \<Longrightarrow>
      step P esc S a (a\<lparr>proc := s', owned := remove1 db (owned a)\<rparr>)"

inductive_cases step_cases: "step P esc S a b"

inductive reachable ::
    "('m, 'w) packages \<Rightarrow> (nat \<Rightarrow> bool) \<Rightarrow> serde \<Rightarrow> 'w app \<Rightarrow> 'w app \<Rightarrow> bool"
  for P esc S a where
  here: "reachable P esc S a a"
| further: "reachable P esc S a b \<Longrightarrow> step P esc S b c \<Longrightarrow> reachable P esc S a c"

text \<open>A program before its first start.\<close>

definition initial :: "'w app \<Rightarrow> bool" where
  "initial a \<longleftrightarrow> process_ok (proc a) \<and> owned a = [] \<and> instances (lib (proc a)) = Map.empty"

definition app_inv :: "'w app \<Rightarrow> bool" where
  "app_inv a \<longleftrightarrow> process_ok (proc a) \<and> handles_ok (lib (proc a))
     \<and> distinct (map db_handle (owned a))
     \<and> set (map db_handle (owned a)) = dom (instances (lib (proc a)))"

lemma initial_inv: "initial a \<Longrightarrow> app_inv a"
  by (simp add: initial_def app_inv_def handles_ok_def)

lemma raw_call_on_go:
  assumes "process_ok s" and "small_responses P"
    and "raw_call (go_ffi P esc) h m tr req s = Some (r, s')"
  shows "balanced s s' \<and> process_ok s' \<and> instances (lib s') = instances (lib s)
    \<and> next_id (lib s') = next_id (lib s)"
proof -
  obtain q l where q: "call_outcome (go_rpc P) (go_ffi P esc) h m tr req (lib s) = (q, l)" by fastforce
  have frame: "instances l = instances (lib s) \<and> next_id l = next_id (lib s)
      \<and> (\<forall>x. q = Inr x \<longrightarrow> \<not> leaks x)"
  proof (cases "2 ^ 31 \<le> length req")
    case True
    with q show ?thesis by (auto simp: call_outcome_def)
  next
    case False
    show ?thesis
    proof (cases "c_arguments (go_ffi P esc) m tr")
      case (Inl e)
      with q False show ?thesis by (auto simp: call_outcome_def)
    next
      case (Inr x)
      obtain n tp ts where x: "x = (n, tp, ts)" by (cases x) auto
      obtain y k where y: "go_rpc P h n tp ts req (lib s) = (y, k)" by fastforce
      with q False Inr x have "q = Inr y" "l = k" by (auto simp: call_outcome_def)
      with go_rpc_frame [OF y] go_rpc_small [OF assms(2), of h n tp ts req "lib s"] y show ?thesis
        by (cases y) (auto simp: leaks_small)
    qed
  qed
  from assms(1) have "heap_ok (mem s)" "golib_ok (lib s)" by (simp_all add: process_ok_def)
  from go.raw_call_refines [OF this q] assms(3) frame show ?thesis
    by (metis option.inject prod.inject process_ok_balanced)
qed

lemma handles_ok_step:
  assumes "handles_ok l" and "dom (instances l') \<subseteq> insert (next_id l') (dom (instances l))"
    and "next_id l \<le> next_id l'"
  shows "handles_ok l'"
  unfolding handles_ok_def
proof
  fix h assume "h \<in> dom (instances l')"
  with assms(2) consider "h = next_id l'" | "h \<in> dom (instances l)" by blast
  then show "h \<le> next_id l'"
  proof cases
    case 2
    with assms(1) have "h \<le> next_id l" by (simp add: handles_ok_def)
    with assms(3) show ?thesis by (rule order_trans [rotated])
  qed simp
qed

lemma start_step:
  assumes "app_inv a" and "serde_ok S" and "options_valid (unwrap_or options default_options)"
    and "next_id (lib (proc a)) \<noteq> - 1"
    and "start (go_ffi P esc) S options (proc a) = Some (r, s')"
  shows "balanced (proc a) s' \<and> app_inv (a\<lparr>proc := s',
    owned := owned a @ (case r of Inl _ \<Rightarrow> [] | Inr db \<Rightarrow> [db])\<rparr>)"
proof -
  from assms(1) have ok: "process_ok (proc a)" and h: "handles_ok (lib (proc a))"
    and d: "distinct (map db_handle (owned a))" "set (map db_handle (owned a)) = dom (instances (lib (proc a)))"
    by (simp_all add: app_inv_def)
  from start_outcome [OF ok assms(2,3), of P esc] assms(5) have b: "balanced (proc a) s'" "process_ok s'"
    and res: "start_result P r (lib (proc a)) (lib s')" by auto
  note free = next_handle_free [OF h assms(4)]
  show ?thesis
  proof (cases r)
    case (Inl e)
    with res have i: "instances (lib s') = instances (lib (proc a))"
      and n: "next_id (lib (proc a)) \<le> next_id (lib s')"
      using free(2) by (auto simp: start_result_def)
    from handles_ok_step [OF h _ n] i have "handles_ok (lib s')" by auto
    with Inl b d i show ?thesis by (simp add: app_inv_def)
  next
    case (Inr db)
    with res obtain i where hd: "db_handle db = next_id (lib (proc a)) + 1"
      "next_id (lib s') = next_id (lib (proc a)) + 1"
      "instances (lib s') = (instances (lib (proc a)))(db_handle db \<mapsto> i)"
      by (auto simp: start_result_def)
    with free have "handles_ok (lib s')" by (intro handles_ok_step [OF h]) auto
    with Inr b d hd free(1) show ?thesis by (simp add: app_inv_def)
  qed
qed

lemma drop_step:
  assumes "app_inv a" and "db \<in> set (owned a)"
    and "drop_db (go_ffi P esc) db (proc a) = Some s'"
  shows "balanced (proc a) s' \<and> app_inv (a\<lparr>proc := s', owned := remove1 db (owned a)\<rparr>)"
proof -
  from assms(1) have ok: "process_ok (proc a)" by (simp add: app_inv_def)
  from drop_outcome [OF ok, of P esc db] assms(3) have b: "balanced (proc a) s'" "process_ok s'"
    and i: "instances (lib s') = (instances (lib (proc a)))(db_handle db := None)"
      "next_id (lib s') = next_id (lib (proc a))" by auto
  obtain xs ys where o: "owned a = xs @ db # ys" "db \<notin> set xs"
    using assms(2) split_list_first by metis
  then have "remove1 db (owned a) = xs @ ys" by (simp add: remove1_append)
  with assms(1) b i o show ?thesis
    by (auto simp: app_inv_def handles_ok_def dest: equalityD1 equalityD2)
qed

lemma step_inv:
  assumes "step P esc S a b" and "app_inv a" and "serde_ok S" and "small_responses P"
  shows "app_inv b \<and> balanced (proc a) (proc b)"
  using assms(1)
proof cases
  case (started options db s')
  with start_step [OF assms(2,3)] show ?thesis by fastforce
next
  case (start_refused options e s')
  with start_step [OF assms(2,3)] show ?thesis by fastforce
next
  case (called h m tr req r s')
  with raw_call_on_go [OF _ assms(4)] assms(2) show ?thesis
    by (fastforce simp: app_inv_def handles_ok_def)
next
  case (dropped db s')
  with drop_step [OF assms(2)] show ?thesis by fastforce
qed

lemma reachable_inv:
  assumes "reachable P esc S a b" and "app_inv a" and "serde_ok S" and "small_responses P"
  shows "app_inv b \<and> balanced (proc a) (proc b)"
  using assms(1)
proof induction
  case here
  from assms(2) show ?case by (auto simp: app_inv_def process_ok_def)
next
  case (further b c)
  with step_inv [OF further.hyps(2) _ assms(3,4)] show ?case by (auto intro: balanced_trans)
qed

lemma reachable_trans:
  "reachable P esc S b c \<Longrightarrow> reachable P esc S a b \<Longrightarrow> reachable P esc S a c"
  by (induction rule: reachable.induct) (auto intro: reachable.further)

lemma raw_call_total:
  assumes "process_ok s"
  shows "\<exists>r s'. raw_call (go_ffi P esc) h m tr req s = Some (r, s')"
proof -
  obtain q l where q: "call_outcome (go_rpc P) (go_ffi P esc) h m tr req (lib s) = (q, l)" by fastforce
  from assms have "heap_ok (mem s)" "golib_ok (lib s)" by (simp_all add: process_ok_def)
  from go.raw_call_refines [OF this q] show ?thesis by metis
qed

lemma drop_all:
  assumes "app_inv a"
  shows "\<exists>b. reachable P esc S a b \<and> owned b = [] \<and> app_inv b \<and> balanced (proc a) (proc b)"
  using assms
proof (induction "length (owned a)" arbitrary: a)
  case 0
  then show ?case
    by (intro exI [of _ a]) (auto intro: reachable.here simp: app_inv_def process_ok_def)
next
  case (Suc n)
  then obtain db dbs where o: "owned a = db # dbs" by (cases "owned a") auto
  from Suc.prems have "process_ok (proc a)" by (simp add: app_inv_def)
  then obtain s' where d: "drop_db (go_ffi P esc) db (proc a) = Some s'"
    using drop_outcome [of "proc a" P esc db] by blast
  let ?b = "a\<lparr>proc := s', owned := remove1 db (owned a)\<rparr>"
  from drop_step [OF Suc.prems _ d] o have b: "app_inv ?b" "balanced (proc a) (proc ?b)" by auto
  from Suc.hyps(2) o have "n = length (owned ?b)" by simp
  from Suc.hyps(1) [OF this b(1)] obtain c where
    c: "reachable P esc S ?b c" "owned c = []" "app_inv c" "balanced (proc ?b) (proc c)" by blast
  have "step P esc S a ?b" using d o by (intro step.dropped) auto
  then have "reachable P esc S a ?b" by (intro reachable.further [OF reachable.here])
  with c b show ?case by (meson reachable_trans balanced_trans)
qed

section \<open>Properties\<close>

text \<open>
  C1: along every run of a program, starts, failed starts, calls and drops in any order, the live
  handles are distinct, they are exactly the instances of the Go library, and every C allocation
  has been given back.
\<close>

theorem owned_handles_are_the_instances:
  assumes "reachable P esc S a b" and "initial a" and "serde_ok S" and "small_responses P"
  shows "distinct (map db_handle (owned b))
    \<and> set (map db_handle (owned b)) = dom (instances (lib (proc b)))
    \<and> heap_ok (mem (proc b)) \<and> blocks (mem (proc b)) = blocks (mem (proc a))"
  using reachable_inv [OF assms(1) initial_inv [OF assms(2)] assms(3,4)]
  by (simp add: app_inv_def balanced_def)

definition empty_app :: "string list app" where
  "empty_app = \<lparr>proc = empty_process, owned = []\<rparr>"

lemma empty_app_initial: "initial empty_app"
  by (simp add: initial_def empty_app_def empty_process_ok empty_process_parts empty_lib_ok)

lemma empty_app_start:
  obtains db s1 where "reachable sample_packages esc rfc_serde empty_app \<lparr>proc = s1, owned = [db]\<rparr>"
proof -
  from sample_start_Inr [of esc] obtain db s1 where
    st: "start (go_ffi sample_packages esc) rfc_serde None (proc empty_app) = Some (Inr db, s1)"
    by (auto simp: empty_app_def)
  have "step sample_packages esc rfc_serde empty_app
      (empty_app\<lparr>proc := s1, owned := owned empty_app @ [db]\<rparr>)"
    by (rule step.started [OF st])
      (simp_all add: default_valid empty_app_def empty_process_parts empty_lib_ok)
  then have "reachable sample_packages esc rfc_serde empty_app \<lparr>proc = s1, owned = [db]\<rparr>"
    by (intro reachable.further [OF reachable.here]) (simp add: empty_app_def)
  with that show thesis .
qed

theorem owned_handles_are_the_instances_witness:
  "\<exists>db s1. reachable sample_packages (\<lambda>_. False) rfc_serde empty_app \<lparr>proc = s1, owned = [db]\<rparr>
     \<and> dom (instances (lib s1)) = {db_handle db} \<and> blocks (mem s1) = Map.empty"
proof -
  obtain db s1 where r: "reachable sample_packages (\<lambda>_. False) rfc_serde empty_app
      \<lparr>proc = s1, owned = [db]\<rparr>" by (rule empty_app_start)
  from owned_handles_are_the_instances [OF r empty_app_initial rfc_serde_ok sample_small] r
  show ?thesis by (auto simp: empty_app_def empty_process_def)
qed



text \<open>
  C3: a program can always shut down: dropping what it owns, in the order it has it, leads to a
  state with no instance in the library and the heap of the beginning.
\<close>

theorem shutdown_releases_everything:
  assumes "reachable P esc S a b" and "initial a" and "serde_ok S" and "small_responses P"
  shows "\<exists>c. reachable P esc S b c \<and> owned c = [] \<and> instances (lib (proc c)) = Map.empty
    \<and> blocks (mem (proc c)) = blocks (mem (proc a))"
proof -
  from reachable_inv [OF assms(1) initial_inv [OF assms(2)] assms(3,4)]
  have b: "app_inv b" "balanced (proc a) (proc b)" by simp_all
  from drop_all [OF b(1), of P esc S] obtain c where c: "reachable P esc S b c" "owned c = []"
    "app_inv c" "balanced (proc b) (proc c)" by blast
  then have "dom (instances (lib (proc c))) = {}" by (simp add: app_inv_def)
  with b c show ?thesis by (auto simp: balanced_def)
qed

theorem shutdown_releases_everything_witness:
  "\<exists>db s1 c. reachable sample_packages (\<lambda>_. False) rfc_serde empty_app \<lparr>proc = s1, owned = [db]\<rparr>
     \<and> reachable sample_packages (\<lambda>_. False) rfc_serde \<lparr>proc = s1, owned = [db]\<rparr> c
     \<and> instances (lib (proc c)) = Map.empty"
proof -
  obtain db s1 where r: "reachable sample_packages (\<lambda>_. False) rfc_serde empty_app
      \<lparr>proc = s1, owned = [db]\<rparr>" by (rule empty_app_start)
  from shutdown_releases_everything [OF r empty_app_initial rfc_serde_ok sample_small] r
  show ?thesis by blast
qed

end
