(* ===== verification/Library_Runs.thy ===== *)
theory Library_Runs
  imports System
begin

text \<open>
  Invariants of the Go library along the runs of a Rust program.  Whatever a step of \<open>System\<close> does, the
  library sees one call of an exported function or none; a predicate that the exported functions keep
  therefore holds in every reachable state.
\<close>

section \<open>What a step of a program is for the library\<close>

inductive export_step :: "('m, 'w) packages \<Rightarrow> 'w golib \<Rightarrow> 'w golib \<Rightarrow> bool" for P where
  starts: "instances l (next_id l + 1) = None \<Longrightarrow> go_start P (Some t) l = Some (r, l') \<Longrightarrow> export_step P l l'"
| disposes: "go_dispose P h l = Some (r, l') \<Longrightarrow> export_step P l l'"
| calls: "go_rpc P h m tp ts req l = (q, l') \<Longrightarrow> export_step P l l'"
| idles: "export_step P l l"

inductive_cases export_step_cases: "export_step P l l'"

lemma start_is_export_step:
  assumes "process_ok s" and "serde_ok S" and "options_valid (unwrap_or options default_options)"
    and "instances (lib s) (next_id (lib s) + 1) = None"
    and "start (go_ffi P esc) S options s = Some (r, s')"
  shows "export_step P (lib s) (lib s')"
proof -
  from start_on_go [OF assms(1-3), of P esc] obtain t q l where
    "go_start P (Some t) (lib s) = Some (q, l)" "lib s' = l"
    using assms(5) by (metis option.inject prod.inject)
  with assms(4) show ?thesis by (auto intro: export_step.starts)
qed

lemma drop_is_export_step:
  assumes "process_ok s" and "drop_db (go_ffi P esc) db s = Some s'"
  shows "export_step P (lib s) (lib s')"
proof -
  from assms(1) have "heap_ok (mem s)" "golib_ok (lib s)" by (simp_all add: process_ok_def)
  from go.sys_dispose_law [OF this, of P "db_handle db" esc] obtain t l s1 where
    "go_dispose P (db_handle db) (lib s) = Some (t, l)" "lib s1 = l"
    "sys_dispose (go_ffi P esc) (db_handle db) s = Some (Inr (utf8_lossy (c_text t)), s1)" by metis
  with assms(2) show ?thesis by (auto simp: drop_db_def intro: export_step.disposes)
qed

lemma raw_call_is_export_step:
  assumes "process_ok s" and "raw_call (go_ffi P esc) h m tr req s = Some (r, s')"
  shows "export_step P (lib s) (lib s')"
proof -
  obtain q l where q: "call_outcome (go_rpc P) (go_ffi P esc) h m tr req (lib s) = (q, l)" by fastforce
  from assms(1) have "heap_ok (mem s)" "golib_ok (lib s)" by (simp_all add: process_ok_def)
  from go.raw_call_refines [OF this q] assms(2) have l: "lib s' = l"
    by (metis option.inject prod.inject)
  from q have "export_step P (lib s) l"
    by (auto simp: call_outcome_def Let_def intro: export_step.calls export_step.idles
        split: if_splits sum.splits prod.splits)
  with l show ?thesis by simp
qed

lemma step_is_export_step:
  assumes "step P esc S a b" and "app_inv a" and "serde_ok S"
  shows "export_step P (lib (proc a)) (lib (proc b))"
proof -
  from assms(2) have ok: "process_ok (proc a)" and h: "handles_ok (lib (proc a))"
    by (simp_all add: app_inv_def)
  have free: "instances (lib (proc a)) (next_id (lib (proc a)) + 1) = None"
    if "next_id (lib (proc a)) \<noteq> - 1"
    using next_handle_free(1) [OF h that] by auto
  from assms(1) show ?thesis
    by cases (auto dest: start_is_export_step [OF ok assms(3) _ free] drop_is_export_step [OF ok]
        raw_call_is_export_step [OF ok])
qed

section \<open>Invariants the exported functions keep\<close>

locale library_invariant =
  fixes P :: "('m, 'w) packages" and I :: "'w golib \<Rightarrow> bool"
  assumes start_keeps: "I l \<Longrightarrow> golib_ok l \<Longrightarrow> instances l (next_id l + 1) = None \<Longrightarrow>
      go_start P (Some t) l = Some (r, l') \<Longrightarrow> I l'"
    and dispose_keeps: "I l \<Longrightarrow> golib_ok l \<Longrightarrow> go_dispose P h l = Some (r, l') \<Longrightarrow> I l'"
    and rpc_keeps: "I l \<Longrightarrow> go_rpc P h m tp ts req l = (q, l') \<Longrightarrow> I l'"
begin

lemma export_step_keeps: "export_step P l l' \<Longrightarrow> I l \<Longrightarrow> golib_ok l \<Longrightarrow> I l'"
  by (erule export_step_cases) (auto intro: start_keeps dispose_keeps rpc_keeps)

lemma holds_along_runs:
  assumes "reachable P esc S a b" and "initial a" and "serde_ok S" and "small_responses P"
    and "I (lib (proc a))"
  shows "I (lib (proc b))"
  using assms(1)
proof induction
  case here
  from assms(5) show ?case .
next
  case (further b c)
  from reachable_inv [OF further.hyps(1) initial_inv [OF assms(2)] assms(3,4)] have inv: "app_inv b" by simp
  then have "golib_ok (lib (proc b))" by (simp add: app_inv_def process_ok_def)
  with export_step_keeps [OF step_is_export_step [OF further.hyps(2) inv assms(3)] further.IH] show ?case .
qed

end

section \<open>Contexts\<close>

text \<open>Contexts are numbered upwards.\<close>

lemma ctx_cleanup [simp]: "next_ctx (cleanup_observability P i l) = next_ctx l"
  by (simp add: cleanup_observability_def Let_def split: option.split)

lemma ctx_metrics: "with_metrics_server P opts i l = (r, l') \<Longrightarrow> next_ctx l' = next_ctx l"
  by (auto simp: with_metrics_server_def start_metrics_server_def dest!: try_world_frame(3)
      split: if_splits prod.splits sum.splits)

lemma ctx_observability: "start_observability P opts i l = (r, l') \<Longrightarrow> next_ctx l' = next_ctx l"
  by (auto simp: start_observability_def setup_otel_tracing_def dest!: try_world_frame(3) ctx_metrics
      split: if_splits prod.splits sum.splits)

lemma ctx_proxy: "start_streaming_proxy P i c n l = (r, l') \<Longrightarrow> next_ctx l' = next_ctx l"
  by (auto simp: start_streaming_proxy_def proxy_listen_def Let_def dest!: try_world_frame(3)
      split: if_splits prod.splits sum.splits)

lemma ctx_serving: "start_serving P i n l = Some (t, l') \<Longrightarrow> next_ctx l' = next_ctx l"
  by (erule start_serving_paths) (auto dest!: try_world_frame(3) ctx_proxy)

lemma ctx_start: "go_start P opts l = Some (t, l') \<Longrightarrow> l' = l \<or> next_ctx l' = Suc (next_ctx l)"
  by (erule go_start_paths) (auto dest!: try_world_frame(3) ctx_observability ctx_serving)

lemma ctx_dispose: "go_dispose P h l = Some (t, l') \<Longrightarrow> next_ctx l' = next_ctx l"
  by (auto simp: go_dispose_def Let_def wg_wait_def stop_serving_def split: option.splits if_splits)

end
