(* ===== verification/Stores.thy ===== *)
theory Stores
  imports Library_Runs
begin

text \<open>
  What a user of the crate sees: every instance is a store of its own.  The SpiceDB server is a
  parameter, described by a \<open>service\<close>: which connections are open, to which server, which servers run
  and which have been made and do not run yet, what a server keeps and how it answers a method.  The theory shows that the library, for in-memory datastores, is a table
  of such stores: a start adds a fresh one, a call is answered from the store of its handle and changes
  no other, a dispose takes one away.
\<close>

section \<open>The server\<close>

record ('m, 'w, 'd) service =
  conns :: "'w \<Rightarrow> obj \<Rightarrow> (obj \<times> 'd) option"
  runs :: "'w \<Rightarrow> obj \<Rightarrow> obj option"
  waiting :: "'w \<Rightarrow> obj set"
  in_memory :: "'w \<Rightarrow> bool"
  fresh :: 'd
  answer :: "string \<Rightarrow> 'm \<Rightarrow> 'd \<Rightarrow> (string + 'm) \<times> 'd"

text \<open>An operation that touches neither servers nor connections.\<close>

definition same :: "('m, 'w, 'd) service \<Rightarrow> 'w \<Rightarrow> 'w \<Rightarrow> bool" where
  "same V w w' \<longleftrightarrow> (in_memory V w \<longrightarrow> in_memory V w' \<and> conns V w' = conns V w \<and> runs V w' = runs V w
     \<and> waiting V w \<subseteq> waiting V w')"

definition quiet :: "('m, 'w, 'd) service \<Rightarrow> ('w \<Rightarrow> 'a \<times> 'w) \<Rightarrow> bool" where
  "quiet V f \<longleftrightarrow> (\<forall>w. same V w (snd (f w)))"

text \<open>An operation that may change what runs under one context, and leaves the rest.\<close>

definition spares :: "('m, 'w, 'd) service \<Rightarrow> obj \<Rightarrow> 'w \<Rightarrow> 'w \<Rightarrow> bool" where
  "spares V ctx w w' \<longleftrightarrow> (in_memory V w \<longrightarrow> in_memory V w' \<and>
     (\<forall>c srv d k. conns V w c = Some (srv, d) \<and> runs V w srv = Some k \<and> k \<noteq> ctx \<longrightarrow>
        conns V w' c = Some (srv, d) \<and> runs V w' srv = Some k))"

text \<open>A call on an open connection is answered from the store of its server, whatever its metadata.\<close>

definition answers :: "('m, 'w) packages \<Rightarrow> ('m, 'w, 'd) service \<Rightarrow> bool" where
  "answers P V \<longleftrightarrow> (\<forall>md me c q w srv d. in_memory V w \<and> conns V w c = Some (srv, d) \<longrightarrow>
     fst (invoke P md me c q w) = fst (answer V me q d)
     \<and> in_memory V (snd (invoke P md me c q w))
     \<and> conns V (snd (invoke P md me c q w)) = (conns V w)(c \<mapsto> (srv, snd (answer V me q d)))
     \<and> runs V (snd (invoke P md me c q w)) = runs V w
     \<and> waiting V w \<subseteq> waiting V (snd (invoke P md me c q w)))"

text \<open>
  The documented behaviour: a server is new when it is made, runs under its context, and has an empty
  store; a connection reaches the server it was made for; cancelling a context stops the servers under
  it, closing a connection closes that one.  Nothing else touches a server.
\<close>

definition isolates :: "('m, 'w) packages \<Rightarrow> ('m, 'w, 'd) service \<Rightarrow> bool" where
  "isolates P V \<longleftrightarrow>
     (\<forall>opts e. WithEngine e \<in> set opts \<and> \<not> remote_engine e \<longrightarrow> quiet V (new_datastore P opts))
   \<and> (\<forall>ds m. quiet V (new_server P ds m))
   \<and> (\<forall>ds m w srv w'. new_server P ds m w = (Inr srv, w') \<and> in_memory V w \<longrightarrow> srv \<notin> waiting V w
        \<and> srv \<in> waiting V w')
   \<and> (\<forall>w srv. in_memory V w \<and> srv \<in> waiting V w \<longrightarrow> runs V w srv = None)
   \<and> (\<forall>srv ctx w. in_memory V w \<longrightarrow> in_memory V (run_server P srv ctx w)
        \<and> conns V (run_server P srv ctx w) = conns V w
        \<and> runs V (run_server P srv ctx w) = (runs V w)(srv \<mapsto> ctx)
        \<and> waiting V w - {srv} \<subseteq> waiting V (run_server P srv ctx w))
   \<and> (\<forall>srv w e w'. new_client P srv w = (Inl e, w') \<longrightarrow> same V w w')
   \<and> (\<forall>srv w c w'. new_client P srv w = (Inr c, w') \<and> in_memory V w \<longrightarrow> conns V w c = None
        \<and> in_memory V w' \<and> conns V w' = (conns V w)(c \<mapsto> (srv, fresh V)) \<and> runs V w' = runs V w
        \<and> waiting V w \<subseteq> waiting V w')
   \<and> (\<forall>ctx w. spares V ctx w (cancel_context P ctx w))
   \<and> (\<forall>ctx w. in_memory V w \<longrightarrow> conns V (cancel_context P ctx w) \<subseteq>\<^sub>m conns V w
        \<and> runs V (cancel_context P ctx w) \<subseteq>\<^sub>m runs V w
        \<and> waiting V w \<subseteq> waiting V (cancel_context P ctx w))
   \<and> (\<forall>c w. in_memory V w \<longrightarrow> in_memory V (close_conn P c w)
        \<and> (\<forall>k. k \<noteq> c \<longrightarrow> conns V (close_conn P c w) k = conns V w k)
        \<and> runs V (close_conn P c w) = runs V w \<and> waiting V w \<subseteq> waiting V (close_conn P c w))
   \<and> (\<forall>e n. quiet V (new_tracer P e n)) \<and> (\<forall>t w. same V w (shutdown_tracer P t w))
   \<and> (\<forall>a. quiet V (serve_metrics P a)) \<and> (\<forall>v w. same V w (shutdown_metrics P v w))
   \<and> (\<forall>a. quiet V (listen_unix P a)) \<and> (\<forall>a. quiet V (listen_tcp P a))
   \<and> (\<forall>v w. same V w (close_listener P v w)) \<and> (\<forall>f w. same V w (remove_file P f w))
   \<and> (\<forall>c v. quiet V (serve_proxy P c v)) \<and> (\<forall>v w. same V w (graceful_stop P v w))
   \<and> answers P V"

lemma isolates_quiet:
  assumes "isolates P V"
  shows "WithEngine e \<in> set opts \<Longrightarrow> \<not> remote_engine e \<Longrightarrow> quiet V (new_datastore P opts)"
    and "quiet V (new_server P ds m)" and "quiet V (new_tracer P ep n)" and "quiet V (serve_metrics P a)"
    and "quiet V (listen_unix P a)" and "quiet V (listen_tcp P a)" and "quiet V (serve_proxy P c v)"
  using assms by (auto simp: isolates_def)

lemma isolates_same:
  assumes "isolates P V"
  shows "same V w (shutdown_tracer P t w)" and "same V w (shutdown_metrics P t w)"
    and "same V w (close_listener P t w)" and "same V w (remove_file P f w)" and "same V w (graceful_stop P t w)"
    and "new_client P srv w = (Inl e, w') \<Longrightarrow> same V w w'"
  using assms by (auto simp: isolates_def)

lemma isolates_servers:
  assumes "isolates P V"
  shows "new_server P ds m w = (Inr srv, w') \<Longrightarrow> in_memory V w \<Longrightarrow> srv \<notin> waiting V w \<and> srv \<in> waiting V w'"
    and "in_memory V w \<Longrightarrow> in_memory V (run_server P srv ctx w)
        \<and> conns V (run_server P srv ctx w) = conns V w
        \<and> runs V (run_server P srv ctx w) = (runs V w)(srv \<mapsto> ctx)
        \<and> waiting V w - {srv} \<subseteq> waiting V (run_server P srv ctx w)"
    and "new_client P srv w = (Inr c, w') \<Longrightarrow> in_memory V w \<Longrightarrow> conns V w c = None
        \<and> in_memory V w' \<and> conns V w' = (conns V w)(c \<mapsto> (srv, fresh V)) \<and> runs V w' = runs V w
        \<and> waiting V w \<subseteq> waiting V w'"
    and "spares V ctx w (cancel_context P ctx w)"
    and "in_memory V w \<Longrightarrow> conns V (cancel_context P ctx w) \<subseteq>\<^sub>m conns V w
        \<and> runs V (cancel_context P ctx w) \<subseteq>\<^sub>m runs V w
        \<and> waiting V w \<subseteq> waiting V (cancel_context P ctx w)"
    and "in_memory V w \<Longrightarrow> in_memory V (close_conn P c w)
        \<and> (\<forall>k. k \<noteq> c \<longrightarrow> conns V (close_conn P c w) k = conns V w k)
        \<and> runs V (close_conn P c w) = runs V w \<and> waiting V w \<subseteq> waiting V (close_conn P c w)"
    and "in_memory V w \<Longrightarrow> srv \<in> waiting V w \<Longrightarrow> runs V w srv = None"
  using assms by (auto simp: isolates_def)

lemma isolates_invoke:
  assumes "isolates P V" and "in_memory V w" and "conns V w c = Some (srv, d)"
    and "invoke P md me c q w = (r, w')" and "answer V me q d = (r', d')"
  shows "r = r' \<and> in_memory V w' \<and> conns V w' = (conns V w)(c \<mapsto> (srv, d')) \<and> runs V w' = runs V w
    \<and> waiting V w \<subseteq> waiting V w'"
proof -
  from assms(1) have "answers P V" by (simp add: isolates_def)
  with assms(2,3) have "fst (invoke P md me c q w) = fst (answer V me q d)
     \<and> in_memory V (snd (invoke P md me c q w))
     \<and> conns V (snd (invoke P md me c q w)) = (conns V w)(c \<mapsto> (srv, snd (answer V me q d)))
     \<and> runs V (snd (invoke P md me c q w)) = runs V w
     \<and> waiting V w \<subseteq> waiting V (snd (invoke P md me c q w))" by (simp add: answers_def)
  with assms(4,5) show ?thesis by simp
qed

section \<open>Unchanged parts of the world\<close>

lemma same_refl [simp]: "same V w w"
  by (simp add: same_def)

lemma same_trans: "same V w w' \<Longrightarrow> same V w' w'' \<Longrightarrow> same V w w''"
  by (auto simp: same_def)

lemma spares_refl [simp]: "spares V k w w"
  by (simp add: spares_def)

lemma spares_trans: "spares V k w w' \<Longrightarrow> spares V k w' w'' \<Longrightarrow> spares V k w w''"
  unfolding spares_def by blast

lemma same_spares: "same V w w' \<Longrightarrow> spares V k w w'"
  by (auto simp: same_def spares_def)

lemma quiet_try: "quiet V f \<Longrightarrow> try_world f l = (r, l') \<Longrightarrow> same V (world l) (world l')"
  by (auto simp: quiet_def try_world_def split: prod.splits dest!: spec [of _ "world l"])

lemma world_on_world [simp]: "world (on_world f l) = f (world l)"
  by (simp add: on_world_def)

lemma same_cleanup:
  assumes "isolates P V"
  shows "same V (world l) (world (cleanup_observability P i l))"
  using isolates_same(1,2) [OF assms]
  by (auto simp: cleanup_observability_def Let_def split: option.split
      intro: same_trans [OF isolates_same(2) [OF assms] isolates_same(1) [OF assms]])

lemma spares_cancel: "isolates P V \<Longrightarrow> spares V k w (cancel_context P k w)"
  by (rule isolates_servers(4))

lemma spares_teardown:
  assumes "isolates P V" and "spares V k w (world l)"
  shows "spares V k w (world (cleanup_observability P i (on_world (cancel_context P k) l)))"
proof -
  have "spares V k (world l) (world (on_world (cancel_context P k) l))"
    using spares_cancel [OF assms(1), of k "world l"] by simp
  from spares_trans [OF assms(2) this] same_spares [OF same_cleanup [OF assms(1)]]
  show ?thesis by (rule spares_trans)
qed

lemma same_metrics:
  assumes "isolates P V" and "with_metrics_server P opts i l = (r, l')"
  shows "spares V (cancel i) (world l) (world l')" and "r = Inr j \<Longrightarrow> same V (world l) (world l')"
proof -
  let ?a = "(if MetricsHost opts = [] then ''0.0.0.0'' else MetricsHost opts) @ '':'' @ dec_int (MetricsPort opts)"
  obtain q l1 where q: "try_world (serve_metrics P ?a) l = (q, l1)" by fastforce
  note s = quiet_try [OF isolates_quiet(4) [OF assms(1)] q]
  have "spares V (cancel i) (world l)
      (world (cleanup_observability P i (on_world (cancel_context P (cancel i)) l1)))"
    by (rule spares_teardown [OF assms(1) same_spares [OF s]])
  with assms(2) q s show "spares V (cancel i) (world l) (world l')"
    by (auto simp: with_metrics_server_def start_metrics_server_def intro: same_spares split: if_splits sum.splits
        simp del: append_Cons append_Nil)
  from assms(2) q s show "same V (world l) (world l')" if "r = Inr j"
    using that by (auto simp: with_metrics_server_def start_metrics_server_def split: if_splits sum.splits
        simp del: append_Cons append_Nil)
qed

lemma same_observability:
  assumes "isolates P V" and "start_observability P opts i l = (r, l')"
  shows "spares V (cancel i) (world l) (world l')" and "r = Inr j \<Longrightarrow> same V (world l) (world l')"
proof -
  let ?n = "if OTLPServiceName opts = [] then ''spicedb'' else OTLPServiceName opts"
  obtain q l1 where q: "try_world (new_tracer P (OTLPEndpoint opts) ?n) l = (q, l1)" by fastforce
  note s = quiet_try [OF isolates_quiet(3) [OF assms(1)] q]
  let ?on = "MetricsEnabled opts \<and> OTLPEndpoint opts \<noteq> []"
  have *: "spares V (cancel i) (world l) (world l') \<and> (\<forall>j. r = Inr j \<longrightarrow> same V (world l) (world l'))"
  proof (cases ?on)
    case False
    with assms(2) have "with_metrics_server P opts i l = (r, l')" by (simp only: start_observability_def if_False)
    with same_metrics [OF assms(1) this] show ?thesis by blast
  next
    case True
    show ?thesis
    proof (cases q)
      case (Inl e)
      with True q assms(2) have "r = Inl (''failed to configure OTLP tracing: '' @ e)"
        "l' = on_world (cancel_context P (cancel i)) l1"
        by (simp_all add: start_observability_def setup_otel_tracing_def)
      with same_spares [OF s] spares_cancel [OF assms(1)] show ?thesis by (auto intro: spares_trans)
    next
      case (Inr tp)
      let ?i = "i\<lparr>tracer_provider := Some tp, prev_tracer_provider := global_tracer l1\<rparr>"
      from True q Inr assms(2) have w: "with_metrics_server P opts ?i (l1\<lparr>global_tracer := tp\<rparr>) = (r, l')"
        by (simp add: start_observability_def setup_otel_tracing_def)
      have "spares V (cancel i) (world l1) (world l')" using same_metrics(1) [OF assms(1) w] by simp
      moreover have "same V (world l1) (world l')" if "r = Inr j" for j
        using same_metrics(2) [OF assms(1) w that] by simp
      ultimately show ?thesis using s by (blast intro: spares_trans same_spares same_trans)
    qed
  qed
  from * show "spares V (cancel i) (world l) (world l')" by blast
  from * show "r = Inr j \<Longrightarrow> same V (world l) (world l')" by blast
qed

lemma same_proxy:
  assumes "isolates P V" and "start_streaming_proxy P i conn n l = (r, l')"
  shows "same V (world l) (world l')"
proof -
  obtain q l1 where q: "proxy_listen P n l = (q, l1)" by fastforce
  have "same V (world l) (world l1)"
  proof (cases "is_windows P")
    case True
    with q have "try_world (listen_tcp P ''127.0.0.1:0'') l = (q, l1)" by (simp add: proxy_listen_def)
    from quiet_try [OF isolates_quiet(6) [OF assms(1)] this] show ?thesis .
  next
    case False
    let ?a = "streaming_proxy_addr P n"
    obtain p l2 where p: "try_world (listen_unix P ?a) (on_world (remove_file P ?a) l) = (p, l2)" by fastforce
    from quiet_try [OF isolates_quiet(5) [OF assms(1)] p] isolates_same(4) [OF assms(1), of "world l" ?a]
    have "same V (world l) (world l2)" by (auto intro: same_trans)
    with p q False show ?thesis by (cases p) (auto simp: proxy_listen_def Let_def)
  qed
  moreover have "same V w (snd (serve_proxy P conn v w))" for v w
    using isolates_quiet(7) [OF assms(1), of conn v] by (simp add: quiet_def)
  ultimately show ?thesis
    using assms(2) q by (auto simp: start_streaming_proxy_def Let_def split: sum.splits prod.splits)
      (metis same_trans snd_conv)
qed

section \<open>Start, dispose and calls\<close>

text \<open>An instance reaches the store of its own server, which runs under its context.\<close>

definition backed :: "('m, 'w, 'd) service \<Rightarrow> instance_rec \<Rightarrow> 'w \<Rightarrow> 'd \<Rightarrow> bool" where
  "backed V i w d \<longleftrightarrow>
     (\<exists>c. client_conn i = Some c \<and> conns V w c = Some (server i, d) \<and> runs V w (server i) = Some (cancel i))"

lemma backed_spared:
  "backed V i w d \<Longrightarrow> spares V k w w' \<Longrightarrow> in_memory V w \<Longrightarrow> cancel i \<noteq> k \<Longrightarrow> backed V i w' d"
  by (auto simp: backed_def spares_def)

lemma spares_run:
  assumes "isolates P V" and "runs V w srv = None"
  shows "spares V k w (run_server P srv ctx w)"
  using isolates_servers(2) [OF assms(1), of w srv ctx] assms(2) by (auto simp: spares_def)

lemma spares_client:
  assumes "isolates P V" and "new_client P srv w = (r, w')"
  shows "spares V k w w'"
proof (cases r)
  case (Inl e)
  with assms show ?thesis by (auto intro: same_spares isolates_same(6))
next
  case (Inr c)
  with isolates_servers(3) [OF assms(1), of srv w c w'] assms(2) show ?thesis by (auto simp: spares_def)
qed

lemma try_client:
  "try_world (new_client P srv) l = (r, l') \<Longrightarrow> new_client P srv (world l) = (r, world l')"
  by (auto simp: try_world_def split: prod.splits)

lemma serving_stores:
  assumes "isolates P V" and "in_memory V (world l)" and "runs V (world l) (server i) = None"
    and "start_serving P i n l = Some (t, l')"
  shows "spares V (cancel i) (world l) (world l')
    \<and> (instances l' = instances l \<or> (\<exists>j. instances l' = (instances l)(n \<mapsto> j) \<and> cancel j = cancel i
         \<and> backed V j (world l') (fresh V)))"
proof -
  let ?l = "on_world (run_server P (server i) (cancel i)) l"
  note run = spares_run [OF assms(1,3), of "cancel i" "cancel i"]
  note srv = isolates_servers(2) [OF assms(1,2), of "server i" "cancel i"]
  from assms(4) show ?thesis
  proof (cases rule: start_serving_paths)
    case (no_client e l1)
    from spares_client [OF assms(1) try_client [OF no_client(1)], of "cancel i"] run
    have "spares V (cancel i) (world l) (world l1)" by (auto intro: spares_trans)
    from spares_teardown [OF assms(1) this] no_client(2) try_world_frame(1) [OF no_client(1)]
    show ?thesis by simp
  next
    case (no_proxy conn l1 e l2)
    from spares_client [OF assms(1) try_client [OF no_proxy(1)], of "cancel i"] run
      same_spares [OF same_proxy [OF assms(1) no_proxy(2)], of "cancel i"]
    have "spares V (cancel i) (world l) (world l2)" by (auto intro: spares_trans)
    from spares_teardown [OF assms(1) this] no_proxy(3) try_world_frame(1) [OF no_proxy(1)]
      start_proxy_result(1) [OF no_proxy(2)] show ?thesis by simp
  next
    case (published conn l1 j l2)
    from spares_client [OF assms(1) try_client [OF published(1)], of "cancel i"] run
      same_spares [OF same_proxy [OF assms(1) published(2)], of "cancel i"]
    have sp: "spares V (cancel i) (world l) (world l2)" by (auto intro: spares_trans)
    from isolates_servers(3) [OF assms(1) try_client [OF published(1)]] srv
    have "in_memory V (world l1)" "conns V (world l1) conn = Some (server i, fresh V)"
      "runs V (world l1) (server i) = Some (cancel i)" by simp_all
    with same_proxy [OF assms(1) published(2)]
    have "conns V (world l2) conn = Some (server i, fresh V)" "runs V (world l2) (server i) = Some (cancel i)"
      by (auto simp: same_def)
    with start_proxy_result(4) [OF published(2)] have "cancel j = cancel i" "backed V j (world l2) (fresh V)"
      by (auto simp: backed_def)
    with published(3) sp try_world_frame(1) [OF published(1)] start_proxy_result(1) [OF published(2)]
    show ?thesis by auto
  qed
qed

lemma metrics_fields:
  "with_metrics_server P opts i l = (Inr j, l') \<Longrightarrow> server j = server i \<and> cancel j = cancel i"
  by (auto simp: with_metrics_server_def split: if_splits sum.splits prod.splits)

lemma observability_fields:
  "start_observability P opts i l = (Inr j, l') \<Longrightarrow> server j = server i \<and> cancel j = cancel i"
  by (auto simp: start_observability_def dest!: metrics_fields split: if_splits sum.splits prod.splits)

definition memory_engine :: "string option \<Rightarrow> bool" where
  "memory_engine opts \<longleftrightarrow> \<not> remote_engine (go_engine (parse_start_options opts))"

lemma start_stores:
  assumes "isolates P V" and "in_memory V (world l)" and "memory_engine opts"
    and "go_start P opts l = Some (t, l')"
  shows "spares V (next_ctx l) (world l) (world l')
    \<and> (instances l' = instances l \<or> (\<exists>j. instances l' = (instances l)(next_id l + 1 \<mapsto> j)
         \<and> cancel j = next_ctx l \<and> backed V j (world l') (fresh V)))"
proof -
  let ?o = "parse_start_options opts"
  have q: "quiet V (new_datastore P (datastore_options ?o))"
    using assms(3) by (intro isolates_quiet(1) [OF assms(1), of "go_engine ?o"])
      (simp_all add: datastore_options_def memory_engine_def)
  note sv = isolates_quiet(2) [OF assms(1)] and can = spares_cancel [OF assms(1)]
  have blank: "cancel (blank_instance c) = c" "tracer_provider (blank_instance c) = None" for c
    by (simp_all add: blank_instance_def)
  from assms(4) show ?thesis
  proof (cases rule: go_start_paths)
    case refused
    then show ?thesis by simp
  next
    case (no_datastore e l1)
    from quiet_try [OF q no_datastore(1)] can [of "next_ctx l" "world l1"] no_datastore(2)
      try_world_frame(1) [OF no_datastore(1)] show ?thesis
      by (auto intro: spares_trans same_spares)
  next
    case (no_server ds l1 m e l2)
    from quiet_try [OF q no_server(1)] quiet_try [OF sv no_server(2)]
    have "same V (world l) (world l2)" by (auto intro: same_trans)
    with can [of "next_ctx l" "world l2"] no_server(3) try_world_frame(1) [OF no_server(1)]
      try_world_frame(1) [OF no_server(2)] show ?thesis
      by (auto intro: spares_trans same_spares)
  next
    case (no_observability ds l1 m srv l2 e)
    from quiet_try [OF q no_observability(1)] quiet_try [OF sv no_observability(2)]
    have "same V (world l) (world l2)" by (auto intro: same_trans)
    with same_observability(1) [OF assms(1) no_observability(3)] try_world_frame(1) [OF no_observability(1)]
      try_world_frame(1) [OF no_observability(2)] start_observability_frame [OF no_observability(3)]
    show ?thesis by (auto simp: blank intro: spares_trans same_spares)
  next
    case (serving ds l1 m srv l2 i l3)
    from quiet_try [OF q serving(1)] quiet_try [OF sv serving(2)]
    have s2: "same V (world l) (world l2)" by (auto intro: same_trans)
    have s3: "same V (world l2) (world l3)" by (rule same_observability(2) [OF assms(1) serving(3)]) simp
    from s2 s3 have s: "same V (world l) (world l3)" by (rule same_trans)
    from quiet_try [OF q serving(1)] assms(2) have "in_memory V (world l1)" by (simp add: same_def)
    with serving(2) have "srv \<in> waiting V (world l2)"
      by (auto simp: try_world_def split: prod.splits dest: isolates_servers(1) [OF assms(1)])
    with s2 assms(2) have "runs V (world l2) srv = None"
      by (intro isolates_servers(7) [OF assms(1)]) (simp_all add: same_def)
    moreover have "server i = srv" "cancel i = next_ctx l"
      using observability_fields [OF serving(3)] by (simp_all add: blank)
    ultimately have "in_memory V (world l3)" "runs V (world l3) (server i) = None" "cancel i = next_ctx l"
      using s s2 s3 assms(2) by (auto simp: same_def)
    from serving_stores [OF assms(1) this(1,2) serving(4)] this(3) same_spares [OF s]
      try_world_frame(1) [OF serving(1)] try_world_frame(1) [OF serving(2)] start_observability_frame [OF serving(3)]
    show ?thesis by (auto simp: blank intro: spares_trans)
  qed
qed

lemma map_le_Some: "m \<subseteq>\<^sub>m n \<Longrightarrow> m k = Some v \<Longrightarrow> n k = Some v"
  by (force simp: map_le_def)

lemma spares_close:
  assumes "isolates P V" and "backed V i w d" and "client_conn i = Some c" and "in_memory V w"
  shows "spares V (cancel i) w (close_conn P c (cancel_context P (cancel i) w))"
proof -
  let ?w = "cancel_context P (cancel i) w"
  note can = spares_cancel [OF assms(1), of "cancel i" w]
  from can assms(4) have m: "in_memory V ?w" by (simp add: spares_def)
  note le = isolates_servers(5) [OF assms(1,4), of "cancel i"]
  from assms(2,3) have w: "conns V w c = Some (server i, d)" "runs V w (server i) = Some (cancel i)"
    by (auto simp: backed_def)
  have "k = cancel i" if "conns V ?w c = Some (srv, d')" "runs V ?w srv = Some k" for srv d' k
    using that le w map_le_Some [of _ "conns V w"] map_le_Some [of _ "runs V w"] by fastforce
  with isolates_servers(6) [OF assms(1) m, of c] have "spares V (cancel i) ?w (close_conn P c ?w)"
    by (fastforce simp: spares_def)
  with can show ?thesis by (rule spares_trans)
qed

lemma dispose_stores:
  assumes "isolates P V" and "in_memory V (world l)" and "instances l h = Some i"
    and "backed V i (world l) d" and "go_dispose P h l = Some (t, l')"
  shows "spares V (cancel i) (world l) (world l')"
proof -
  from assms(4) obtain c where c: "client_conn i = Some c" by (auto simp: backed_def)
  let ?w = "close_conn P c (cancel_context P (cancel i) (world l))"
  let ?l = "stop_serving P i (l\<lparr>instances := (instances l)(h := None)\<rparr>)"
  note q = isolates_same [OF assms(1)]
  have "same V ?w (world ?l)"
    by (auto simp: stop_serving_def Let_def c q split: option.split intro: same_trans [OF q(5) q(3)])
  with spares_close [OF assms(1,4) c assms(2)] have "spares V (cancel i) (world l) (world ?l)"
    by (blast intro: spares_trans same_spares)
  moreover have "same V (world ?l) (world (cleanup_observability P i ?l))" by (rule same_cleanup [OF assms(1)])
  ultimately have sp: "spares V (cancel i) (world l) (world (cleanup_observability P i ?l))"
    by (blast intro: spares_trans same_spares)
  have "world l' = world (cleanup_observability P i ?l)
      \<or> world l' = remove_file P (streaming_addr i) (world (cleanup_observability P i ?l))"
    using assms(3,5) by (auto simp: go_dispose_def Let_def wg_wait_def split: if_splits)
  with sp show ?thesis using q(4) by (metis spares_trans same_spares)
qed

section \<open>The table of stores\<close>

text \<open>A unary call on a table of stores.\<close>

definition store_rpc ::
    "('m, 'w) packages \<Rightarrow> ('m, 'w, 'd) service \<Rightarrow> u64 \<Rightarrow> string \<Rightarrow> string option \<Rightarrow> string option \<Rightarrow> bytes \<Rightarrow>
     (u64 \<rightharpoonup> 'd) \<Rightarrow> (string + bytes) \<times> (u64 \<rightharpoonup> 'd)" where
  "store_rpc P V handle method tp ts req A =
     (let name = c_text method
      in case map_of rpc_messages name of
           None \<Rightarrow> (Inl (''unsupported method: '' @ name), A)
         | Some (req_type, resp_type) \<Rightarrow>
             (case A handle of
                None \<Rightarrow> (Inl (invalid_handle handle), A)
              | Some d \<Rightarrow>
                  (case unmarshal P req_type req of
                     Inl e \<Rightarrow> (Inl e, A)
                   | Inr q \<Rightarrow>
                       (case answer V name q d of
                          (Inl e, d') \<Rightarrow> (Inl e, A(handle \<mapsto> d'))
                        | (Inr resp, d') \<Rightarrow>
                            (map_err (\<lambda>e. ''failed to marshal response: '' @ e) (marshal P resp),
                             A(handle \<mapsto> d'))))))"

definition simulates :: "('m, 'w, 'd) service \<Rightarrow> (u64 \<rightharpoonup> 'd) \<Rightarrow> 'w golib \<Rightarrow> bool" where
  "simulates V A l \<longleftrightarrow> in_memory V (world l) \<and> dom A = dom (instances l)
     \<and> (\<forall>h i. instances l h = Some i \<longrightarrow> cancel i < next_ctx l \<and> backed V i (world l) (the (A h)))
     \<and> (\<forall>h k i j. instances l h = Some i \<and> instances l k = Some j \<and> cancel i = cancel j \<longrightarrow> h = k)"

lemma simulatesD:
  assumes "simulates V A l"
  shows "in_memory V (world l)" and "A h = None \<longleftrightarrow> instances l h = None"
    and "instances l h = Some i \<Longrightarrow> cancel i < next_ctx l \<and> backed V i (world l) (the (A h))"
    and "instances l h = Some i \<Longrightarrow> instances l k = Some j \<Longrightarrow> cancel i = cancel j \<Longrightarrow> h = k"
  using assms by (auto simp: simulates_def)

lemma start_simulates:
  assumes "isolates P V" and "simulates V A l" and "memory_engine opts"
    and "instances l (next_id l + 1) = None" and "go_start P opts l = Some (t, l')"
  shows "if instances l' = instances l then simulates V A l'
    else simulates V (A(next_id l + 1 \<mapsto> fresh V)) l'"
proof -
  note D = simulatesD [OF assms(2)]
  from start_stores [OF assms(1) D(1) assms(3,5)] have sp: "spares V (next_ctx l) (world l) (world l')"
    and cases: "instances l' = instances l \<or> (\<exists>j. instances l' = (instances l)(next_id l + 1 \<mapsto> j)
         \<and> cancel j = next_ctx l \<and> backed V j (world l') (fresh V))" by auto
  from sp D(1) have mem: "in_memory V (world l')" by (simp add: spares_def)
  have ctx: "l' = l \<or> next_ctx l' = Suc (next_ctx l)" by (rule ctx_start [OF assms(5)])
  have old: "cancel i < next_ctx l' \<and> backed V i (world l') (the (A h))" if "instances l h = Some i" for h i
    using D(3) [OF that] backed_spared [OF _ sp D(1)] ctx by auto
  from cases show ?thesis
  proof
    assume "instances l' = instances l"
    with assms(2) mem old show ?thesis by (simp add: simulates_def)
  next
    assume "\<exists>j. instances l' = (instances l)(next_id l + 1 \<mapsto> j)
         \<and> cancel j = next_ctx l \<and> backed V j (world l') (fresh V)"
    then obtain j where j: "instances l' = (instances l)(next_id l + 1 \<mapsto> j)" "cancel j = next_ctx l"
      "backed V j (world l') (fresh V)" by blast
    with assms(4) have ne: "instances l' \<noteq> instances l" by (auto dest: fun_cong [of _ _ "next_id l + 1"])
    with ctx have "next_ctx l' = Suc (next_ctx l)" by auto
    moreover have "cancel i \<noteq> next_ctx l" if "instances l h = Some i" for h i using D(3) [OF that] by simp
    moreover have "dom A = dom (instances l)" using assms(2) by (simp add: simulates_def)
    ultimately have "simulates V (A(next_id l + 1 \<mapsto> fresh V)) l'"
      using mem old j D(4) by (auto simp: simulates_def split: if_splits) blast
    with ne show ?thesis by simp
  qed
qed

lemma dispose_simulates:
  assumes "isolates P V" and "simulates V A l" and "golib_ok l" and "go_dispose P h l = Some (t, l')"
  shows "simulates V (A(h := None)) l'"
proof (cases "instances l h")
  case None
  with simulatesD(2) [OF assms(2), of h] have "A(h := None) = A" by (simp add: fun_upd_idem)
  with assms(2,4) None show ?thesis by (simp add: go_dispose_invalid)
next
  case (Some i)
  note D = simulatesD [OF assms(2)]
  from D(3) [OF Some] have "backed V i (world l) (the (A h))" by simp
  then have sp: "spares V (cancel i) (world l) (world l')"
    by (rule dispose_stores [OF assms(1) D(1) Some _ assms(4)])
  from go_dispose_ok [OF assms(3), of P h] assms(4) have i: "instances l' = (instances l)(h := None)" by auto
  have ctx: "next_ctx l' = next_ctx l" by (rule ctx_dispose [OF assms(4)])
  have "cancel j < next_ctx l' \<and> backed V j (world l') (the (A k))" if "instances l k = Some j" "k \<noteq> h" for k j
    using D(3) [OF that(1)] backed_spared [OF _ sp D(1)] ctx D(4) [OF that(1) Some] that(2) by auto
  moreover have "in_memory V (world l')" using sp D(1) by (simp add: spares_def)
  moreover have "dom A = dom (instances l)" using assms(2) by (simp add: simulates_def)
  ultimately show ?thesis using i D(4) by (auto simp: simulates_def split: if_splits)
qed

lemma rpc_simulates:
  assumes "isolates P V" and "simulates V A l" and "go_rpc P h m tp ts req l = (r, l')"
  shows "\<exists>A'. store_rpc P V h m tp ts req A = (r, A') \<and> simulates V A' l'"
proof (cases "map_of rpc_messages (c_text m)")
  case None
  with assms(2,3) show ?thesis by (simp add: go_rpc_def store_rpc_def)
next
  case (Some ty)
  obtain rt pt where ty: "ty = (rt, pt)" by (cases ty) auto
  note D = simulatesD [OF assms(2)]
  show ?thesis
  proof (cases "instances l h")
    case None
    with D(2) [of h] Some ty assms(2,3) show ?thesis by (simp add: go_rpc_def store_rpc_def run_rpc_def)
  next
    case i: (Some i)
    from D(2) [of h] i obtain d where d: "A h = Some d" by (cases "A h") auto
    with D(3) [OF i] obtain c where c: "client_conn i = Some c" "conns V (world l) c = Some (server i, d)"
      "runs V (world l) (server i) = Some (cancel i)" by (auto simp: backed_def)
    show ?thesis
    proof (cases "unmarshal P rt req")
      case (Inl e)
      with i c d Some ty assms(2,3) show ?thesis by (simp add: go_rpc_def store_rpc_def run_rpc_def)
    next
      case (Inr q)
      let ?md = "trace_metadata (go_string tp) (go_string ts)"
      obtain x w where x: "invoke P ?md (c_text m) c q (world l) = (x, w)" by fastforce
      obtain y d' where y: "answer V (c_text m) q d = (y, d')" by fastforce
      from isolates_invoke [OF assms(1) D(1) c(2) x y] have xy: "x = y" and w: "in_memory V w"
        "conns V w = (conns V (world l))(c \<mapsto> (server i, d'))" "runs V w = runs V (world l)" by simp_all
      from i c Inr x Some ty assms(3) have l': "l' = l\<lparr>world := w\<rparr>"
        by (auto simp: go_rpc_def run_rpc_def try_world_def split: sum.splits)
      from i c d Inr x y xy Some ty assms(3) have st: "store_rpc P V h m tp ts req A = (r, A(h \<mapsto> d'))"
        by (auto simp: go_rpc_def run_rpc_def try_world_def store_rpc_def split: sum.splits)
      have "backed V j w (the ((A(h \<mapsto> d')) k))" if j: "instances l k = Some j" for k j
      proof (cases "k = h")
        case True
        with j i c w show ?thesis by (simp add: backed_def)
      next
        case False
        from D(3) [OF j] obtain c' where c': "client_conn j = Some c'"
          "conns V (world l) c' = Some (server j, the (A k))" "runs V (world l) (server j) = Some (cancel j)"
          by (auto simp: backed_def)
        from False D(4) [OF j i] have "cancel j \<noteq> cancel i" by blast
        with c c' have "c' \<noteq> c" by auto
        with c' w False show ?thesis by (simp add: backed_def)
      qed
      moreover have "dom (A(h \<mapsto> d')) = dom (instances l)" using assms(2) i by (auto simp: simulates_def)
      ultimately have "simulates V (A(h \<mapsto> d')) l'"
        using D(3,4) w(1) l' by (simp add: simulates_def)
      with st show ?thesis by blast
    qed
  qed
qed

end
