(* ===== verification/Sample_Stores.thy ===== *)
theory Sample_Stores
  imports Stores
begin

text \<open>
  A choice of packages around any answering function of a server, which has the behaviour \<open>isolates\<close>
  asks for, and a server that counts its requests, for the worked examples.
\<close>

record 'd store_world =
  open_conns :: "obj \<rightharpoonup> obj \<times> 'd"
  running :: "obj \<rightharpoonup> obj"
  next_obj :: obj

definition new_obj :: "'d store_world \<Rightarrow> (string + obj) \<times> 'd store_world" where
  "new_obj w = (Inr (next_obj w), w\<lparr>next_obj := Suc (next_obj w)\<rparr>)"

type_synonym 'd answering = "string \<Rightarrow> bytes \<Rightarrow> 'd \<Rightarrow> (string + bytes) \<times> 'd"

definition store_packages :: "'d \<Rightarrow> 'd answering \<Rightarrow> (bytes, 'd store_world) packages" where
  "store_packages d0 ans =
     \<lparr>is_windows = False, temp_file = (\<lambda>n. ''/tmp/'' @ n), process_id = 7,
      new_datastore = (\<lambda>opts. new_obj), new_server = (\<lambda>ds m. new_obj),
      new_client = (\<lambda>srv w. (Inr (next_obj w),
        w\<lparr>open_conns := (open_conns w)(next_obj w \<mapsto> (srv, d0)), next_obj := Suc (next_obj w)\<rparr>)),
      run_server = (\<lambda>srv ctx w. w\<lparr>running := (running w)(srv \<mapsto> ctx), next_obj := max (next_obj w) (Suc srv)\<rparr>),
      cancel_context = (\<lambda>ctx w. w\<lparr>running := (\<lambda>srv. if running w srv = Some ctx then None else running w srv)\<rparr>),
      close_conn = (\<lambda>c w. w\<lparr>open_conns := (open_conns w)(c := None)\<rparr>),
      new_tracer = (\<lambda>e n. new_obj), shutdown_tracer = (\<lambda>t w. w),
      serve_metrics = (\<lambda>a. new_obj), shutdown_metrics = (\<lambda>v w. w),
      listen_unix = (\<lambda>a. new_obj), listen_tcp = (\<lambda>a w. (Inl ''no network'', w)),
      close_listener = (\<lambda>v w. w), remove_file = (\<lambda>f w. w),
      serve_proxy = (\<lambda>c v w. (next_obj w, w\<lparr>next_obj := Suc (next_obj w)\<rparr>)),
      graceful_stop = (\<lambda>v w. w),
      unmarshal = (\<lambda>ty bs. Inr bs),
      marshal = (\<lambda>m. if length m < 2 ^ 31 then Inr m else Inl ''message too large''),
      invoke = (\<lambda>md me c q w.
        (case open_conns w c of
           None \<Rightarrow> (Inl ''the client connection is closing'', w)
         | Some (srv, d) \<Rightarrow>
             (let (r, d') = ans me q d in (r, w\<lparr>open_conns := (open_conns w)(c \<mapsto> (srv, d'))\<rparr>))))\<rparr>"

definition store_service :: "'d \<Rightarrow> 'd answering \<Rightarrow> (bytes, 'd store_world, 'd) service" where
  "store_service d0 ans =
     \<lparr>conns = open_conns, runs = running,
      waiting = (\<lambda>w. {srv. srv < next_obj w \<and> running w srv = None}),
      in_memory = (\<lambda>w. \<forall>n \<ge> next_obj w. open_conns w n = None \<and> running w n = None),
      fresh = d0, answer = ans\<rparr>"

lemma store_packages_isolate: "isolates (store_packages d0 ans) (store_service d0 ans)"
  unfolding isolates_def
  by (intro conjI allI impI)
    (auto simp: store_packages_def store_service_def quiet_def same_def spares_def new_obj_def answers_def
      map_le_def Let_def split: prod.split if_splits)

definition store_lib :: "'d store_world golib" where
  "store_lib = \<lparr>instances = Map.empty, next_id = 0, next_ctx = 0, global_tracer = 0,
     world = \<lparr>open_conns = Map.empty, running = Map.empty, next_obj = 1\<rparr>\<rparr>"

definition store_app :: "'d store_world app" where
  "store_app = \<lparr>proc = \<lparr>mem = \<lparr>blocks = Map.empty, brk = 1\<rparr>, lib = store_lib\<rparr>, owned = []\<rparr>"

lemma store_app_initial: "initial store_app" "in_memory (store_service d0 ans) (world (lib (proc store_app)))"
    "next_id (lib (proc store_app)) = 0"
  by (simp_all add: initial_def store_app_def store_lib_def process_ok_def golib_ok_def heap_ok_def store_service_def)

lemma store_small: "small_responses (store_packages d0 ans)"
  by (auto simp: small_responses_def store_packages_def split: if_splits)

lemma store_start:
  assumes "process_ok s"
  shows "\<exists>db s1. start (go_ffi (store_packages d0 ans) esc) rfc_serde None s = Some (Inr db, s1)"
proof (rule start_default_Inr [OF assms])
  fix t assume "parse_start_options (Some t) = zero_options"
  then show "\<exists>h a u l. go_start (store_packages d0 ans) (Some t) (lib s)
      = Some (make_success (Some (start_data h a u)), l)"
    by (simp add: go_start_def zero_options_def remote_engine_def go_engine_def
      datastore_options_def store_packages_def new_obj_def try_world_def Let_def
      start_observability_def with_metrics_server_def start_serving_def on_world_def
      start_streaming_proxy_def proxy_listen_def) blast
qed

lemma store_app_start:
  "\<exists>db s1. start (go_ffi (store_packages (d0 :: 'd) ans) esc) rfc_serde None (proc store_app) = Some (Inr db, s1)"
  by (intro store_start) (rule store_app_initial(1) [unfolded initial_def, THEN conjunct1])

text \<open>A server that keeps its requests and answers with how many there were.\<close>

definition counting :: "string \<Rightarrow> bytes \<Rightarrow> bytes list \<Rightarrow> (string + bytes) \<times> bytes list" where
  "counting method q d = (Inr [of_nat (Suc (length d))], d @ [q])"

abbreviation count_packages :: "(bytes, bytes list store_world) packages" where
  "count_packages \<equiv> store_packages [] counting"

abbreviation count_service :: "(bytes, bytes list store_world, bytes list) service" where
  "count_service \<equiv> store_service [] counting"

end
