(* ===== verification/Concurrent_Stores.thy ===== *)
theory Concurrent_Stores
  imports Concurrent_Facts Sample_Stores
begin

text \<open>
  What concurrent callers see: the library is one atomic table of stores.  The specification is an
  object on which a request is made, takes effect at one moment, and is answered; the theory shows that
  every history of requests and answers of a program that respects ownership is one of that object.
\<close>

section \<open>Histories\<close>

datatype observation = Called Concurrent.request | Returned nat answer

fun returns :: "nat \<Rightarrow> activation \<Rightarrow> observation list" where
  "returns k (Answered a) = [Returned k a]"
| "returns k _ = []"

text \<open>A schedule with what its callers observe.\<close>

inductive history ::
    "('m, 'w) packages \<Rightarrow> ('w go_machine \<Rightarrow> Concurrent.request \<Rightarrow> bool) \<Rightarrow> 'w go_machine \<Rightarrow>
     observation list \<Rightarrow> 'w go_machine \<Rightarrow> bool"
  for P may m where
  silent: "history P may m [] m"
| asked: "history P may m obs m' \<Longrightarrow> may m' r \<Longrightarrow> history P may m (obs @ [Called r]) (Interleaving.make entry r m')"
| moved: "history P may m obs m' \<Longrightarrow> turn (advance P) k m' = Some m'' \<Longrightarrow>
    history P may m (obs @ returns k (calls m'' ! k)) m''"

lemma history_schedule: "(\<exists>obs. history P may m obs m') \<longleftrightarrow> (\<exists>n. schedule entry (advance P) may m n m')"
proof
  assume "\<exists>obs. history P may m obs m'"
  then obtain obs where "history P may m obs m'" ..
  then show "\<exists>n. schedule entry (advance P) may m n m'"
    by induction (blast intro: schedule.intros)+
next
  assume "\<exists>n. schedule entry (advance P) may m n m'"
  then obtain n where "schedule entry (advance P) may m n m'" ..
  then show "\<exists>obs. history P may m obs m'"
    by induction (blast intro: history.intros)+
qed

text \<open>The specification: one table of stores, each request taking effect at one moment.\<close>

datatype status = Waiting Concurrent.request | Ready answer | Finished answer

fun takes_effect ::
    "('m, 'w) packages \<Rightarrow> ('m, 'w, 'd) service \<Rightarrow> Concurrent.request \<Rightarrow> (u64 \<rightharpoonup> 'd) \<Rightarrow> answer \<Rightarrow> (u64 \<rightharpoonup> 'd) \<Rightarrow> bool" where
  "takes_effect P V (StartReq _) A a A' \<longleftrightarrow>
     (\<exists>msg. a = Text (make_error msg)) \<and> A' = A
   \<or> (\<exists>h addr. A h = None \<and> A' = A(h \<mapsto> fresh V)
        \<and> a = Text (make_success (Some (start_data h addr (if is_windows P then ''tcp'' else ''unix'')))))"
| "takes_effect P V (DisposeReq h) A a A' \<longleftrightarrow>
     a = Text (if A h = None then make_error (invalid_handle h) else make_success None) \<and> A' = A(h := None)"
| "takes_effect P V (RpcReq h method tp ts req) A a A' \<longleftrightarrow>
     (\<exists>r. store_rpc P V h method tp ts req A = (r, A') \<and> a = Reply r)"

inductive atomic_stores ::
    "('m, 'w) packages \<Rightarrow> ('m, 'w, 'd) service \<Rightarrow> observation list \<Rightarrow> status list \<Rightarrow> (u64 \<rightharpoonup> 'd) \<Rightarrow> bool"
  for P V where
  empty: "atomic_stores P V [] [] Map.empty"
| called: "atomic_stores P V obs sts A \<Longrightarrow> atomic_stores P V (obs @ [Called r]) (sts @ [Waiting r]) A"
| effect: "atomic_stores P V obs sts A \<Longrightarrow> k < length sts \<Longrightarrow> sts ! k = Waiting r \<Longrightarrow>
    takes_effect P V r A a A' \<Longrightarrow> atomic_stores P V obs (sts[k := Ready a]) A'"
| returned: "atomic_stores P V obs sts A \<Longrightarrow> k < length sts \<Longrightarrow> sts ! k = Ready a \<Longrightarrow>
    atomic_stores P V (obs @ [Returned k a]) (sts[k := Finished a]) A"

text \<open>Where a call of the library stands.\<close>

fun status_of :: "Concurrent.request \<Rightarrow> activation \<Rightarrow> status" where
  "status_of r (Answered a) = Finished a"
| "status_of r (Teardown _ _) = Ready (Text (make_success None))"
| "status_of r (Cleanup _ _) = Ready (Text (make_success None))"
| "status_of r _ = Waiting r"

section \<open>What the parts leave alone\<close>

definition leaves :: "('m, 'w, 'd) service \<Rightarrow> obj \<Rightarrow> obj set \<Rightarrow> 'w \<Rightarrow> 'w \<Rightarrow> bool" where
  "leaves V ctx S w w' \<longleftrightarrow> spares V ctx w w' \<and> (in_memory V w \<longrightarrow> waiting V w - S \<subseteq> waiting V w')"

lemma leaves_trans: "leaves V k S w w' \<Longrightarrow> leaves V k S w' w'' \<Longrightarrow> leaves V k S w w''"
  by (auto simp: leaves_def spares_def) blast+

lemma same_leaves: "same V w w' \<Longrightarrow> leaves V k S w w'"
  by (auto simp: leaves_def same_spares) (auto simp: same_def)

lemma leaves_mono: "leaves V k S w w' \<Longrightarrow> S \<subseteq> T \<Longrightarrow> leaves V k T w w'"
  by (auto simp: leaves_def)

lemma leaves_memory: "leaves V k S w w' \<Longrightarrow> in_memory V w \<Longrightarrow> in_memory V w'"
  by (auto simp: leaves_def spares_def)

lemma leaves_cancel: "isolates P V \<Longrightarrow> leaves V k S w (cancel_context P k w)"
  using isolates_servers(4,5) [of P V] by (force simp: leaves_def)

lemma leaves_teardown:
  assumes "isolates P V"
  shows "leaves V k S (world l) (world (cleanup_observability P i (on_world (cancel_context P k) l)))"
proof -
  have "leaves V k S (world l) (world (on_world (cancel_context P k) l))" using leaves_cancel [OF assms] by simp
  from leaves_trans [OF this same_leaves [OF same_cleanup [OF assms]]] show ?thesis .
qed

lemma leaves_client:
  assumes "isolates P V" and "new_client P srv w = (r, w')"
  shows "leaves V k S w w'"
proof (cases r)
  case (Inl e)
  with assms show ?thesis by (auto intro: same_leaves isolates_same(6))
next
  case (Inr c)
  with isolates_servers(3) [OF assms(1), of srv w c w'] assms spares_client [OF assms, of k]
  show ?thesis by (auto simp: leaves_def)
qed

lemma leaves_run:
  assumes "isolates P V" and "in_memory V w" and "srv \<in> waiting V w"
  shows "leaves V k {srv} w (run_server P srv ctx w)"
  using spares_run [OF assms(1) isolates_servers(7) [OF assms], of k ctx]
    isolates_servers(2) [OF assms(1,2), of srv ctx] by (auto simp: leaves_def)

lemma leaves_close:
  assumes "isolates P V" and "backed V i w d" and "client_conn i = Some c" and "in_memory V w"
  shows "leaves V (cancel i) S w (close_conn P c (cancel_context P (cancel i) w))"
proof -
  let ?w = "cancel_context P (cancel i) w"
  have c: "leaves V (cancel i) S w ?w" by (rule leaves_cancel [OF assms(1)])
  from leaves_memory [OF c assms(4)] isolates_servers(6) [OF assms(1), of ?w c]
  have "waiting V ?w \<subseteq> waiting V (close_conn P c ?w)" by blast
  with c spares_close [OF assms] assms(4) show ?thesis by (auto simp: leaves_def)
qed

lemma leaves_metrics:
  assumes "isolates P V" and "with_metrics_server P opts i l = (r, l')"
  shows "leaves V (cancel i) S (world l) (world l')"
proof (cases r)
  case (Inr j)
  with same_metrics(2) [OF assms] show ?thesis by (blast intro: same_leaves)
next
  case (Inl msg)
  let ?a = "(if MetricsHost opts = [] then ''0.0.0.0'' else MetricsHost opts) @ '':'' @ dec_int (MetricsPort opts)"
  obtain q l1 where q: "try_world (serve_metrics P ?a) l = (q, l1)" by fastforce
  note s = quiet_try [OF isolates_quiet(4) [OF assms(1)] q]
  from assms(2) Inl q have "l' = cleanup_observability P i (on_world (cancel_context P (cancel i)) l1)"
    by (auto simp: with_metrics_server_def start_metrics_server_def split: if_splits sum.splits
        simp del: append_Cons append_Nil)
  with leaves_trans [OF same_leaves [OF s] leaves_teardown [OF assms(1)]] show ?thesis by simp
qed


section \<open>Contexts and servers of the calls in progress\<close>

fun contexts :: "activation \<Rightarrow> obj list" where
  "contexts (CreateServer _ _ i) = [cancel i]"
| "contexts (MakeTracer _ _ i) = [cancel i]"
| "contexts (InstallTracer _ _ i _ _) = [cancel i]"
| "contexts (MetricsServer _ _ i) = [cancel i]"
| "contexts (Serve _ i) = [cancel i]"
| "contexts (Publish _ i) = [cancel i]"
| "contexts (Teardown _ i) = [cancel i]"
| "contexts _ = []"

text \<open>The server a start has made and not run yet.\<close>

fun unserved :: "activation \<Rightarrow> obj list" where
  "unserved (MakeTracer _ _ i) = [server i]"
| "unserved (InstallTracer _ _ i _ _) = [server i]"
| "unserved (MetricsServer _ _ i) = [server i]"
| "unserved (Serve _ i) = [server i]"
| "unserved _ = []"

text \<open>What the next part of a call relies on.\<close>

fun settled :: "('m, 'w, 'd) service \<Rightarrow> 'w \<Rightarrow> activation \<Rightarrow> bool" where
  "settled V w (StartCall opts) \<longleftrightarrow> memory_engine opts"
| "settled V w (CreateServer opts _ _) \<longleftrightarrow> \<not> remote_engine (go_engine opts)"
| "settled V w (Publish _ i) \<longleftrightarrow> backed V i w (fresh V)"
| "settled V w (Teardown _ i) \<longleftrightarrow> (\<exists>d. backed V i w d)"
| "settled V w _ \<longleftrightarrow> True"

text \<open>A part of a start after it has its context: it goes on with that context, or ends with an error.\<close>

definition proceeds :: "('m, 'w, 'd) service \<Rightarrow> activation \<Rightarrow> 'w \<Rightarrow> activation \<Rightarrow> 'w \<Rightarrow> bool" where
  "proceeds V c w c' w' \<longleftrightarrow>
     (\<exists>k. contexts c = [k] \<and> leaves V k (set (unserved c)) w w')
   \<and> ((\<exists>msg. c' = Answered (Text (make_error msg)))
     \<or> contexts c' = contexts c \<and> starting c' \<and> settled V w' c' \<and> set (unserved c') \<subseteq> waiting V w'
       \<and> (unserved c' = unserved c \<or> unserved c' = []
         \<or> unserved c = [] \<and> (\<exists>srv. unserved c' = [srv] \<and> srv \<notin> waiting V w)))"

lemma create_proceeds:
  assumes "isolates P V" and "in_memory V (world l)" and "\<not> remote_engine (go_engine opts)"
    and "create_server P opts n i l = (c, l')"
  shows "proceeds V (CreateServer opts n i) (world l) c (world l')"
proof -
  have ds: "quiet V (new_datastore P (datastore_options opts))"
    using assms(3) by (intro isolates_quiet(1) [OF assms(1), of "go_engine opts"]) (simp_all add: datastore_options_def)
  obtain q l1 where q: "try_world (new_datastore P (datastore_options opts)) l = (q, l1)" by fastforce
  note s1 = quiet_try [OF ds q]
  let ?m = "MetricsEnabled opts \<and> bool_ptr_or_default (CacheMetricsEnabled opts) True"
  obtain v l2 where v: "try_world (new_server P (projr q) ?m) l1 = (v, l2)" by fastforce
  note s2 = quiet_try [OF isolates_quiet(2) [OF assms(1)] v]
  have can: "leaves V (cancel i) {} (world l) (cancel_context P (cancel i) w)" if "same V (world l) w" for w
    by (rule leaves_trans [OF same_leaves [OF that] leaves_cancel [OF assms(1)]])
  show ?thesis
  proof (cases q)
    case (Inl e)
    with assms(4) q can [OF s1] show ?thesis by (auto simp: create_server_def proceeds_def Let_def)
  next
    case ds: (Inr d)
    show ?thesis
    proof (cases v)
      case (Inl e)
      with assms(4) q v ds can [OF same_trans [OF s1 s2]] show ?thesis
        by (auto simp: create_server_def proceeds_def Let_def)
    next
      case (Inr srv)
      with v have "new_server P (projr q) ?m (world l1) = (Inr srv, world l2)"
        by (auto simp: try_world_def split: prod.splits)
      from isolates_servers(1) [OF assms(1) this] s1 assms(2)
      have "srv \<notin> waiting V (world l)" "srv \<in> waiting V (world l2)" by (auto simp: same_def)
      moreover have "leaves V (cancel i) {} (world l) (world l2)" by (rule same_leaves [OF same_trans [OF s1 s2]])
      moreover from assms(4) q v ds Inr have l': "l' = l2"
        and "c = MakeTracer opts n (i\<lparr>server := srv\<rparr>) \<or> c = MetricsServer opts n (i\<lparr>server := srv\<rparr>)"
        by (auto simp: create_server_def split: if_splits)
      ultimately show ?thesis unfolding l' by (elim disjE) (simp_all add: proceeds_def)
    qed
  qed
qed

lemma tracer_proceeds:
  assumes "isolates P V" and "in_memory V (world l)" and "server i \<in> waiting V (world l)"
    and "make_tracer P opts n i l = (c, l')"
  shows "proceeds V (MakeTracer opts n i) (world l) c (world l')"
proof -
  let ?n = "if OTLPServiceName opts = [] then ''spicedb'' else OTLPServiceName opts"
  obtain q l1 where q: "try_world (new_tracer P (OTLPEndpoint opts) ?n) l = (q, l1)" by fastforce
  note s = quiet_try [OF isolates_quiet(3) [OF assms(1)] q]
  note sl = same_leaves [OF s]
  from s assms(2,3) have w: "server i \<in> waiting V (world l1)" by (auto simp: same_def)
  have "leaves V (cancel i) {server i} (world l) (cancel_context P (cancel i) (world l1))"
    by (rule leaves_trans [OF sl leaves_cancel [OF assms(1)]])
  with assms(4) q w sl show ?thesis
    by (cases q) (auto simp: make_tracer_def proceeds_def simp del: append_Cons append_Nil)
qed

lemma metrics_proceeds:
  assumes "isolates P V" and "in_memory V (world l)" and "server i \<in> waiting V (world l)"
    and "metrics_part P opts n i l = (c, l')"
  shows "proceeds V (MetricsServer opts n i) (world l) c (world l')"
proof -
  obtain r l1 where r: "with_metrics_server P opts i l = (r, l1)" by fastforce
  note lv = leaves_metrics [OF assms(1) r, of "{server i}"]
  show ?thesis
  proof (cases r)
    case (Inl e)
    with assms(4) r lv show ?thesis by (auto simp: metrics_part_def proceeds_def)
  next
    case (Inr j)
    with same_metrics(2) [OF assms(1) r] assms(2,3) have "server i \<in> waiting V (world l1)" by (auto simp: same_def)
    moreover from r Inr have "server j = server i" "cancel j = cancel i" by (auto dest: metrics_fields)
    ultimately show ?thesis using assms(4) r Inr lv by (auto simp: metrics_part_def proceeds_def)
  qed
qed

lemma serve_proceeds:
  assumes "isolates P V" and "in_memory V (world l)" and "server i \<in> waiting V (world l)"
    and "serve_part P n i l = Some (c, l')"
  shows "proceeds V (Serve n i) (world l) c (world l')"
proof -
  let ?l = "on_world (run_server P (server i) (cancel i)) l"
  let ?i = "i\<lparr>wg := [RunServer]\<rparr>"
  have run: "leaves V (cancel i) {server i} (world l) (world ?l)" using leaves_run [OF assms(1,2,3)] by simp
  obtain q l1 where q: "try_world (new_client P (server i)) ?l = (q, l1)" by fastforce
  have l1: "leaves V (cancel i) {server i} (world l) (world l1)"
    by (rule leaves_trans [OF run leaves_client [OF assms(1) try_client [OF q]]])
  have fail: "leaves V (cancel i) {server i} (world l) (world (cleanup_observability P j (on_world (cancel_context P (cancel i)) k)))"
    if "leaves V (cancel i) {server i} (world l) (world k)" for j k
    by (rule leaves_trans [OF that leaves_teardown [OF assms(1)]])
  show ?thesis
  proof (cases q)
    case (Inl e)
    with q assms(4) fail [OF l1] show ?thesis
      by (auto simp: serve_part_def serve_instance_def Let_def proceeds_def wg_wait_def simp del: append_Cons append_Nil)
  next
    case (Inr conn)
    obtain p l2 where p: "start_streaming_proxy P (?i\<lparr>client_conn := Some conn\<rparr>) conn n l1 = (p, l2)" by fastforce
    note s = same_proxy [OF assms(1) p]
    have l2: "leaves V (cancel i) {server i} (world l) (world l2)" by (rule leaves_trans [OF l1 same_leaves [OF s]])
    show ?thesis
    proof (cases p)
      case (Inl e)
      with q Inr p assms(4) fail [OF l2] show ?thesis
        by (auto simp: serve_part_def serve_instance_def Let_def proceeds_def wg_wait_def simp del: append_Cons append_Nil)
    next
      case j: (Inr j)
      note srv = isolates_servers(2) [OF assms(1,2), of "server i" "cancel i"]
      from isolates_servers(3) [OF assms(1)] try_client [OF q] Inr srv
      have "in_memory V (world l1)" "conns V (world l1) conn = Some (server i, fresh V)"
        "runs V (world l1) (server i) = Some (cancel i)" by auto
      with s have "conns V (world l2) conn = Some (server i, fresh V)" "runs V (world l2) (server i) = Some (cancel i)"
        by (auto simp: same_def)
      with start_proxy_result(4) [OF p j] have "cancel j = cancel i" "backed V j (world l2) (fresh V)"
        by (auto simp: backed_def)
      with q Inr p j assms(4) l2 show ?thesis
        by (auto simp: serve_part_def serve_instance_def Let_def proceeds_def)
    qed
  qed
qed

lemma teardown_leaves:
  assumes "isolates P V" and "in_memory V (world l)" and "backed V i (world l) d"
  shows "leaves V (cancel i) S (world l) (world (stop_serving P i l))"
proof -
  from assms(3) obtain c where c: "client_conn i = Some c" by (auto simp: backed_def)
  note q = isolates_same [OF assms(1)]
  have "same V (close_conn P c (cancel_context P (cancel i) (world l))) (world (stop_serving P i l))"
    by (auto simp: stop_serving_def Let_def c q split: option.split intro: same_trans [OF q(5) q(3)])
  from leaves_trans [OF leaves_close [OF assms(1,3) c assms(2)] same_leaves [OF this]] show ?thesis .
qed


lemma start_part_proceeds:
  assumes "isolates P V" and "in_memory V (world s)" and a: "advance P c s = Some (c', s', es)"
    and "starting c" and "contexts c \<noteq> []" and "\<And>h i. c \<noteq> Publish h i"
    and "settled V (world s) c" and "set (unserved c) \<subseteq> waiting V (world s)"
  shows "proceeds V c (world s) c' (world s')" and "instances s' = instances s" and "next_ctx s' = next_ctx s"
proof -
  have "proceeds V c (world s) c' (world s') \<and> instances s' = instances s \<and> next_ctx s' = next_ctx s"
  proof (cases c)
    case (CreateServer opts n i)
    with a have q: "create_server P opts n i s = (c', s')" by (simp add: quiet_run)
    moreover from this have "next_ctx s' = next_ctx s"
      by (auto simp: create_server_def Let_def dest!: try_world_frame(3)
          split: prod.splits sum.splits simp del: append_Cons append_Nil)
    ultimately show ?thesis
      using CreateServer assms(7) create_server_frame(1) [OF q] create_proceeds [OF assms(1,2) _ q] by simp
  next
    case (MakeTracer opts n i)
    with a have q: "make_tracer P opts n i s = (c', s')" by (simp add: quiet_run)
    moreover from this have "next_ctx s' = next_ctx s"
      by (auto simp: make_tracer_def dest!: try_world_frame(3)
          split: prod.splits sum.splits simp del: append_Cons append_Nil)
    ultimately show ?thesis
      using MakeTracer assms(8) make_tracer_frame(1) [OF q] tracer_proceeds [OF assms(1,2) _ q] by simp
  next
    case (InstallTracer opts n i prev tp)
    with a assms(8) show ?thesis by (auto simp: Concurrent.quiet_def proceeds_def same_leaves)
  next
    case (MetricsServer opts n i)
    with a have q: "metrics_part P opts n i s = (c', s')" by (simp add: quiet_run)
    moreover from this have "next_ctx s' = next_ctx s"
      by (auto simp: metrics_part_def dest!: ctx_metrics split: prod.splits sum.splits)
    ultimately show ?thesis
      using MetricsServer assms(8) metrics_part_frame(1) [OF q] metrics_proceeds [OF assms(1,2) _ q] by simp
  next
    case (Serve n i)
    with a have q: "serve_part P n i s = Some (c', s')" by (simp add: quiet_run bind_eq_Some_conv)
    moreover from this have "next_ctx s' = next_ctx s"
      by (auto simp: serve_part_def serve_instance_def Let_def wg_wait_def dest!: try_world_frame(3) ctx_proxy
          split: prod.splits sum.splits simp del: append_Cons append_Nil)
    moreover from q have "instances s' = instances s"
      by (metis option.inject prod.inject serve_part_frame)
    ultimately show ?thesis using Serve assms(8) serve_proceeds [OF assms(1,2) _ q] by simp
  qed (use assms(4-6) in simp_all)
  then show "proceeds V c (world s) c' (world s')" and "instances s' = instances s" and "next_ctx s' = next_ctx s"
    by simp_all
qed

section \<open>One part and the table of stores\<close>

text \<open>What a part changes of what the other calls rely on.\<close>

definition footprint ::
    "('m, 'w, 'd) service \<Rightarrow> activation \<Rightarrow> 'w golib \<Rightarrow> activation \<Rightarrow> 'w golib \<Rightarrow> bool" where
  "footprint V c s c' s' \<longleftrightarrow>
     next_ctx s \<le> next_ctx s'
   \<and> (contexts c' = contexts c \<or> contexts c' = [] \<or> contexts c = []
       \<and> (contexts c' = [next_ctx s] \<and> next_ctx s < next_ctx s'
         \<or> (\<exists>h i. instances s h = Some i \<and> contexts c' = [cancel i] \<and> instances s' = (instances s)(h := None))))
   \<and> (\<forall>h i. instances s' h = Some i \<longrightarrow> instances s h = Some i \<or> cancel i \<in> set (contexts c) \<and> contexts c' = [])
   \<and> (unserved c' = unserved c \<or> unserved c' = []
       \<or> unserved c = [] \<and> (\<exists>srv. unserved c' = [srv] \<and> srv \<notin> waiting V (world s)))
   \<and> set (unserved c') \<subseteq> waiting V (world s')
   \<and> waiting V (world s) - set (unserved c) \<subseteq> waiting V (world s')
   \<and> settled V (world s') c'
   \<and> (\<forall>b. settled V (world s) b \<and> set (contexts b) \<inter> set (contexts c) = {}
         \<and> (\<forall>h i. instances s h = Some i \<longrightarrow> cancel i \<notin> set (contexts b)) \<longrightarrow> settled V (world s') b)"

lemma footprintD:
  assumes "footprint V c s c' s'"
  shows "next_ctx s \<le> next_ctx s'"
    and "contexts c' = contexts c \<or> contexts c' = [] \<or> contexts c = []
       \<and> (contexts c' = [next_ctx s] \<and> next_ctx s < next_ctx s'
         \<or> (\<exists>h i. instances s h = Some i \<and> contexts c' = [cancel i] \<and> instances s' = (instances s)(h := None)))"
    and "\<forall>h i. instances s' h = Some i \<longrightarrow> instances s h = Some i \<or> cancel i \<in> set (contexts c) \<and> contexts c' = []"
    and "unserved c' = unserved c \<or> unserved c' = []
       \<or> unserved c = [] \<and> (\<exists>srv. unserved c' = [srv] \<and> srv \<notin> waiting V (world s))"
    and "set (unserved c') \<subseteq> waiting V (world s')"
    and "waiting V (world s) - set (unserved c) \<subseteq> waiting V (world s')"
    and "settled V (world s') c'"
    and "settled V (world s) b \<Longrightarrow> set (contexts b) \<inter> set (contexts c) = {} \<Longrightarrow>
      (\<And>h i. instances s h = Some i \<Longrightarrow> cancel i \<notin> set (contexts b)) \<Longrightarrow> settled V (world s') b"
  using assms unfolding footprint_def by (elim conjE; blast)+

text \<open>How a part of a call moves its status.\<close>

definition serves ::
    "('m, 'w) packages \<Rightarrow> ('m, 'w, 'd) service \<Rightarrow> Concurrent.request \<Rightarrow> activation \<Rightarrow> (u64 \<rightharpoonup> 'd) \<Rightarrow>
     activation \<Rightarrow> (u64 \<rightharpoonup> 'd) \<Rightarrow> bool" where
  "serves P V r c A c' A' \<longleftrightarrow>
     status_of r c' = status_of r c \<and> A' = A
   \<or> (\<exists>a. status_of r c = Waiting r \<and> takes_effect P V r A a A' \<and> status_of r c' \<in> {Ready a, Finished a})
   \<or> (\<exists>a. status_of r c = Ready a \<and> status_of r c' = Finished a \<and> A' = A)"

lemma leaves_settled:
  assumes "settled V w b" and "leaves V k S w w'" and "in_memory V w" and "k \<notin> set (contexts b)"
  shows "settled V w' b"
  using assms backed_spared [where V = V and w = w and w' = w' and k = k]
  by (cases b) (auto simp: leaves_def)

lemma leaves_simulates:
  assumes "simulates V A s" and "leaves V k S (world s) (world s')" and "instances s' = instances s"
    and "next_ctx s' = next_ctx s" and "\<And>h i. instances s h = Some i \<Longrightarrow> cancel i \<noteq> k"
  shows "simulates V A s'"
  using assms(1,3-5) leaves_memory [OF assms(2)] backed_spared [where V = V and w = "world s" and w' = "world s'" and k = k] assms(2)
  unfolding simulates_def leaves_def by metis

lemma proceeds_footprint:
  assumes "proceeds V c (world s) c' (world s')" and "instances s' = instances s" and "next_ctx s' = next_ctx s"
    and "in_memory V (world s)"
  shows "footprint V c s c' s'"
proof -
  from assms(1) obtain k where k: "contexts c = [k]" "leaves V k (set (unserved c)) (world s) (world s')"
    by (auto simp: proceeds_def)
  have "settled V (world s') b" if "settled V (world s) b" "k \<notin> set (contexts b)" for b
    by (rule leaves_settled [OF that(1) k(2) assms(4) that(2)])
  with k assms show ?thesis unfolding footprint_def proceeds_def by (elim conjE disjE) (auto simp: leaves_def)
qed


lemma invoke_is_rpc:
  assumes "map_option fst (map_of rpc_messages (c_text m)) = Some ty" and "instances s h = Some i"
  shows "invoke_part P (trace_metadata (go_string tp) (go_string ts)) (c_text m) ty req i s = go_rpc P h m tp ts req s"
  using assms by (auto simp: go_rpc_def run_rpc_def invoke_part_def)

text \<open>A call on one instance leaves the stores of the others.\<close>

lemma invoke_keeps:
  assumes "isolates P V" and "in_memory V (world s)" and "backed V i (world s) d"
    and "invoke_part P md name ty req i s = (r, s')"
  shows "waiting V (world s) \<subseteq> waiting V (world s')" and "next_ctx s' = next_ctx s"
    and "cancel j \<noteq> cancel i \<Longrightarrow> backed V j (world s) d' \<Longrightarrow> backed V j (world s') d'"
proof -
  from assms(3) obtain c where c: "client_conn i = Some c" "conns V (world s) c = Some (server i, d)"
    "runs V (world s) (server i) = Some (cancel i)" by (auto simp: backed_def)
  have "waiting V (world s) \<subseteq> waiting V (world s') \<and> next_ctx s' = next_ctx s
    \<and> (cancel j \<noteq> cancel i \<and> backed V j (world s) d' \<longrightarrow> backed V j (world s') d')" for j d'
  proof (cases "unmarshal P ty req")
    case (Inl e)
    with c assms(4) show ?thesis by (simp add: invoke_part_def)
  next
    case (Inr q)
    obtain x w where x: "invoke P md name c q (world s) = (x, w)" by fastforce
    obtain y e where y: "answer V name q d = (y, e)" by fastforce
    from c Inr x assms(4) have "s' = s\<lparr>world := w\<rparr>"
      by (auto simp: invoke_part_def try_world_def split: sum.splits)
    with isolates_invoke [OF assms(1,2) c(2) x y] c show ?thesis by (auto simp: backed_def)
  qed
  then show "waiting V (world s) \<subseteq> waiting V (world s')" and "next_ctx s' = next_ctx s"
    and "cancel j \<noteq> cancel i \<Longrightarrow> backed V j (world s) d' \<Longrightarrow> backed V j (world s') d'" by blast+
qed

lemma invoke_stores:
  assumes "isolates P V" and sim: "simulates V A s" and "advance P (Invoke h md name ty req i) s = Some (c', s', es)"
    and "explains P r (Invoke h md name ty req i) fs" and i: "instances s h = Some i"
  shows "\<exists>A'. simulates V A' s' \<and> serves P V r (Invoke h md name ty req i) A c' A'
    \<and> footprint V (Invoke h md name ty req i) s c' s'"
proof -
  from assms(4) obtain m tp ts where r: "r = RpcReq h m tp ts req" "name = c_text m"
    "md = trace_metadata (go_string tp) (go_string ts)" "map_option fst (map_of rpc_messages name) = Some ty"
    by (cases r) auto
  from assms(3) obtain x where x: "invoke_part P md name ty req i s = (x, s')" "c' = Answered (Reply x)"
    by (auto split: prod.splits)
  with r i have "go_rpc P h m tp ts req s = (x, s')" by (simp add: invoke_is_rpc)
  from rpc_simulates [OF assms(1) sim this] obtain A' where A': "store_rpc P V h m tp ts req A = (x, A')"
    "simulates V A' s'" by blast
  note D = simulatesD [OF sim]
  from D(3) [OF i] have b: "backed V i (world s) (the (A h))" by simp
  note k = invoke_keeps [OF assms(1) D(1) b x(1)]
  have "settled V (world s') a" if "settled V (world s) a" "cancel i \<notin> set (contexts a)" for a
    using that by (cases a) (auto intro: k(3) [OF not_sym])
  with invoke_part_frame(1) [OF x(1)] i k(1,2) x(2)
  have "footprint V (Invoke h md name ty req i) s c' s'" unfolding footprint_def by auto
  moreover from A' x(2) r(1) have "serves P V r (Invoke h md name ty req i) A c' A'" by (auto simp: serves_def)
  ultimately show ?thesis using A'(2) by blast
qed

text \<open>A finished serving start is published, a disposed instance is taken out.\<close>

lemma publish_stores:
  assumes sim: "simulates V A s" and "advance P (Publish h i) s = Some (c', s', es)" and r: "r = StartReq opts"
    and new: "instances s h = None" and "backed V i (world s) (fresh V)" and "cancel i < next_ctx s"
    and other: "\<And>k j. instances s k = Some j \<Longrightarrow> cancel j \<noteq> cancel i"
  shows "\<exists>A'. simulates V A' s' \<and> serves P V r (Publish h i) A c' A' \<and> footprint V (Publish h i) s c' s'"
proof (intro exI conjI)
  note D = simulatesD [OF sim]
  from assms(2) have s': "s' = s\<lparr>instances := (instances s)(h \<mapsto> i)\<rparr>" and c': "c' = Answered (Text (start_answer P h i))"
    by auto
  have "dom A = dom (instances s)" using sim by (simp add: simulates_def)
  then show "simulates V (A(h \<mapsto> fresh V)) s'"
    using D assms(5,6) other unfolding simulates_def s' by (auto split: if_splits) blast+
  from D(2) new have "A h = None" by blast
  with r c' show "serves P V r (Publish h i) A c' (A(h \<mapsto> fresh V))"
    by (auto simp: serves_def start_answer_def)
  show "footprint V (Publish h i) s c' s'" unfolding footprint_def s' c' by auto
qed

lemma remove_stores:
  assumes sim: "simulates V A s" and "advance P (DisposeCall h) s = Some (c', s', es)" and r: "r = DisposeReq h"
  shows "\<exists>A'. simulates V A' s' \<and> serves P V r (DisposeCall h) A c' A' \<and> footprint V (DisposeCall h) s c' s'"
proof (cases "instances s h")
  case None
  with simulatesD(2) [OF sim, of h] have "A(h := None) = A" "A h = None" by (simp_all add: fun_upd_idem)
  with None assms show ?thesis by (intro exI [of _ A]) (auto simp: serves_def footprint_def)
next
  case (Some i)
  note D = simulatesD [OF sim]
  from assms(2) Some have s': "s' = s\<lparr>instances := (instances s)(h := None)\<rparr>" and c': "c' = Teardown h i" by auto
  have "dom A = dom (instances s)" using sim by (simp add: simulates_def)
  then have "simulates V (A(h := None)) s'"
    using D unfolding simulates_def s' by (auto split: if_splits)
  moreover have "A h \<noteq> None" using D(2) Some by auto
  then have "serves P V r (DisposeCall h) A c' (A(h := None))" by (auto simp: serves_def r c')
  moreover have "footprint V (DisposeCall h) s c' s'"
    using D(3) [OF Some] Some unfolding footprint_def s' c' by auto
  ultimately show ?thesis by blast
qed


lemma still_stores:
  assumes "simulates V A s" and "serves P V r c A c' A" and "footprint V c s c' s'"
    and "leaves V k S (world s) (world s')" and "instances s' = instances s" and "next_ctx s' = next_ctx s"
    and "\<And>h i. instances s h = Some i \<Longrightarrow> cancel i \<noteq> k"
  shows "\<exists>A'. simulates V A' s' \<and> serves P V r c A c' A' \<and> footprint V c s c' s'"
proof -
  have "simulates V A s'" by (rule leaves_simulates [OF assms(1,4-6)]) (rule assms(7))
  with assms(2,3) show ?thesis by blast
qed

lemma start_stores_part:
  assumes "isolates P V" and sim: "simulates V A s" and a: "advance P c s = Some (c', s', es)"
    and "starting c" and "contexts c = [k]" and "\<And>h i. c \<noteq> Publish h i" and "explains P r c fs"
    and "settled V (world s) c" and "set (unserved c) \<subseteq> waiting V (world s)"
    and "\<And>h i. instances s h = Some i \<Longrightarrow> cancel i \<noteq> k"
  shows "\<exists>A'. simulates V A' s' \<and> serves P V r c A c' A' \<and> footprint V c s c' s'"
proof -
  note mem = simulatesD(1) [OF sim]
  from assms(5) have "contexts c \<noteq> []" by simp
  note p = start_part_proceeds [OF assms(1) mem a assms(4) this assms(6,8,9)]
  from assms(5) p(1) have lv: "leaves V k (set (unserved c)) (world s) (world s')" by (auto simp: proceeds_def)
  from assms(4,7) obtain opts where r: "r = StartReq opts" by (cases r; cases c) auto
  have wait: "status_of r d = Waiting r" if "starting d" for d using that by (cases d) simp_all
  from p(1) consider (failed) msg where "c' = Answered (Text (make_error msg))" | (going) "starting c'"
    by (auto simp: proceeds_def)
  then have "serves P V r c A c' A"
  proof cases
    case failed
    with wait [OF assms(4)] r show ?thesis by (auto simp: serves_def)
  next
    case going
    from wait [OF assms(4)] wait [OF this] show ?thesis by (simp add: serves_def)
  qed
  from still_stores [OF sim this proceeds_footprint [OF p mem] lv p(2,3) assms(10)] show ?thesis .
qed

lemma lookup_stores:
  assumes sim: "simulates V A s" and "advance P (RpcCall h m tp ts req) s = Some (c', s', es)"
    and r: "r = RpcReq h m tp ts req"
  shows "\<exists>A'. simulates V A' s' \<and> serves P V r (RpcCall h m tp ts req) A c' A'
    \<and> footprint V (RpcCall h m tp ts req) s c' s'"
proof (intro exI conjI)
  from assms(2) have s': "s' = s" and c': "c' = fst (lookup_part h m tp ts req s)" by (auto split: prod.splits)
  show "simulates V A s'" using sim by (simp add: s')
  have "contexts c' = []" "unserved c' = []" "settled V (world s) c'"
    by (auto simp: c' lookup_part_def split: option.splits prod.splits)
  then show "footprint V (RpcCall h m tp ts req) s c' s'" by (simp add: footprint_def s')
  show "serves P V r (RpcCall h m tp ts req) A c' A"
    using simulatesD(2) [OF sim, of h]
    by (auto simp: serves_def r c' lookup_part_def store_rpc_def split: option.splits prod.splits)
qed

lemma advance_stores:
  assumes iso: "isolates P V" and sim: "simulates V A s" and a: "advance P c s = Some (c', s', es)"
    and ex: "explains P r c fs" and st: "settled V (world s) c" "set (unserved c) \<subseteq> waiting V (world s)"
    and new: "\<And>h i. c = Publish h i \<Longrightarrow> instances s h = None" and tgt: "current_target (instances s) c"
    and ctx: "\<And>k. k \<in> set (contexts c) \<Longrightarrow> k < next_ctx s"
      "\<And>k h i. k \<in> set (contexts c) \<Longrightarrow> instances s h = Some i \<Longrightarrow> cancel i \<noteq> k"
  shows "\<exists>A'. simulates V A' s' \<and> serves P V r c A c' A' \<and> footprint V c s c' s'"
proof -
  have start: "\<exists>A'. simulates V A' s' \<and> serves P V r c A c' A' \<and> footprint V c s c' s'"
    if "starting c \<and> (\<exists>k. contexts c = [k]) \<and> (\<forall>h i. c \<noteq> Publish h i)"
  proof -
    from that obtain k where k: "starting c" "contexts c = [k]" "\<And>h i. c \<noteq> Publish h i" by blast
    from start_stores_part [OF iso sim a k(1,2,3) ex st] ctx(2) k(2) show ?thesis by simp
  qed
  show ?thesis
  proof (cases c)
    case c: (StartCall opts)
    from ex c obtain opts' where r: "r = StartReq opts'" by (cases r) auto
    show ?thesis
    proof (intro exI conjI)
      from a c have w: "world s' = world s" "instances s' = instances s" "next_ctx s \<le> next_ctx s'"
        and c': "(\<exists>msg. c' = Answered (Text (make_error msg))) \<or> next_ctx s < next_ctx s'
          \<and> (\<exists>n. c' = CreateServer (parse_start_options opts) n (blank_instance (next_ctx s)))"
        by (auto simp: Concurrent.quiet_def begin_start_def Let_def split: if_splits)
      show "simulates V A s'" using sim w unfolding simulates_def by (metis less_le_trans)
      show "serves P V r c A c' A" using c' by (auto simp: serves_def r c)
      show "footprint V c s c' s'" using c' w st(1)
        by (auto simp: footprint_def c memory_engine_def blank_instance_def)
    qed
  next
    case c: (Teardown h i)
    from st(1) c obtain d where d: "backed V i (world s) d" by auto
    from a c have s': "s' = stop_serving P i s" and c': "c' = Cleanup h i"
      by (auto simp: teardown_part_def wg_wait_def Concurrent.quiet_def split: if_splits)
    note lv = teardown_leaves [OF iso simulatesD(1) [OF sim] d, folded s', of "{}"]
    have n: "instances s' = instances s" "next_ctx s' = next_ctx s"
      by (simp_all add: s' stop_serving_def Let_def split: option.split)
    have "settled V (world s') b" if "settled V (world s) b" "cancel i \<notin> set (contexts b)" for b
      by (rule leaves_settled [OF that(1) lv simulatesD(1) [OF sim] that(2)])
    then have "footprint V c s c' s'" using lv simulatesD(1) [OF sim]
      by (auto simp: footprint_def c c' n leaves_def)
    moreover have "serves P V r c A c' A" by (simp add: serves_def c c')
    ultimately show ?thesis using still_stores [OF sim _ _ lv n] ctx(2) c by simp
  next
    case c: (Cleanup h i)
    from a c have c': "c' = Answered (Text (make_success None))" and s': "s' = snd (cleanup_part P i s)"
      by (auto simp: Concurrent.quiet_def cleanup_part_def Let_def)
    have w: "same V (world s) (world s')" and n: "instances s' = instances s" "next_ctx s' = next_ctx s"
      using same_trans [OF same_cleanup [OF iso] isolates_same(4) [OF iso]]
      by (simp_all add: s' cleanup_part_def Let_def same_cleanup [OF iso])
    note lv = same_leaves [OF w, where S = "{}"]
    have "settled V (world s') b" if "settled V (world s) b" for b
    proof -
      obtain k where "k \<notin> set (contexts b)" by (metis ex_new_if_finite infinite_UNIV_nat finite_set)
      from leaves_settled [OF that lv simulatesD(1) [OF sim] this] show ?thesis .
    qed
    then have "footprint V c s c' s'" using w simulatesD(1) [OF sim]
      by (auto simp: footprint_def c c' n same_def)
    moreover have "serves P V r c A c' A" by (simp add: serves_def c c')
    moreover have "simulates V A s'" using sim w n unfolding simulates_def by (simp add: same_def backed_def)
    ultimately show ?thesis by blast
  next
    case c: (Publish h i)
    from ex c obtain opts where r: "r = StartReq opts" by (cases r) auto
    from publish_stores [OF sim a [unfolded c] r new [OF c]] st(1) ctx c show ?thesis by simp
  next
    case c: (DisposeCall h)
    from ex c have r: "r = DisposeReq h" by (cases r) auto
    from remove_stores [OF sim a [unfolded c] r] c show ?thesis by simp
  next
    case c: (RpcCall h m tp ts req)
    from ex c have r: "r = RpcReq h m tp ts req" by (cases r) auto
    from lookup_stores [OF sim a [unfolded c] r] c show ?thesis by simp
  next
    case c: (Invoke h md name ty req i)
    with tgt have "instances s h = Some i" by (simp add: current_target_def)
    from invoke_stores [OF iso sim a [unfolded c] ex [unfolded c] this] c show ?thesis by simp
  next
    case (Answered x)
    with a show ?thesis by simp
  qed (rule start, simp)+
qed


section \<open>All calls in progress\<close>

definition crowd_inv :: "('m, 'w, 'd) service \<Rightarrow> (u64 \<rightharpoonup> 'd) \<Rightarrow> 'w go_machine \<Rightarrow> bool" where
  "crowd_inv V A m \<longleftrightarrow> simulates V A (shared m)
     \<and> distinct (all_of contexts (calls m))
     \<and> (\<forall>k \<in> set (all_of contexts (calls m)). k < next_ctx (shared m)
          \<and> (\<forall>h i. instances (shared m) h = Some i \<longrightarrow> cancel i \<noteq> k))
     \<and> distinct (all_of unserved (calls m)) \<and> set (all_of unserved (calls m)) \<subseteq> waiting V (world (shared m))
     \<and> (\<forall>c \<in> set (calls m). settled V (world (shared m)) c)"

lemma all_of_subset: "x \<in> set xs \<Longrightarrow> set (f x) \<subseteq> set (all_of f xs)"
  by (auto simp: all_of_def)

lemma all_of_disjoint:
  assumes "distinct (all_of f xs)" and "j < length xs" and "k < length xs" and "j \<noteq> k"
  shows "set (f (xs ! j)) \<inter> set (f (xs ! k)) = {}"
  using assms
proof (induction xs arbitrary: j k)
  case (Cons x xs)
  have rest: "set (f (xs ! j)) \<subseteq> set (all_of f xs)" if "j < length xs" for j
    using that by (intro all_of_subset) simp
  from Cons.prems have "set (f x) \<inter> set (all_of f xs) = {}" "distinct (all_of f xs)" by auto
  with Cons.IH Cons.prems rest show ?case by (cases j; cases k) (simp_all, blast+)
qed simp

lemma contexts_kept:
  fixes n :: nat
  assumes "distinct (B @ X @ C)" and "\<forall>j \<in> set (B @ X @ C). j < n \<and> j \<notin> L" and "\<forall>x \<in> L. x < n" and "n \<le> n'"
    and "\<forall>x \<in> L'. x \<in> L \<or> x \<in> set X \<and> X' = []"
    and "X' = X \<or> X' = [] \<or> X = [] \<and> (X' = [n] \<and> n < n' \<or> (\<exists>k \<in> L. X' = [k] \<and> k \<notin> L'))"
  shows "distinct (B @ X' @ C) \<and> (\<forall>j \<in> set (B @ X' @ C). j < n' \<and> j \<notin> L')"
  using assms(6)
proof (elim disjE conjE bexE)
  assume "X' = X"
  with assms(1,2,5) show ?thesis by (auto intro: order.strict_trans2 [OF _ assms(4)])
next
  assume "X' = []"
  with assms(1,2,5) show ?thesis by (auto intro: order.strict_trans2 [OF _ assms(4)])
next
  assume "X = []" "X' = [n]" "n < n'"
  with assms(1-3,5) show ?thesis by (auto intro: order.strict_trans2 [OF _ assms(4)])
next
  fix k
  assume "X = []" "k \<in> L" "X' = [k]" "k \<notin> L'"
  with assms(1-3,5) show ?thesis by (auto intro: order.strict_trans2 [OF _ assms(4)])
qed

lemma crowd_part:
  assumes inv: "crowd_inv V A m" and k: "k < length (calls m)" and f: "footprint V (calls m ! k) (shared m) c' s'"
    and "simulates V A' s'" and m': "calls m' = (calls m)[k := c']" "shared m' = s'"
  shows "crowd_inv V A' m'"
proof -
  let ?c = "calls m ! k"
  obtain B C where ctx: "\<forall>c. all_of contexts ((calls m)[k := c]) = B @ contexts c @ C"
    "all_of contexts (calls m) = B @ contexts ?c @ C" by (rule all_of_update [OF k, of contexts])
  obtain D E where srv: "\<forall>c. all_of unserved ((calls m)[k := c]) = D @ unserved c @ E"
    "all_of unserved (calls m) = D @ unserved ?c @ E" by (rule all_of_update [OF k, of unserved])
  note I = inv [unfolded crowd_inv_def ctx(2) srv(2)]
  note F = footprintD [OF f]
  note S = simulatesD [OF I [THEN conjunct1]]
  let ?L = "{cancel i | h i. instances (shared m) h = Some i}" and ?L' = "{cancel i | h i. instances s' h = Some i}"
  have moved: "contexts c' = contexts ?c \<or> contexts c' = [] \<or> contexts ?c = []
      \<and> (contexts c' = [next_ctx (shared m)] \<and> next_ctx (shared m) < next_ctx s'
        \<or> (\<exists>k \<in> ?L. contexts c' = [k] \<and> k \<notin> ?L'))"
  proof -
    have k: "\<exists>k \<in> ?L. contexts c' = [k] \<and> k \<notin> ?L'"
      if "instances (shared m) h = Some i \<and> contexts c' = [cancel i] \<and> instances s' = (instances (shared m))(h := None)" for h i
      using that S(4) by (intro bexI [of _ "cancel i"]) (auto split: if_splits)
    from F(2) show ?thesis
    proof (elim disjE conjE exE)
      fix h i
      assume "contexts ?c = []" "instances (shared m) h = Some i" "contexts c' = [cancel i]"
        "instances s' = (instances (shared m))(h := None)"
      then show ?thesis by (intro disjI2 conjI k) simp_all
    qed simp_all
  qed
  have dist: "distinct (B @ contexts ?c @ C)" using I by (elim conjE)
  have below: "\<forall>j \<in> set (B @ contexts ?c @ C). j < next_ctx (shared m) \<and> j \<notin> ?L" using I by (elim conjE) blast
  have live: "\<forall>x \<in> ?L. x < next_ctx (shared m)" using S(3) by blast
  have new: "\<forall>x \<in> ?L'. x \<in> ?L \<or> x \<in> set (contexts ?c) \<and> contexts c' = []"
    using F(3) by blast
  have "distinct (B @ contexts c' @ C) \<and> (\<forall>j \<in> set (B @ contexts c' @ C). j < next_ctx s' \<and> j \<notin> ?L')"
    by (rule contexts_kept [OF dist below live F(1) new moved])
  then have "distinct (B @ contexts c' @ C) \<and> (\<forall>j \<in> set (B @ contexts c' @ C). j < next_ctx s'
      \<and> (\<forall>h i. instances s' h = Some i \<longrightarrow> cancel i \<noteq> j))" by blast
  moreover have "distinct (D @ unserved c' @ E) \<and> set (D @ unserved c' @ E) \<subseteq> waiting V (world s')"
  proof -
    from I have d: "distinct (D @ unserved ?c @ E)" by (elim conjE)
    from I have w: "set (D @ unserved ?c @ E) \<subseteq> waiting V (world (shared m))" by (elim conjE)
    from F(4) show ?thesis
    proof (elim disjE conjE exE)
      fix srv
      assume "unserved ?c = []" "unserved c' = [srv]" "srv \<notin> waiting V (world (shared m))"
      with d w F(5,6) show ?thesis by auto
    qed (use d w F(5,6) in auto)
  qed
  moreover have "settled V (world s') c" if "c \<in> set (calls m')" for c
  proof -
    from that obtain j where j: "j < length (calls m)" "c = (calls m)[k := c'] ! j"
      by (auto simp: m' in_set_conv_nth)
    show ?thesis
    proof (cases "j = k")
      case True
      with j F(7) show ?thesis by simp
    next
      case False
      with j have c: "c = calls m ! j" by simp
      from j(1) have mem: "c \<in> set (calls m)" by (simp add: c)
      have "set (contexts c) \<inter> set (contexts ?c) = {}"
        unfolding c using inv j(1) k False by (intro all_of_disjoint [where xs = "calls m"]) (simp_all add: crowd_inv_def)
      moreover have "cancel i \<notin> set (contexts c)" if "instances (shared m) h = Some i" for h i
        using inv all_of_subset [OF mem, of contexts] that by (auto simp: crowd_inv_def)
      moreover have "settled V (world (shared m)) c" using inv mem by (simp add: crowd_inv_def)
      ultimately show ?thesis by (intro F(8))
    qed
  qed
  ultimately show ?thesis using assms(4) unfolding crowd_inv_def m' ctx(1) [rule_format] srv(1) [rule_format] by blast
qed


lemma atomic_step:
  assumes "atomic_stores P V obs sts A" and "k < length sts" and "sts ! k = status_of r c"
    and "serves P V r c A c' A'" and fin: "\<And>a. status_of r c \<noteq> Finished a"
    and obs': "obs' = (case status_of r c' of Finished a \<Rightarrow> [Returned k a] | _ \<Rightarrow> [])"
  shows "atomic_stores P V (obs @ obs') (sts[k := status_of r c']) A'"
  using assms(4) unfolding serves_def
proof (elim disjE conjE exE)
  assume "status_of r c' = status_of r c" "A' = A"
  moreover from this fin have "obs' = []" by (simp add: obs' split: status.split)
  ultimately show ?thesis using assms(1,3) by (metis append_Nil2 list_update_id)
next
  fix a
  assume w: "status_of r c = Waiting r" "takes_effect P V r A a A'" and st: "status_of r c' \<in> {Ready a, Finished a}"
  from atomic_stores.effect [OF assms(1,2) _ w(2)] assms(3) w(1)
  have ready: "atomic_stores P V obs (sts[k := Ready a]) A'" by simp
  from atomic_stores.returned [OF ready, of k a] assms(2) ready st show ?thesis by (auto simp: obs')
next
  fix a
  assume "status_of r c = Ready a" "status_of r c' = Finished a" "A' = A"
  with atomic_stores.returned [OF assms(1,2), of a] assms(3) show ?thesis by (simp add: obs')
qed

text \<open>Programs that respect ownership and start in-memory instances.\<close>

definition store_request :: "'w go_machine \<Rightarrow> Concurrent.request \<Rightarrow> bool" where
  "store_request m r \<longleftrightarrow> rust_request m r \<and> (case r of StartReq opts \<Rightarrow> memory_engine opts | _ \<Rightarrow> True)"

definition statuses :: "'w go_machine \<Rightarrow> status list" where
  "statuses m = map (\<lambda>(r, c). status_of r c) (zip (requests m) (calls m))"

lemma statuses_nth:
  "length (calls m) = length (requests m) \<Longrightarrow> k < length (requests m) \<Longrightarrow>
    statuses m ! k = status_of (requests m ! k) (calls m ! k)"
  by (simp add: statuses_def)

lemma statuses_update:
  assumes "length (calls m) = length (requests m)" and "requests m' = requests m" and "calls m' = (calls m)[k := c]"
  shows "statuses m' = (statuses m)[k := status_of (requests m ! k) c]"
proof (rule nth_equalityI)
  show "length (statuses m') = length ((statuses m)[k := status_of (requests m ! k) c])"
    using assms by (simp add: statuses_def)
  fix i
  assume "i < length (statuses m')"
  with assms show "statuses m' ! i = (statuses m)[k := status_of (requests m ! k) c] ! i"
    by (cases "i = k") (simp_all add: statuses_def)
qed

lemma crowd_request:
  assumes "crowd_inv V A m" and "store_request m r"
  shows "crowd_inv V A (Interleaving.make entry r m)"
proof -
  have "contexts (entry r) = []" "unserved (entry r) = []" "settled V w (entry r)" for w
    using assms(2) by (cases r; simp add: store_request_def)+
  with assms(1) show ?thesis by (simp add: crowd_inv_def Interleaving.make_def)
qed

lemma histories_atomic:
  assumes "history P store_request m obs m'" and "unused m" and "isolates P V" and "in_memory V (world (shared m))"
  shows "\<exists>A. atomic_stores P V obs (statuses m') A \<and> crowd_inv V A m' \<and> go_inv P m' \<and> owned_inv m'"
  using assms(1)
proof induction
  case silent
  from assms(2) have "statuses m = []" "crowd_inv V Map.empty m" using assms(4)
    by (simp_all add: unused_def idle_def statuses_def crowd_inv_def simulates_def)
  with unused_inv(1,2) [OF assms(2)] show ?case by (metis atomic_stores.empty)
next
  case (asked obs m' r)
  then obtain A where A: "atomic_stores P V obs (statuses m') A" "crowd_inv V A m'"
    and inv: "go_inv P m'" "owned_inv m'" by blast
  from asked.hyps(2) have rust: "rust_request m' r" by (simp add: store_request_def)
  have len: "length (calls m') = length (requests m')" using inv(1) by (simp add: go_inv_def history_inv_def)
  have "status_of r (entry r) = Waiting r" by (cases r) simp_all
  with len have "statuses (Interleaving.make entry r m') = statuses m' @ [Waiting r]"
    by (simp add: statuses_def Interleaving.make_def)
  with atomic_stores.called [OF A(1)] crowd_request [OF A(2) asked.hyps(2)]
    rust.request_inv [OF conjI [OF inv] rust] show ?case by metis
next
  case (moved obs m' k m'')
  then obtain A where A: "atomic_stores P V obs (statuses m') A" and crowd: "crowd_inv V A m'"
    and inv: "go_inv P m'" "owned_inv m'" by blast
  from moved.hyps(2) obtain c' s' es where k: "k < length (calls m')"
    and a: "advance P (calls m' ! k) (shared m') = Some (c', s', es)"
    and m'': "m'' = m'\<lparr>calls := (calls m')[k := c'], shared := s', log := log m' @ map (Pair k) es\<rparr>"
    by (rule turn_Some)
  let ?c = "calls m' ! k" and ?r = "requests m' ! k"
  have len: "length (calls m') = length (requests m')" and ex: "explains P ?r ?c (events_of k (log m'))"
    using inv(1) k by (simp_all add: go_inv_def history_inv_def)
  have mem: "?c \<in> set (calls m')" using k by simp
  have st: "settled V (world (shared m')) ?c" "set (unserved ?c) \<subseteq> waiting V (world (shared m'))"
    and ctx: "\<And>j. j \<in> set (contexts ?c) \<Longrightarrow> j < next_ctx (shared m')"
      "\<And>j h i. j \<in> set (contexts ?c) \<Longrightarrow> instances (shared m') h = Some i \<Longrightarrow> cancel i \<noteq> j"
    and sim: "simulates V A (shared m')"
    using crowd mem all_of_subset [OF mem, of unserved] all_of_subset [OF mem, of contexts]
    unfolding crowd_inv_def by blast+
  have new: "instances (shared m') h = None" if "?c = Publish h i" for h i
    using inv(1) k that by (auto simp: go_inv_def dest: publish_fresh)
  have tgt: "current_target (instances (shared m')) ?c" using inv(2) mem by (simp add: owned_inv_def)
  have "\<exists>A'. simulates V A' s' \<and> serves P V ?r ?c A c' A' \<and> footprint V ?c (shared m') c' s'"
    by (rule advance_stores [OF assms(3) sim a ex st _ tgt]) (fact new ctx)+
  then obtain A' where A': "simulates V A' s'" "serves P V ?r ?c A c' A'" "footprint V ?c (shared m') c' s'"
    by blast
  have "atomic_stores P V (obs @ returns k (calls m'' ! k)) ((statuses m')[k := status_of ?r c']) A'"
  proof (rule atomic_step [OF A _ _ A'(2)])
    show "k < length (statuses m')" "statuses m' ! k = status_of ?r ?c"
      using k len by (simp_all add: statuses_nth statuses_def)
    show "status_of ?r ?c \<noteq> Finished a" for a using a by (cases ?c) simp_all
    show "returns k (calls m'' ! k) = (case status_of ?r c' of Finished a \<Rightarrow> [Returned k a] | _ \<Rightarrow> [])"
      using k by (cases c') (simp_all add: m'')
  qed
  moreover have "statuses m'' = (statuses m')[k := status_of ?r c']"
    by (rule statuses_update [OF len]) (simp_all add: m'')
  moreover have "crowd_inv V A' m''" by (rule crowd_part [OF crowd k A'(3,1)]) (simp_all add: m'')
  ultimately show ?case using rust.part_inv [OF conjI [OF inv] moved.hyps(2)] by metis
qed


section \<open>Property\<close>


section \<open>An example\<close>

lemma finished_returned:
  "atomic_stores P V obs sts A \<Longrightarrow> k < length sts \<Longrightarrow> sts ! k = Finished a \<Longrightarrow> Returned k a \<in> set obs"
  by (induction rule: atomic_stores.induct) (auto simp: nth_append nth_list_update split: if_splits)

text \<open>Two overlapping starts, then two overlapping calls, on the server that counts its requests.\<close>

definition two_stores :: "action list" where
  "two_stores = [Ask (StartReq None), Ask (StartReq None), Go 0, Go 1, Go 1, Go 0, Go 0, Go 1, Go 1, Go 0, Go 1, Go 0,
     Ask (RpcReq 1 (full_method_name ''SchemaService'' ''ReadSchema'') None None []),
     Ask (RpcReq 2 (full_method_name ''SchemaService'' ''ReadSchema'') None None []), Go 2, Go 3, Go 3, Go 2]"

definition new_program :: "bytes list store_world go_machine" where
  "new_program = \<lparr>requests = [], calls = [], shared = store_lib, log = []\<rparr>"

lemma new_program_unused: "unused new_program" "in_memory count_service (world (shared new_program))"
  by (simp_all add: unused_def idle_def new_program_def store_lib_def store_service_def)

lemma store_parts:
  "create_server (store_packages d0 ans) zero_options n i l
     = (MetricsServer zero_options n (i\<lparr>server := Suc (next_obj (world l))\<rparr>),
        l\<lparr>world := (world l)\<lparr>next_obj := Suc (Suc (next_obj (world l)))\<rparr>\<rparr>)"
  "metrics_part (store_packages d0 ans) zero_options n i l = (Serve n i, l)"
  "begin_start None l = (CreateServer zero_options (next_id l + 1) (blank_instance (next_ctx l)),
     l\<lparr>next_ctx := Suc (next_ctx l), next_id := next_id l + 1\<rparr>)"
  "memory_engine None"
  by (simp_all add: begin_start_def parse_start_options_def remote_engine_def go_engine_def memory_engine_def zero_options_def create_server_def store_packages_def new_obj_def try_world_def
      metrics_part_def with_metrics_server_def)

definition store_serving :: "u64 \<Rightarrow> instance_rec \<Rightarrow> obj \<Rightarrow> instance_rec" where
  "store_serving n i c = i\<lparr>client_conn := Some c, streaming_listener := Some (Suc c),
     streaming_server := Some (Suc (Suc c)), wg := [RunServer, ServeProxy],
     streaming_addr := streaming_proxy_addr (store_packages (0 :: nat) (\<lambda>m q d. (Inl [], d))) n\<rparr>"

lemma store_serve:
  assumes "server i < next_obj (world l)"
  shows "serve_part (store_packages d0 ans) n i l = Some (Publish n (store_serving n i (next_obj (world l))),
    l\<lparr>world := (world l)\<lparr>running := (running (world l))(server i \<mapsto> cancel i),
        open_conns := (open_conns (world l))(next_obj (world l) \<mapsto> (server i, d0)), next_obj := next_obj (world l) + 3\<rparr>\<rparr>)"
proof -
  from assms have "max (next_obj (world l)) (Suc (server i)) = next_obj (world l)" by simp
  then show ?thesis
    by (simp add: serve_part_def serve_instance_def store_packages_def new_obj_def try_world_def Let_def
        start_streaming_proxy_def proxy_listen_def on_world_def store_serving_def streaming_proxy_addr_def numeral_3_eq_3)
qed


lemma count_call:
  assumes "client_conn i = Some c" and "open_conns (world l) c = Some (srv, d)"
  shows "invoke_part count_packages md m ''ReadSchemaRequest'' [] i l = (Inr [of_nat (Suc (length d))],
    l\<lparr>world := (world l)\<lparr>open_conns := (open_conns (world l))(c \<mapsto> (srv, d @ [[]]))\<rparr>\<rparr>)"
  using assms by (simp add: invoke_part_def store_packages_def try_world_def counting_def Let_def)

lemma two_stores_outcome:
  "\<exists>m. play count_packages two_stores new_program = Some m
    \<and> allowed store_request count_packages two_stores new_program
    \<and> length (requests m) = 4 \<and> length (calls m) = 4
    \<and> calls m ! 2 = Answered (Reply (Inr [1])) \<and> calls m ! 3 = Answered (Reply (Inr [1]))
    \<and> dom (instances (shared m)) = {1, 2}"
  by (simp add: two_stores_def new_program_def Interleaving.make_def turn_def store_parts Concurrent.quiet_def
      store_lib_def store_serve store_serving_def read_schema_part store_request_def rust_request_def any_request_def
      count_call)



end
