(* ===== verification/Resources.thy ===== *)
theory Resources
  imports Library_Runs "HOL-Library.Multiset"
begin

text \<open>
  What the library holds open.  Any choice of packages is extended by a ledger, a multiset of the
  servers running, connections, listeners, gRPC servers, tracers and metrics servers that have been
  opened and not yet closed; the ledger changes nothing else.  The lemmas follow it through start,
  dispose and calls.
\<close>

section \<open>The ledger\<close>

datatype resource =
  Running obj | Connection obj | Listener obj | Proxy obj | Tracer obj | Metrics obj

type_synonym ledger = "resource multiset"

definition acquiring ::
    "('a \<Rightarrow> resource) \<Rightarrow> ('w \<Rightarrow> (string + 'a) \<times> 'w) \<Rightarrow> 'w \<times> ledger \<Rightarrow> (string + 'a) \<times> 'w \<times> ledger" where
  "acquiring res f = (\<lambda>(w, m).
     (case f w of
        (Inl e, w') \<Rightarrow> (Inl e, w', m)
      | (Inr x, w') \<Rightarrow> (Inr x, w', add_mset (res x) m)))"

definition releasing :: "resource \<Rightarrow> ('w \<Rightarrow> 'w) \<Rightarrow> 'w \<times> ledger \<Rightarrow> 'w \<times> ledger" where
  "releasing res f = (\<lambda>(w, m). (f w, m - {#res#}))"

definition passing :: "('w \<Rightarrow> 'b \<times> 'w) \<Rightarrow> 'w \<times> ledger \<Rightarrow> 'b \<times> 'w \<times> ledger" where
  "passing f = (\<lambda>(w, m). (let (r, w') = f w in (r, w', m)))"

definition audited :: "('m, 'w) packages \<Rightarrow> ('m, 'w \<times> ledger) packages" where
  "audited P =
     \<lparr>is_windows = is_windows P, temp_file = temp_file P, process_id = process_id P,
      new_datastore = (\<lambda>opts. passing (new_datastore P opts)),
      new_server = (\<lambda>ds m. passing (new_server P ds m)),
      new_client = (\<lambda>srv. acquiring Connection (new_client P srv)),
      run_server = (\<lambda>srv ctx (w, m). (run_server P srv ctx w, add_mset (Running ctx) m)),
      cancel_context = (\<lambda>ctx. releasing (Running ctx) (cancel_context P ctx)),
      close_conn = (\<lambda>c. releasing (Connection c) (close_conn P c)),
      new_tracer = (\<lambda>e n. acquiring Tracer (new_tracer P e n)),
      shutdown_tracer = (\<lambda>t. releasing (Tracer t) (shutdown_tracer P t)),
      serve_metrics = (\<lambda>a. acquiring Metrics (serve_metrics P a)),
      shutdown_metrics = (\<lambda>v. releasing (Metrics v) (shutdown_metrics P v)),
      listen_unix = (\<lambda>a. acquiring Listener (listen_unix P a)),
      listen_tcp = (\<lambda>a. acquiring (\<lambda>(lis, addr). Listener lis) (listen_tcp P a)),
      close_listener = (\<lambda>v. releasing (Listener v) (close_listener P v)),
      remove_file = (\<lambda>f (w, m). (remove_file P f w, m)),
      serve_proxy = (\<lambda>c v (w, m). (let (srv, w') = serve_proxy P c v w in (srv, w', add_mset (Proxy srv) m))),
      graceful_stop = (\<lambda>v. releasing (Proxy v) (graceful_stop P v)),
      unmarshal = unmarshal P, marshal = marshal P,
      invoke = (\<lambda>md method c m. passing (invoke P md method c m))\<rparr>"

definition ledger :: "('w \<times> ledger) golib \<Rightarrow> ledger" where
  "ledger l = snd (world l)"

text \<open>What an instance holds.\<close>

definition opt_mset :: "('a \<Rightarrow> resource) \<Rightarrow> 'a option \<Rightarrow> ledger" where
  "opt_mset res v = (case v of None \<Rightarrow> {#} | Some x \<Rightarrow> {#res x#})"

definition observers :: "instance_rec \<Rightarrow> ledger" where
  "observers i = opt_mset Tracer (tracer_provider i) + opt_mset Metrics (metrics_server i)"

definition servers :: "instance_rec \<Rightarrow> ledger" where
  "servers i = {#Running (cancel i)#} + opt_mset Connection (client_conn i)
     + opt_mset Listener (streaming_listener i) + opt_mset Proxy (streaming_server i)"

definition holdings :: "instance_rec \<Rightarrow> ledger" where
  "holdings i = servers i + observers i"

lemma opt_mset_simps [simp]: "opt_mset res None = {#}" "opt_mset res (Some x) = {#res x#}"
  by (simp_all add: opt_mset_def)

section \<open>Single operations\<close>

lemma ledger_update [simp]:
  "ledger (l\<lparr>instances := t\<rparr>) = ledger l" "ledger (l\<lparr>global_tracer := g\<rparr>) = ledger l"
  "ledger (begun l) = ledger l"
  by (simp_all add: ledger_def begun_def)

lemma ledger_world: "ledger (l\<lparr>world := w\<rparr>) = snd w"
  by (simp add: ledger_def)

lemma ledger_release [simp]: "ledger (on_world (releasing res f) l) = ledger l - {#res#}"
  by (simp add: ledger_def on_world_def releasing_def split: prod.split)

lemma try_passing: "try_world (passing f) l = (r, l') \<Longrightarrow> ledger l' = ledger l"
  by (auto simp: try_world_def passing_def ledger_def split: prod.splits)

lemma try_acquiring:
  "try_world (acquiring res f) l = (r, l') \<Longrightarrow>
     ledger l' = ledger l + (case r of Inl _ \<Rightarrow> {#} | Inr x \<Rightarrow> {#res x#})"
  by (auto simp: try_world_def acquiring_def ledger_def split: prod.splits sum.splits)

lemma audited_same [simp]:
  "is_windows (audited P) = is_windows P" "marshal (audited P) = marshal P"
  "streaming_proxy_addr (audited P) n = streaming_proxy_addr P n"
  by (simp_all add: audited_def streaming_proxy_addr_def)

lemma audited_listen: "listen_unix (audited P) a = acquiring Listener (listen_unix P a)"
  by (simp add: audited_def)

lemma audited_serve:
  "serve_proxy (audited P) c v wm
     = (let (srv, w) = serve_proxy P c v (fst wm) in (srv, w, add_mset (Proxy srv) (snd wm)))"
  by (simp add: audited_def split: prod.split)

lemma small_audited: "small_responses P \<Longrightarrow> small_responses (audited P)"
  by (simp add: small_responses_def)

lemma ledger_remove_file [simp]: "ledger (on_world (remove_file (audited P) f) l) = ledger l"
  by (simp add: ledger_def on_world_def audited_def split: prod.split)

lemma ledger_run [simp]:
  "ledger (on_world (run_server (audited P) srv ctx) l) = add_mset (Running ctx) (ledger l)"
  by (simp add: ledger_def on_world_def audited_def split: prod.split)

lemma ledger_cancel [simp]:
  "ledger (on_world (cancel_context (audited P) c) l) = ledger l - {#Running c#}"
  by (simp add: audited_def)

lemma ledger_cleanup [simp]:
  "ledger (cleanup_observability (audited P) i l) = ledger l - observers i"
  by (auto simp: cleanup_observability_def Let_def observers_def audited_def add_mset_commute split: option.split)

lemma ledger_stop_serving [simp]:
  "ledger (stop_serving (audited P) i l) = ledger l - servers i"
  by (simp add: stop_serving_def Let_def servers_def audited_def add_mset_commute split: option.split)

section \<open>The parts of a start\<close>

lemma ledger_datastore: "try_world (new_datastore (audited P) opts) l = (r, l') \<Longrightarrow> ledger l' = ledger l"
  by (auto simp: audited_def dest: try_passing)

lemma ledger_server: "try_world (new_server (audited P) ds m) l = (r, l') \<Longrightarrow> ledger l' = ledger l"
  by (auto simp: audited_def dest: try_passing)

lemma ledger_client:
  "try_world (new_client (audited P) srv) l = (r, l') \<Longrightarrow>
     ledger l' = ledger l + (case r of Inl _ \<Rightarrow> {#} | Inr c \<Rightarrow> {#Connection c#})"
  by (auto simp: audited_def dest: try_acquiring)

text \<open>\<open>j\<close> is \<open>i\<close> with its observability set up.\<close>

definition observed :: "instance_rec \<Rightarrow> instance_rec \<Rightarrow> bool" where
  "observed i j \<longleftrightarrow> cancel j = cancel i \<and> client_conn j = client_conn i
     \<and> streaming_listener j = streaming_listener i \<and> streaming_server j = streaming_server i"

lemma ledger_metrics:
  assumes "with_metrics_server (audited P) opts i l = (r, l')" and "metrics_server i = None"
    and "ledger l = m + observers i"
  shows "case r of
      Inl _ \<Rightarrow> ledger l' = m - {#Running (cancel i)#}
    | Inr j \<Rightarrow> ledger l' = m + observers j \<and> observed i j"
proof (cases "MetricsEnabled opts \<and> 0 < MetricsPort opts")
  case False
  with assms show ?thesis by (auto simp: with_metrics_server_def observed_def)
next
  case True
  let ?h = "if MetricsHost opts = [] then ''0.0.0.0'' else MetricsHost opts"
  obtain q l1 where q: "try_world (serve_metrics (audited P) (?h @ '':'' @ dec_int (MetricsPort opts))) l = (q, l1)"
    by fastforce
  then have l1: "ledger l1 = ledger l + (case q of Inl _ \<Rightarrow> {#} | Inr v \<Rightarrow> {#Metrics v#})"
    by (auto simp: audited_def dest: try_acquiring)
  show ?thesis
  proof (cases q)
    case (Inl e)
    with True q l1 assms show ?thesis
      by (auto simp: with_metrics_server_def start_metrics_server_def simp del: append_Cons append_Nil)
  next
    case (Inr v)
    with True q l1 assms show ?thesis
      by (auto simp: with_metrics_server_def start_metrics_server_def observers_def observed_def)
  qed
qed

lemma ledger_observability:
  assumes "start_observability (audited P) opts i l = (r, l')"
    and "tracer_provider i = None" and "metrics_server i = None"
  shows "case r of
      Inl _ \<Rightarrow> ledger l' = ledger l - {#Running (cancel i)#}
    | Inr j \<Rightarrow> ledger l' = ledger l + observers j \<and> observed i j"
proof (cases "MetricsEnabled opts \<and> OTLPEndpoint opts \<noteq> []")
  case False
  with assms(1) have "with_metrics_server (audited P) opts i l = (r, l')"
    by (simp only: start_observability_def if_False)
  from ledger_metrics [OF this assms(3), of "ledger l"] assms(2,3) show ?thesis by (simp add: observers_def)
next
  case True
  let ?name = "if OTLPServiceName opts = [] then ''spicedb'' else OTLPServiceName opts"
  obtain q l1 where q: "try_world (new_tracer (audited P) (OTLPEndpoint opts) ?name) l = (q, l1)" by fastforce
  then have l1: "ledger l1 = ledger l + (case q of Inl _ \<Rightarrow> {#} | Inr v \<Rightarrow> {#Tracer v#})"
    by (auto simp: audited_def dest: try_acquiring)
  show ?thesis
  proof (cases q)
    case (Inl e)
    with True q l1 assms show ?thesis
      by (auto simp: start_observability_def setup_otel_tracing_def simp del: append_Cons append_Nil)
  next
    case (Inr tp)
    let ?i = "i\<lparr>tracer_provider := Some tp, prev_tracer_provider := global_tracer l1\<rparr>"
    from True q Inr assms(1) have "with_metrics_server (audited P) opts ?i (l1\<lparr>global_tracer := tp\<rparr>) = (r, l')"
      by (simp add: start_observability_def setup_otel_tracing_def)
    from ledger_metrics [OF this, of "ledger l"] l1 Inr assms(3) show ?thesis by (cases r) (simp_all add: observers_def observed_def)
  qed
qed

lemma ledger_proxy:
  assumes "start_streaming_proxy (audited P) i conn n l = (r, l')"
    and "streaming_listener i = None" and "streaming_server i = None"
  shows "case r of
      Inl _ \<Rightarrow> ledger l' = ledger l
    | Inr j \<Rightarrow> ledger l' + servers i = ledger l + servers j \<and> observers j = observers i"
proof -
  obtain q l1 where q: "proxy_listen (audited P) n l = (q, l1)" by fastforce
  have l1: "ledger l1 = ledger l + (case q of Inl _ \<Rightarrow> {#} | Inr (lis, addr) \<Rightarrow> {#Listener lis#})"
  proof (cases "is_windows P")
    case True
    with q have "try_world (acquiring (\<lambda>(lis, addr). Listener lis) (listen_tcp P ''127.0.0.1:0'')) l = (q, l1)"
      by (simp add: proxy_listen_def) (simp add: audited_def)
    from try_acquiring [OF this] show ?thesis by (cases q) auto
  next
    case False
    let ?a = "streaming_proxy_addr P n"
    obtain p l2 where p: "try_world (listen_unix (audited P) ?a) (on_world (remove_file (audited P) ?a) l) = (p, l2)"
      by fastforce
    then have "ledger l2 = ledger l + (case p of Inl _ \<Rightarrow> {#} | Inr v \<Rightarrow> {#Listener v#})"
      using try_acquiring [of Listener "listen_unix P ?a" "on_world (remove_file (audited P) ?a) l" p l2]
      by (simp add: audited_listen)
    with p q False show ?thesis by (cases p) (auto simp: proxy_listen_def Let_def)
  qed
  from assms q l1 show ?thesis
    by (cases q) (auto simp: start_streaming_proxy_def Let_def audited_serve ledger_world servers_def observers_def
        split: prod.splits, simp add: ledger_def)
qed

section \<open>Start, dispose and calls\<close>

lemma diff_add_both: "m + a + b - a - (b :: 'a multiset) = m"
  by (simp add: add.assoc)

lemma ledger_serving:
  assumes "start_serving (audited P) i n l = Some (t, l')" and "ledger l = m + observers i"
    and "client_conn i = None" and "streaming_listener i = None" and "streaming_server i = None"
  shows "(\<exists>j. instances l' = (instances l)(n \<mapsto> j) \<and> ledger l' = m + holdings j \<and> cancel j = cancel i)
    \<or> instances l' = instances l \<and> (ledger l' = m
        \<or> (\<exists>c e. t = make_error (''failed to start streaming proxy: '' @ e) \<and> ledger l' = add_mset (Connection c) m))"
  using assms(1)
proof (cases rule: start_serving_paths)
  case (no_client e l1)
  from ledger_client [OF no_client(1)] try_world_frame(1) [OF no_client(1)] no_client(2) assms(2) show ?thesis
    by (simp add: observers_def)
next
  case (no_proxy conn l1 e l2)
  from ledger_client [OF no_proxy(1)] ledger_proxy [OF no_proxy(2)] assms
  have "ledger l2 = add_mset (Running (cancel i)) (add_mset (Connection conn) (m + observers i))"
    by (simp add: add_mset_commute)
  with no_proxy(3) have "ledger l' = add_mset (Connection conn) m" by (simp add: observers_def)
  moreover have "instances l' = instances l"
    using try_world_frame(1) [OF no_proxy(1)] start_proxy_result(1) [OF no_proxy(2)] no_proxy(3) by simp
  ultimately show ?thesis using no_proxy(4) by blast
next
  case (published conn l1 j l2)
  have "ledger l2 + {#Running (cancel i), Connection conn#} = ledger l1 + servers j" "observers j = observers i"
    using ledger_proxy [OF published(2)] assms
    by (simp_all add: servers_def observers_def add_mset_commute)
  moreover have "ledger l1 = m + observers i + {#Running (cancel i), Connection conn#}"
    using ledger_client [OF published(1)] assms(2) by (simp add: add_mset_commute)
  ultimately have "ledger l' = m + holdings j"
    using published(3) by (simp add: holdings_def ac_simps)
  moreover have "cancel j = cancel i" using start_proxy_result(4) [OF published(2)] by auto
  moreover have "instances l' = (instances l)(n \<mapsto> j)"
    using try_world_frame(1) [OF published(1)] start_proxy_result(1) [OF published(2)] published(3) by simp
  ultimately show ?thesis by blast
qed

lemma ledger_start:
  assumes "go_start (audited P) opts l = Some (t, l')" and "Running (next_ctx l) \<notin># ledger l"
  shows "(\<exists>i. instances l' = (instances l)(next_id l + 1 \<mapsto> i) \<and> ledger l' = ledger l + holdings i
        \<and> cancel i = next_ctx l)
    \<or> instances l' = instances l \<and> (ledger l' = ledger l
        \<or> (\<exists>c e. t = make_error (''failed to start streaming proxy: '' @ e)
             \<and> ledger l' = add_mset (Connection c) (ledger l)))"
proof -
  have cancel: "ledger l - {#Running (next_ctx l)#} = ledger l" using assms(2) by (simp add: diff_single_trivial)
  have blank: "client_conn (blank_instance c) = None" "streaming_listener (blank_instance c) = None"
    "streaming_server (blank_instance c) = None" "tracer_provider (blank_instance c) = None"
    "metrics_server (blank_instance c) = None" "cancel (blank_instance c) = c" for c
    by (simp_all add: blank_instance_def)
  from assms(1) show ?thesis
  proof (cases rule: go_start_paths)
    case refused
    then show ?thesis by simp
  next
    case (no_datastore e l1)
    with ledger_datastore [OF no_datastore(1)] try_world_frame(1) [OF no_datastore(1)] cancel show ?thesis by simp
  next
    case (no_server ds l1 m e l2)
    with ledger_datastore [OF no_server(1)] ledger_server [OF no_server(2)] try_world_frame(1) [OF no_server(1)]
      try_world_frame(1) [OF no_server(2)] cancel show ?thesis by simp
  next
    case (no_observability ds l1 m srv l2 e)
    from ledger_observability [OF no_observability(3)] start_observability_frame [OF no_observability(3)]
      ledger_datastore [OF no_observability(1)] ledger_server [OF no_observability(2)]
      try_world_frame(1) [OF no_observability(1)] try_world_frame(1) [OF no_observability(2)] cancel
    show ?thesis by (simp add: blank)
  next
    case (serving ds l1 m srv l2 i l3)
    from ledger_observability [OF serving(3)] start_observability_frame [OF serving(3)]
      ledger_datastore [OF serving(1)] ledger_server [OF serving(2)]
      try_world_frame(1) [OF serving(1)] try_world_frame(1) [OF serving(2)]
    have "ledger l3 = ledger l + observers i" "observed (blank_instance (next_ctx l)\<lparr>server := srv\<rparr>) i"
      "instances l3 = instances l" by (simp_all add: blank)
    with ledger_serving [OF serving(4), of "ledger l"] show ?thesis by (simp add: observed_def blank)
  qed
qed

lemma ledger_dispose:
  assumes "go_dispose (audited P) h l = Some (t, l')"
  shows "ledger l' = (case instances l h of None \<Rightarrow> ledger l | Some i \<Rightarrow> ledger l - holdings i)"
  using assms by (auto simp: go_dispose_def Let_def wg_wait_def holdings_def
      split: option.splits if_splits)

lemma ledger_rpc:
  assumes "go_rpc (audited P) h m tp ts req l = (q, l')"
  shows "ledger l' = ledger l"
proof -
  have "ledger k' = ledger k" if "try_world (invoke (audited P) md me c x) k = (r, k')" for md me c x r k k'
    using that by (auto simp: audited_def dest: try_passing)
  with assms show ?thesis
    by (auto simp: go_rpc_def run_rpc_def Let_def split: option.splits sum.splits prod.splits)
qed

section \<open>The books balance\<close>

definition held :: "(u64 \<rightharpoonup> instance_rec) \<Rightarrow> ledger" where
  "held t = (\<Sum>h\<in>dom t. holdings (the (t h)))"

definition only_connections :: "ledger \<Rightarrow> bool" where
  "only_connections m \<longleftrightarrow> (\<forall>r \<in># m. \<exists>c. r = Connection c)"

lemma held_empty [simp]: "held Map.empty = {#}"
  by (simp add: held_def)

lemma held_insert:
  assumes "t h = None"
  shows "held (t(h \<mapsto> i)) = held t + holdings i"
proof -
  have "(\<Sum>k\<in>dom t. holdings (the ((t(h \<mapsto> i)) k))) = held t"
    unfolding held_def using assms by (intro sum.cong) auto
  moreover have "h \<notin> dom t" using assms by auto
  ultimately show ?thesis by (simp add: held_def add.commute)
qed

lemma held_remove:
  assumes "t h = Some i"
  shows "held t = held (t(h := None)) + holdings i"
proof -
  have "t = (t(h := None))(h \<mapsto> i)" using assms by (simp add: fun_upd_idem)
  then show ?thesis using held_insert [of "t(h := None)" h i] by simp
qed

lemma running_in_holdings: "Running c \<in># holdings i \<longleftrightarrow> c = cancel i"
  by (auto simp: holdings_def servers_def observers_def opt_mset_def split: option.splits)

definition accounted :: "('w \<times> ledger) golib \<Rightarrow> bool" where
  "accounted l \<longleftrightarrow> (\<forall>h i. instances l h = Some i \<longrightarrow> cancel i < next_ctx l)
     \<and> (\<exists>m. ledger l = held (instances l) + m \<and> only_connections m)"

lemma accounted_fresh:
  assumes "accounted l"
  shows "Running (next_ctx l) \<notin># ledger l"
proof
  assume r: "Running (next_ctx l) \<in># ledger l"
  from assms obtain m where m: "ledger l = held (instances l) + m" "only_connections m"
    and ctx: "\<forall>h i. instances l h = Some i \<longrightarrow> cancel i < next_ctx l" by (auto simp: accounted_def)
  from m r have "Running (next_ctx l) \<in># held (instances l)" by (auto simp: only_connections_def)
  then obtain h where "h \<in> dom (instances l)" "Running (next_ctx l) \<in># holdings (the (instances l h))"
    by (auto simp: held_def set_mset_sum)
  with ctx show False by (fastforce simp: running_in_holdings)
qed

interpretation books: library_invariant "audited P" accounted for P :: "('m, 'w) packages"
proof
  fix l l' :: "('w \<times> ledger) golib" and t r
  assume l: "accounted l" and new: "instances l (next_id l + 1) = None"
    and g: "go_start (audited P) (Some t) l = Some (r, l')"
  from l obtain m where m: "ledger l = held (instances l) + m" "only_connections m"
    and ctx: "\<forall>h i. instances l h = Some i \<longrightarrow> cancel i < next_ctx l" by (auto simp: accounted_def)
  from ctx_start [OF g] have le: "next_ctx l \<le> next_ctx l'" and s: "l' = l \<or> next_ctx l' = Suc (next_ctx l)" by auto
  from ledger_start [OF g accounted_fresh [OF l]] show "accounted l'"
  proof (elim disjE exE conjE)
    fix i assume i: "instances l' = (instances l)(next_id l + 1 \<mapsto> i)" "ledger l' = ledger l + holdings i"
      "cancel i = next_ctx l"
    with new s have "next_ctx l' = Suc (next_ctx l)" by (auto dest: fun_cong [of _ _ "next_id l + 1"])
    moreover from i m held_insert [where t = "instances l" and i = i, OF new] have "ledger l' = held (instances l') + m" by simp
    ultimately show ?thesis using i m(2) ctx by (auto simp: accounted_def less_Suc_eq)
  next
    assume "instances l' = instances l" "ledger l' = ledger l"
    with m ctx le show ?thesis by (force simp: accounted_def)
  next
    fix c e assume e: "instances l' = instances l" "ledger l' = add_mset (Connection c) (ledger l)"
    with m have "ledger l' = held (instances l') + add_mset (Connection c) m"
      "only_connections (add_mset (Connection c) m)" by (simp_all add: only_connections_def)
    with e ctx le show ?thesis by (force simp: accounted_def)
  qed
next
  fix l l' :: "('w \<times> ledger) golib" and h r
  assume l: "accounted l" "golib_ok l" and g: "go_dispose (audited P) h l = Some (r, l')"
  from go_dispose_ok [OF l(2), of "audited P" h] g have i: "instances l' = (instances l)(h := None)" by auto
  from l obtain m where m: "ledger l = held (instances l) + m" "only_connections m" by (auto simp: accounted_def)
  have "ledger l' = held (instances l') + m"
  proof (cases "instances l h")
    case None
    then have "(instances l)(h := None) = instances l" by auto
    with ledger_dispose [OF g] None m i show ?thesis by simp
  next
    case (Some j)
    with ledger_dispose [OF g] held_remove [where t = "instances l", OF Some] m i show ?thesis by simp
  qed
  with l m(2) i ctx_dispose [OF g] show "accounted l'" by (auto simp: accounted_def)
next
  fix l l' :: "('w \<times> ledger) golib" and h m tp ts req q
  assume "accounted l" and g: "go_rpc (audited P) h m tp ts req l = (q, l')"
  moreover have "next_ctx l' = next_ctx l"
    using g by (auto simp: go_rpc_def run_rpc_def Let_def dest!: try_world_frame(3)
        split: option.splits sum.splits prod.splits)
  ultimately show "accounted l'"
    using ledger_rpc [OF g] go_rpc_frame [OF g] by (simp add: accounted_def)
qed

section \<open>The ledger changes nothing\<close>

definition forget :: "('w \<times> ledger) golib \<Rightarrow> 'w golib" where
  "forget l = \<lparr>instances = instances l, next_id = next_id l, next_ctx = next_ctx l,
     global_tracer = global_tracer l, world = fst (world l)\<rparr>"

lemma forget_simps [simp]:
  "instances (forget l) = instances l" "next_id (forget l) = next_id l"
  "next_ctx (forget l) = next_ctx l" "global_tracer (forget l) = global_tracer l"
  "world (forget l) = fst (world l)"
  by (simp_all add: forget_def)

lemma forget_updates:
  "forget (l\<lparr>instances := t\<rparr>) = (forget l)\<lparr>instances := t\<rparr>"
  "forget (l\<lparr>next_id := n\<rparr>) = (forget l)\<lparr>next_id := n\<rparr>"
  "forget (l\<lparr>next_ctx := c\<rparr>) = (forget l)\<lparr>next_ctx := c\<rparr>"
  "forget (l\<lparr>global_tracer := g\<rparr>) = (forget l)\<lparr>global_tracer := g\<rparr>"
  "forget (l\<lparr>world := w\<rparr>) = (forget l)\<lparr>world := fst w\<rparr>"
  by (simp_all add: forget_def)

definition shadows :: "('w \<Rightarrow> 'b \<times> 'w) \<Rightarrow> ('w \<times> ledger \<Rightarrow> 'b \<times> 'w \<times> ledger) \<Rightarrow> bool" where
  "shadows f g \<longleftrightarrow> (\<forall>w. f (fst w) = apsnd fst (g w))"

lemma shadows_wrapped: "shadows f (passing f)" "shadows f' (acquiring res f')"
  by (auto simp: shadows_def passing_def acquiring_def Let_def split: prod.split sum.split)

lemma forget_try:
  assumes "shadows f g"
  shows "try_world f (forget l) = apsnd forget (try_world g l)"
proof -
  from assms have "f (fst (world l)) = apsnd fst (g (world l))" by (simp only: shadows_def)
  then show ?thesis by (simp add: try_world_def forget_updates split: prod.split)
qed

lemma forget_on_world: "(\<And>w. f (fst w) = fst (g w)) \<Longrightarrow> on_world f (forget l) = forget (on_world g l)"
  by (simp add: on_world_def forget_updates)

lemma forget_ops:
  "try_world (new_datastore P o1) (forget l) = apsnd forget (try_world (new_datastore (audited P) o1) l)"
  "try_world (new_server P ds m) (forget l) = apsnd forget (try_world (new_server (audited P) ds m) l)"
  "try_world (new_client P srv) (forget l) = apsnd forget (try_world (new_client (audited P) srv) l)"
  "try_world (new_tracer P e n) (forget l) = apsnd forget (try_world (new_tracer (audited P) e n) l)"
  "try_world (serve_metrics P a) (forget l) = apsnd forget (try_world (serve_metrics (audited P) a) l)"
  "try_world (listen_unix P a) (forget l) = apsnd forget (try_world (listen_unix (audited P) a) l)"
  "try_world (listen_tcp P a) (forget l) = apsnd forget (try_world (listen_tcp (audited P) a) l)"
  "try_world (invoke P md a c q) (forget l) = apsnd forget (try_world (invoke (audited P) md a c q) l)"
  by (rule forget_try, simp add: audited_def shadows_wrapped)+

lemma forget_effects:
  "on_world (run_server P srv c) (forget l) = forget (on_world (run_server (audited P) srv c) l)"
  "on_world (cancel_context P c) (forget l) = forget (on_world (cancel_context (audited P) c) l)"
  "on_world (close_conn P c) (forget l) = forget (on_world (close_conn (audited P) c) l)"
  "on_world (shutdown_tracer P c) (forget l) = forget (on_world (shutdown_tracer (audited P) c) l)"
  "on_world (shutdown_metrics P c) (forget l) = forget (on_world (shutdown_metrics (audited P) c) l)"
  "on_world (close_listener P c) (forget l) = forget (on_world (close_listener (audited P) c) l)"
  "on_world (graceful_stop P c) (forget l) = forget (on_world (graceful_stop (audited P) c) l)"
  "on_world (remove_file P a) (forget l) = forget (on_world (remove_file (audited P) a) l)"
  by (rule forget_on_world, simp add: audited_def releasing_def split: prod.split)+

lemma forget_cleanup:
  "cleanup_observability P i (forget l) = forget (cleanup_observability (audited P) i l)"
  by (simp add: cleanup_observability_def Let_def forget_effects forget_updates split: option.split)

lemma forget_metrics:
  "with_metrics_server P opts i (forget l) = apsnd forget (with_metrics_server (audited P) opts i l)"
  by (simp add: with_metrics_server_def start_metrics_server_def forget_ops forget_effects forget_cleanup
      split: prod.split sum.split del: append_Cons append_Nil)

lemma forget_observability:
  "start_observability P opts i (forget l) = apsnd forget (start_observability (audited P) opts i l)"
  by (simp add: start_observability_def setup_otel_tracing_def forget_ops forget_effects forget_metrics
      forget_updates [symmetric] split: prod.split sum.split del: append_Cons append_Nil)


lemma forget_listen: "proxy_listen P n (forget l) = apsnd forget (proxy_listen (audited P) n l)"
  by (simp add: proxy_listen_def Let_def forget_ops forget_effects split: prod.split sum.split)

lemma forget_proxy:
  "start_streaming_proxy P i c n (forget l) = apsnd forget (start_streaming_proxy (audited P) i c n l)"
  by (simp add: start_streaming_proxy_def Let_def forget_listen audited_serve forget_updates
      split: prod.split sum.split)

lemma forget_serving:
  "start_serving P i n (forget l) = map_option (apsnd forget) (start_serving (audited P) i n l)"
  by (simp add: start_serving_def Let_def wg_wait_def forget_ops forget_effects forget_proxy forget_cleanup
      forget_updates split: prod.split sum.split del: append_Cons append_Nil)

lemma forget_start:
  "go_start P opts (forget l) = map_option (apsnd forget) (go_start (audited P) opts l)"
  by (simp add: go_start_def Let_def forget_ops forget_effects forget_observability forget_serving
      forget_updates [symmetric] split: prod.split sum.split del: append_Cons append_Nil)

lemma forget_stop: "stop_serving P i (forget l) = forget (stop_serving (audited P) i l)"
  by (simp add: stop_serving_def Let_def forget_effects split: option.split)

lemma forget_dispose:
  "go_dispose P h (forget l) = map_option (apsnd forget) (go_dispose (audited P) h l)"
  by (simp add: go_dispose_def Let_def wg_wait_def forget_stop forget_effects forget_cleanup
      forget_updates [symmetric] split: option.split)

lemma forget_rpc:
  "go_rpc P h m tp ts req (forget l) = apsnd forget (go_rpc (audited P) h m tp ts req l)"
  by (simp add: go_rpc_def run_rpc_def Let_def audited_def forget_ops split: option.split sum.split prod.split)

text \<open>So a fact about the audited library is one about the library, seen with its books.\<close>

section \<open>Properties\<close>


definition audited_lib :: "(string list \<times> ledger) golib" where
  "audited_lib = \<lparr>instances = Map.empty, next_id = 0, next_ctx = 0, global_tracer = 0, world = ([], {#})\<rparr>"



definition audited_app :: "(string list \<times> ledger) app" where
  "audited_app = \<lparr>proc = \<lparr>mem = \<lparr>blocks = Map.empty, brk = 1\<rparr>, lib = audited_lib\<rparr>, owned = []\<rparr>"

lemma audited_app_initial: "initial audited_app" "ledger (lib (proc audited_app)) = {#}"
  by (simp_all add: initial_def audited_app_def audited_lib_def process_ok_def golib_ok_def heap_ok_def ledger_def)

lemma audited_app_start:
  "\<exists>db s1. start (go_ffi (audited sample_packages) esc) rfc_serde None (proc audited_app) = Some (Inr db, s1)"
proof (rule start_default_Inr)
  show "process_ok (proc audited_app)" using audited_app_initial(1) by (simp add: initial_def)
next
  fix t assume "parse_start_options (Some t) = zero_options"
  then obtain a l where "go_start sample_packages (Some t) empty_lib
      = Some (make_success (Some (start_data 1 a ''unix'')), l)"
    using sample_go_start [of "Some t" 1 empty_lib] by (auto simp: empty_lib_ok)
  moreover have "forget (lib (proc audited_app)) = empty_lib"
    by (simp add: audited_app_def audited_lib_def forget_def empty_lib_def)
  ultimately show "\<exists>h a u l. go_start (audited sample_packages) (Some t) (lib (proc audited_app))
      = Some (make_success (Some (start_data h a u)), l)"
    using forget_start [of sample_packages "Some t" "lib (proc audited_app)"]
    by (cases "go_start (audited sample_packages) (Some t) (lib (proc audited_app))") (auto, blast)
qed


end
