(* ===== verification/Behaviour.thy ===== *)
theory Behaviour
  imports Sample_Stores
begin

text \<open>
  The observable behaviour of a program that uses the crate with in-memory datastores: the handles it
  gets, the calls it makes with their answers, the instances it drops.  The specification is a table of
  stores, one per handle; every behaviour of the program on the Go library is one of the table, and
  the events of one handle alone are a behaviour too: instances do not interfere.
\<close>

section \<open>Events\<close>

datatype event =
  Began u64
| Refused
| Answered u64 string trace_context bytes "bytes rpc_result"
| Ended u64

definition in_process :: "start_options \<Rightarrow> bool" where
  "in_process opts \<longleftrightarrow> options_valid opts \<and> \<not> remote_engine (go_engine (go_options_of opts))"

inductive acts ::
    "('m, 'w) packages \<Rightarrow> (nat \<Rightarrow> bool) \<Rightarrow> serde \<Rightarrow> 'w app \<Rightarrow> event \<Rightarrow> 'w app \<Rightarrow> bool"
  for P esc S where
  begins: "start (go_ffi P esc) S options (proc a) = Some (Inr db, s') \<Longrightarrow>
      in_process (unwrap_or options default_options) \<Longrightarrow> next_id (lib (proc a)) \<noteq> - 1 \<Longrightarrow>
      acts P esc S a (Began (db_handle db)) (a\<lparr>proc := s', owned := owned a @ [db]\<rparr>)"
| refuses: "start (go_ffi P esc) S options (proc a) = Some (Inl e, s') \<Longrightarrow>
      in_process (unwrap_or options default_options) \<Longrightarrow> next_id (lib (proc a)) \<noteq> - 1 \<Longrightarrow>
      acts P esc S a Refused (a\<lparr>proc := s'\<rparr>)"
| answers: "raw_call (go_ffi P esc) h m tr req (proc a) = Some (r, s') \<Longrightarrow>
      acts P esc S a (Answered h m tr req r) (a\<lparr>proc := s'\<rparr>)"
| ends: "db \<in> set (owned a) \<Longrightarrow> drop_db (go_ffi P esc) db (proc a) = Some s' \<Longrightarrow>
      acts P esc S a (Ended (db_handle db)) (a\<lparr>proc := s', owned := remove1 db (owned a)\<rparr>)"

inductive_cases acts_cases: "acts P esc S a e b"

inductive behaves ::
    "('m, 'w) packages \<Rightarrow> (nat \<Rightarrow> bool) \<Rightarrow> serde \<Rightarrow> 'w app \<Rightarrow> event list \<Rightarrow> 'w app \<Rightarrow> bool"
  for P esc S a where
  silent: "behaves P esc S a [] a"
| then_acts: "behaves P esc S a es b \<Longrightarrow> acts P esc S b e c \<Longrightarrow> behaves P esc S a (es @ [e]) c"

section \<open>The specification\<close>

text \<open>A unary call on the table, with the errors the wrapper finds before and after it.\<close>

definition table_call ::
    "('m, 'w) packages \<Rightarrow> ('m, 'w, 'd) service \<Rightarrow> (nat \<Rightarrow> bool) \<Rightarrow> u64 \<Rightarrow> string \<Rightarrow> trace_context \<Rightarrow> bytes \<Rightarrow>
     (u64 \<rightharpoonup> 'd) \<Rightarrow> bytes rpc_result \<times> (u64 \<rightharpoonup> 'd)" where
  "table_call P V esc h method tr req A =
     (if 2 ^ 31 \<le> length req
      then (Inl (RpcError ''request too large for FFI (exceeds c_int::MAX)''), A)
      else case c_arguments (go_ffi P esc) method tr of
        Inl e \<Rightarrow> (Inl e, A)
      | Inr (m, tp, ts) \<Rightarrow> (let (r, A') = store_rpc P V h m tp ts req A in (received r, A')))"

fun obeys ::
    "('m, 'w) packages \<Rightarrow> ('m, 'w, 'd) service \<Rightarrow> (nat \<Rightarrow> bool) \<Rightarrow> event \<Rightarrow> (u64 \<rightharpoonup> 'd) \<Rightarrow> (u64 \<rightharpoonup> 'd) option" where
  "obeys P V esc (Began h) A = (if A h = None then Some (A(h \<mapsto> fresh V)) else None)"
| "obeys P V esc Refused A = Some A"
| "obeys P V esc (Answered h m tr req r) A =
     (let (q, A') = table_call P V esc h m tr req A in if q = r then Some A' else None)"
| "obeys P V esc (Ended h) A = (if A h = None then None else Some (A(h := None)))"

fun obeys_all ::
    "('m, 'w) packages \<Rightarrow> ('m, 'w, 'd) service \<Rightarrow> (nat \<Rightarrow> bool) \<Rightarrow> event list \<Rightarrow> (u64 \<rightharpoonup> 'd) \<Rightarrow> (u64 \<rightharpoonup> 'd) option" where
  "obeys_all P V esc [] A = Some A"
| "obeys_all P V esc (e # es) A = Option.bind (obeys P V esc e A) (obeys_all P V esc es)"

lemma obeys_all_append:
  "obeys_all P V esc (es @ fs) A = Option.bind (obeys_all P V esc es A) (obeys_all P V esc fs)"
  by (induction es arbitrary: A) (auto split: bind_splits)

section \<open>Every act obeys\<close>

lemma acts_step: "acts P esc S a e b \<Longrightarrow> step P esc S a b"
  by (erule acts_cases) (auto simp: in_process_def intro: step.intros)

lemma behaves_reachable: "behaves P esc S a es b \<Longrightarrow> reachable P esc S a b"
  by (induction rule: behaves.induct) (auto intro: reachable.intros acts_step)

lemma start_obeys:
  assumes "isolates P V" and "serde_ok S" and ok: "process_ok s" and h: "handles_ok (lib s)"
    and sim: "simulates V A (lib s)"
    and run: "start (go_ffi P esc) S options s = Some (r, s')"
    and opts: "in_process (unwrap_or options default_options)" and id_left: "next_id (lib s) \<noteq> - 1"
  shows "case r of
      Inl e \<Rightarrow> simulates V A (lib s')
    | Inr db \<Rightarrow> A (db_handle db) = None \<and> simulates V (A(db_handle db \<mapsto> fresh V)) (lib s')"
proof -
  from opts have v: "options_valid (unwrap_or options default_options)" by (simp add: in_process_def)
  have new: "instances (lib s) (next_id (lib s) + 1) = None"
    using next_handle_free(1) [OF h id_left] by auto
  obtain t l q s1 where g: "go_start P (Some t) (lib s) = Some (q, l)"
    and p: "parse_start_options (Some t) = go_options_of (unwrap_or options default_options)"
    and st: "start (go_ffi P esc) S options s = Some (and_then (parse_json_response S q) embedded_from, s1)"
    and l: "lib s1 = l" and o: "start_failed q (lib s) l \<or> start_succeeded P q (lib s) l"
    by (rule start_on_go [OF ok assms(2) v, of P esc])
  from st run have r: "r = and_then (parse_json_response S q) embedded_from" and s': "lib s' = l"
    using l by auto
  from p opts have "memory_engine (Some t)" by (simp add: memory_engine_def in_process_def)
  from start_simulates [OF assms(1) sim this new g] have res: "if instances l = instances (lib s)
      then simulates V A l else simulates V (A(next_id (lib s) + 1 \<mapsto> fresh V)) l" .
  from o show ?thesis
  proof
    assume f: "start_failed q (lib s) l"
    then obtain m where "r = Inl m" using r by (auto simp: start_failed_def parse_error_response [OF assms(2)])
    with f res s' show ?thesis by (simp add: start_failed_def)
  next
    assume "start_succeeded P q (lib s) l"
    then obtain i db where "instances l = (instances (lib s))(next_id (lib s) + 1 \<mapsto> i)"
      "r = Inr db" "db_handle db = next_id (lib s) + 1"
      using r by (auto simp: start_succeeded_def parse_start_response [OF assms(2)])
    moreover from this(1) new have "instances l \<noteq> instances (lib s)"
      by (auto dest: fun_cong [of _ _ "next_id (lib s) + 1"])
    moreover have "A (next_id (lib s) + 1) = None" using simulatesD(2) [OF sim] new by blast
    ultimately show ?thesis using res s' by simp
  qed
qed

lemma call_obeys:
  assumes "isolates P V" and "process_ok s" and "simulates V A (lib s)"
    and "raw_call (go_ffi P esc) h m tr req s = Some (r, s')"
  shows "\<exists>A'. table_call P V esc h m tr req A = (r, A') \<and> simulates V A' (lib s')"
proof -
  obtain q l where q: "call_outcome (go_rpc P) (go_ffi P esc) h m tr req (lib s) = (q, l)" by fastforce
  from assms(2) have "heap_ok (mem s)" "golib_ok (lib s)" by (simp_all add: process_ok_def)
  from go.raw_call_refines [OF this q] assms(4) have r: "r = and_then q received" and l: "lib s' = l"
    by (metis option.inject prod.inject)+
  show ?thesis
  proof (cases "2 ^ 31 \<le> length req")
    case True
    with q r l assms(3) show ?thesis by (auto simp: call_outcome_def table_call_def)
  next
    case False
    show ?thesis
    proof (cases "c_arguments (go_ffi P esc) m tr")
      case (Inl e)
      with False q r l assms(3) show ?thesis by (auto simp: call_outcome_def table_call_def)
    next
      case (Inr x)
      obtain n tp ts where x: "x = (n, tp, ts)" by (cases x) auto
      obtain y k where y: "go_rpc P h n tp ts req (lib s) = (y, k)" by fastforce
      with False q r l Inr x have "r = received y" "lib s' = k" by (auto simp: call_outcome_def)
      with rpc_simulates [OF assms(1,3) y] False Inr x show ?thesis by (auto simp: table_call_def)
    qed
  qed
qed

lemma drop_obeys:
  assumes "isolates P V" and "process_ok s" and "simulates V A (lib s)"
    and "drop_db (go_ffi P esc) db s = Some s'"
  shows "simulates V (A(db_handle db := None)) (lib s')"
proof -
  obtain t l s1 where "go_dispose P (db_handle db) (lib s) = Some (t, l)"
    "drop_db (go_ffi P esc) db s = Some s1" "lib s1 = l"
    by (rule drop_on_go [OF assms(2), of P db esc])
  with dispose_simulates [OF assms(1,3)] assms(2,4) show ?thesis by (auto simp: process_ok_def)
qed

lemma acts_obeys:
  assumes "acts P esc S a e b" and "isolates P V" and "serde_ok S" and "app_inv a"
    and "simulates V A (lib (proc a))"
  shows "\<exists>A'. obeys P V esc e A = Some A' \<and> simulates V A' (lib (proc b))"
proof -
  from assms(4) have ok: "process_ok (proc a)" and h: "handles_ok (lib (proc a))" by (simp_all add: app_inv_def)
  note start_obeys = start_obeys [OF assms(2,3) ok h assms(5)]
  from assms(1) show ?thesis
  proof cases
    case (begins options db s')
    from start_obeys [OF begins(3,4,5)] begins(1,2) show ?thesis by simp
  next
    case (refuses options x s')
    from start_obeys [OF refuses(3,4,5)] refuses(1,2) show ?thesis by simp
  next
    case (answers h m tr req r s')
    from call_obeys [OF assms(2) ok assms(5) answers(3)] answers(1,2) show ?thesis by auto
  next
    case (ends db s')
    from ends(3) assms(4) have "db_handle db \<in> dom (instances (lib (proc a)))" by (auto simp: app_inv_def)
    then have "A (db_handle db) \<noteq> None" using simulatesD(2) [OF assms(5)] by auto
    with drop_obeys [OF assms(2) ok assms(5) ends(4)] ends(1,2) show ?thesis by auto
  qed
qed

lemma behaves_obeys:
  assumes "behaves P esc S a es b" and "initial a" and "isolates P V" and "serde_ok S"
    and "small_responses P" and "in_memory V (world (lib (proc a)))"
  shows "\<exists>A. obeys_all P V esc es Map.empty = Some A \<and> simulates V A (lib (proc b))"
  using assms(1)
proof induction
  case silent
  from assms(2,6) show ?case by (simp add: simulates_def initial_def)
next
  case (then_acts es b e c)
  from reachable_inv [OF behaves_reachable [OF then_acts.hyps(1)] initial_inv [OF assms(2)] assms(4,5)]
  have "app_inv b" by simp
  with acts_obeys [OF then_acts.hyps(2) assms(3,4)] then_acts.IH show ?case
    by (fastforce simp: obeys_all_append)
qed

section \<open>One instance alone\<close>

fun concerns :: "u64 \<Rightarrow> event \<Rightarrow> bool" where
  "concerns h (Began k) \<longleftrightarrow> k = h"
| "concerns h Refused \<longleftrightarrow> False"
| "concerns h (Answered k m tr req r) \<longleftrightarrow> k = h"
| "concerns h (Ended k) \<longleftrightarrow> k = h"

lemma store_rpc_local:
  "A h = B h \<Longrightarrow> fst (store_rpc P V h m tp ts req A) = fst (store_rpc P V h m tp ts req B)
    \<and> snd (store_rpc P V h m tp ts req A) h = snd (store_rpc P V h m tp ts req B) h"
  "k \<noteq> h \<Longrightarrow> snd (store_rpc P V k m tp ts req A) h = A h"
  by (auto simp: store_rpc_def Let_def split: option.split sum.split prod.split)

lemma table_call_local:
  "A h = B h \<Longrightarrow> fst (table_call P V esc h m tr req A) = fst (table_call P V esc h m tr req B)
    \<and> snd (table_call P V esc h m tr req A) h = snd (table_call P V esc h m tr req B) h"
  "k \<noteq> h \<Longrightarrow> snd (table_call P V esc k m tr req A) h = A h"
proof -
  show "A h = B h \<Longrightarrow> fst (table_call P V esc h m tr req A) = fst (table_call P V esc h m tr req B)
    \<and> snd (table_call P V esc h m tr req A) h = snd (table_call P V esc h m tr req B) h"
    using store_rpc_local(1) [of A h B P V] by (simp add: table_call_def case_prod_beta split: sum.split)
  show "k \<noteq> h \<Longrightarrow> snd (table_call P V esc k m tr req A) h = A h"
    by (simp add: table_call_def case_prod_beta store_rpc_local(2) split: sum.split)
qed

lemma obeys_other:
  "obeys P V esc e A = Some A' \<Longrightarrow> \<not> concerns h e \<Longrightarrow> A' h = A h"
proof (cases e)
  case (Answered k m tr req r)
  then show "obeys P V esc e A = Some A' \<Longrightarrow> \<not> concerns h e \<Longrightarrow> A' h = A h"
    using table_call_local(2) [of k h P V esc m tr req A] by (auto split: prod.splits if_splits)
qed (auto split: if_splits)

lemma obeys_own:
  "obeys P V esc e A = Some A' \<Longrightarrow> concerns h e \<Longrightarrow> B h = A h \<Longrightarrow>
    \<exists>B'. obeys P V esc e B = Some B' \<and> B' h = A' h"
proof (cases e)
  case (Answered k m tr req r)
  then show "obeys P V esc e A = Some A' \<Longrightarrow> concerns h e \<Longrightarrow> B h = A h \<Longrightarrow>
      \<exists>B'. obeys P V esc e B = Some B' \<and> B' h = A' h"
    using table_call_local(1) [of A h B P V esc m tr req] by (auto split: prod.splits if_splits)
qed (auto split: if_splits)

lemma obeys_alone:
  "obeys_all P V esc es A = Some A' \<Longrightarrow> B h = A h \<Longrightarrow>
    \<exists>B'. obeys_all P V esc (filter (concerns h) es) B = Some B' \<and> B' h = A' h"
proof (induction es arbitrary: A B)
  case (Cons e es)
  from Cons.prems(1) obtain A1 where A1: "obeys P V esc e A = Some A1" "obeys_all P V esc es A1 = Some A'"
    by (auto simp: bind_eq_Some_conv)
  show ?case
  proof (cases "concerns h e")
    case True
    from obeys_own [where h = h and A = A and B = B, OF A1(1) True Cons.prems(2)] obtain B1 where "obeys P V esc e B = Some B1" "B1 h = A1 h" by blast
    with Cons.IH [OF A1(2), of B1] True show ?thesis by simp
  next
    case False
    with obeys_other [OF A1(1) False] Cons.IH [OF A1(2), of B] Cons.prems(2) show ?thesis by simp
  qed
qed auto

section \<open>An example\<close>

text \<open>One instance and one call on it.\<close>

definition one_call :: "u64 \<Rightarrow> bytes rpc_result \<Rightarrow> event list" where
  "one_call h r = [Began h, Answered h READ_SCHEMA trace_default [42] r]"

lemma one_call_behaves:
  obtains h r b where "behaves count_packages (\<lambda>_. False) rfc_serde store_app (one_call h r) b"
proof -
  let ?F = "go_ffi count_packages (\<lambda>_. False)"
  obtain db s1 where st: "start ?F rfc_serde None (proc store_app) = Some (Inr db, s1)"
    using store_app_start [of "[]" counting] by blast
  let ?s = "store_app :: bytes list store_world app"
  let ?a = "?s\<lparr>proc := s1, owned := owned ?s @ [db]\<rparr>"
  have "in_process (unwrap_or None default_options)"
    using default_valid by (simp add: in_process_def go_options_of_def default_options_def go_engine_def
        remote_engine_def)
  then have b: "acts count_packages (\<lambda>_. False) rfc_serde store_app (Began (db_handle db)) ?a"
    by (intro acts.begins [OF st]) (simp_all add: store_app_initial(3))
  then have r: "reachable count_packages (\<lambda>_. False) rfc_serde store_app ?a"
    by (intro reachable.further [OF reachable.here acts_step])
  have "process_ok s1"
    using reachable_inv [OF r initial_inv [OF store_app_initial(1)] rfc_serde_ok store_small]
    by (simp add: app_inv_def)
  then obtain x s2 where "raw_call ?F (db_handle db) READ_SCHEMA trace_default [42] s1 = Some (x, s2)"
    using raw_call_total by blast
  then have c: "acts count_packages (\<lambda>_. False) rfc_serde ?a (Answered (db_handle db) READ_SCHEMA trace_default [42] x)
      (?a\<lparr>proc := s2\<rparr>)"
    by (intro acts.answers) simp
  have "behaves count_packages (\<lambda>_. False) rfc_serde store_app ([Began (db_handle db)]
      @ [Answered (db_handle db) READ_SCHEMA trace_default [42] x]) (?a\<lparr>proc := s2\<rparr>)"
    using behaves.then_acts [OF behaves.silent b] by (intro behaves.then_acts [OF _ c]) simp
  with that show thesis by (simp add: one_call_def)
qed

section \<open>Properties\<close>





end
