(* ===== verification/Docs_App.thy ===== *)
theory Docs_App
  imports Embedded
begin

text \<open>
  The Google Docs example, \<open>src/examples/rust/google-docs/src\<close>: the schema and seed relationships, the
  helper \<open>rel\<close>, \<open>create_app\<close> and the handler of \<open>GET /drive/{folder}/{document_id}\<close>.  The request and
  response messages are the fields the code uses; the protobuf codec and \<open>HeaderValue::to_str\<close> are
  arguments.  The lemmas give the handler's decision table and show that access is by permission only.
\<close>

section \<open>Messages\<close>

text \<open>Message types the code only leaves empty.\<close>

typedecl caveat
typedecl timestamp
typedecl proto_struct

record object_reference =
  object_type :: string
  object_id :: string

record subject_reference =
  subject_object :: "object_reference option"
  optional_relation :: string

record relationship =
  resource :: "object_reference option"
  relation :: string
  subject :: "subject_reference option"
  optional_caveat :: "caveat option"
  optional_expires_at :: "timestamp option"

datatype requirement = MinimizeLatency bool | FullyConsistent bool

record consistency =
  requirement :: "requirement option"

record check_permission_request =
  check_consistency :: "consistency option"
  check_resource :: "object_reference option"
  permission :: string
  check_subject :: "subject_reference option"
  check_context :: "proto_struct option"
  with_tracing :: bool

datatype permissionship = UnspecifiedPermission | NoPermission | HasPermission | ConditionalPermission

fun permissionship_i32 :: "permissionship \<Rightarrow> i32" where
  "permissionship_i32 UnspecifiedPermission = 0"
| "permissionship_i32 NoPermission = 1"
| "permissionship_i32 HasPermission = 2"
| "permissionship_i32 ConditionalPermission = 3"

record check_permission_response =
  response_permissionship :: i32

section \<open>Relationships\<close>

text \<open>\<open>rel\<close>: \<open>None\<close> where \<open>split_once(':').unwrap()\<close> panics.\<close>

definition rel :: "string \<Rightarrow> string \<Rightarrow> string \<Rightarrow> relationship option" where
  "rel resource_text relation_name subject_text = do {
     (res_type, res_id) \<leftarrow> split_once (CHR '':'') resource_text;
     (sub_type, sub_id) \<leftarrow> split_once (CHR '':'') subject_text;
     Some \<lparr>resource = Some \<lparr>object_type = res_type, object_id = res_id\<rparr>,
           relation = relation_name,
           subject = Some \<lparr>subject_object = Some \<lparr>object_type = sub_type, object_id = sub_id\<rparr>,
                           optional_relation = []\<rparr>,
           optional_caveat = None, optional_expires_at = None\<rparr> }"

definition seed_relationships :: "relationship list option" where
  "seed_relationships = those
     [rel ''document:doc1'' ''folder'' ''folder:marketing'',
      rel ''document:doc2'' ''folder'' ''folder:marketing'',
      rel ''document:spec'' ''folder'' ''folder:engineering'',
      rel ''folder:engineering'' ''parent'' ''folder:root'',
      rel ''folder:marketing'' ''parent'' ''folder:root'']"

definition NL :: char where
  "NL = CHR 0x0A"

definition DRIVE_SCHEMA :: string where
  "DRIVE_SCHEMA = concat (map (\<lambda>l. NL # l)
     [''definition user {}'', [],
      ''definition folder {'',
      ''  relation parent: folder'',
      ''  relation viewer: user'',
      ''  relation editor: user'', [],
      ''  permission view = viewer + parent->view'',
      ''  permission edit = editor + parent->edit'',
      ''}'', [],
      ''definition document {'',
      ''  relation folder: folder'',
      ''  relation viewer: user'',
      ''  relation editor: user'', [],
      ''  permission view = viewer + folder->view'',
      ''  permission edit = editor + folder->edit'',
      ''}'', []])"

definition create_app where
  "create_app F S CS CR initial_relationships s =
     (case (case initial_relationships of Some rs \<Rightarrow> Some rs | None \<Rightarrow> seed_relationships) of
        None \<Rightarrow> None
      | Some relationships \<Rightarrow> start_with_schema F S CS CR DRIVE_SCHEMA relationships None s)"

section \<open>The handler\<close>

text \<open>Header values by lower-case name.\<close>

type_synonym header_map = "string \<rightharpoonup> string list"

definition header_get :: "header_map \<Rightarrow> string \<Rightarrow> string option" where
  "header_get hs k = (case hs k of Some (v # _) \<Rightarrow> Some v | _ \<Rightarrow> None)"

definition header_user :: "(string \<Rightarrow> string option) \<Rightarrow> header_map \<Rightarrow> string option" where
  "header_user to_str headers =
     (case map_option trim (Option.bind (header_get headers ''x-user'') to_str) of
        Some u \<Rightarrow> if u \<noteq> [] then Some u else None
      | None \<Rightarrow> None)"

definition view_request :: "string \<Rightarrow> string \<Rightarrow> check_permission_request" where
  "view_request user document_id =
     \<lparr>check_consistency = Some \<lparr>requirement = Some (FullyConsistent True)\<rparr>,
      check_resource = Some \<lparr>object_type = ''document'', object_id = document_id\<rparr>,
      permission = ''view'',
      check_subject = Some \<lparr>subject_object = Some \<lparr>object_type = ''user'', object_id = user\<rparr>,
                            optional_relation = []\<rparr>,
      check_context = None, with_tracing = False\<rparr>"

record http_response =
  status :: nat
  json_body :: json

definition check_response :: "string \<Rightarrow> string \<Rightarrow> string \<Rightarrow> check_permission_response db_result \<Rightarrow> http_response" where
  "check_response user folder_id document_id r =
     (case r of
        Inr response \<Rightarrow>
          if response_permissionship response = permissionship_i32 HasPermission then
            \<lparr>status = 200, json_body = JObj
              [(''ok'', JBool True), (''user'', JStr user), (''folder'', JStr folder_id),
               (''document'', JStr document_id), (''message'', JStr ''Access allowed'')]\<rparr>
          else
            \<lparr>status = 403, json_body = JObj
              [(''error'', JStr ''Forbidden''),
               (''message'', JStr (''User '' @ user @ '' does not have view access to document ''
                 @ document_id @ '' in folder '' @ folder_id))]\<rparr>
      | Inl e \<Rightarrow>
          \<lparr>status = 500, json_body = JObj
            [(''error'', JStr ''Internal error''), (''message'', JStr (error_text e))]\<rparr>)"

definition drive_handler ::
    "'l ffi \<Rightarrow> bool \<Rightarrow> span_context \<Rightarrow> (check_permission_request, check_permission_response) codec \<Rightarrow>
     (string \<Rightarrow> string option) \<Rightarrow> embedded \<Rightarrow> string \<Rightarrow> string \<Rightarrow> header_map \<Rightarrow> 'l process \<Rightarrow>
     (http_response \<times> 'l process) option" where
  "drive_handler F otel span C to_str db folder_id document_id headers s =
     (case header_user to_str headers of
        None \<Rightarrow> Some (\<lparr>status = 401, json_body = JObj [(''error'', JStr ''Missing X-User header'')]\<rparr>, s)
      | Some user \<Rightarrow> do {
          (r, s') \<leftarrow> client_check_permission F otel span C (permissions_client db)
            (view_request user document_id) s;
          Some (check_response user folder_id document_id r, s') })"

section \<open>Lemmas\<close>

lemma rel_parts:
  assumes "CHR '':'' \<notin> set t" and "CHR '':'' \<notin> set u"
  shows "rel (t @ CHR '':'' # i) r (u @ CHR '':'' # v)
    = Some \<lparr>resource = Some \<lparr>object_type = t, object_id = i\<rparr>, relation = r,
        subject = Some \<lparr>subject_object = Some \<lparr>object_type = u, object_id = v\<rparr>, optional_relation = []\<rparr>,
        optional_caveat = None, optional_expires_at = None\<rparr>"
proof -
  have "split_once (CHR '':'') (x @ CHR '':'' # y) = Some (x, y)" if "CHR '':'' \<notin> set x" for x y
    using that by (induction x) auto
  with assms show ?thesis by (simp add: rel_def)
qed

lemma header_user_shape:
  "header_user to_str hs = Some u \<Longrightarrow> u \<noteq> [] \<and> trim u = u"
  by (auto simp: header_user_def split: option.splits if_splits)

lemma drive_on_go:
  assumes "process_ok s" and "small_responses P" and "trace_c_ok (current otel span)"
    and "header_user to_str headers = Some user"
    and "lib_call P C (db_handle db) CHECK_PERMISSION (current otel span)
      (view_request user document_id) (lib s) = (r, l)"
  shows "\<exists>s'. drive_handler (go_ffi P esc) otel span C to_str db folder_id document_id headers s
      = Some (check_response user folder_id document_id (map_err db_err r), s')
    \<and> balanced s s' \<and> process_ok s' \<and> lib s' = l"
proof -
  from call_on_go [OF assms(1,2) methods_no_NUL(1) assms(3,5), of esc] obtain s' where
    "call (go_ffi P esc) otel span C (db_handle db) CHECK_PERMISSION (view_request user document_id) s
      = Some (map_err db_err r, s')" "balanced s s'" "process_ok s'" "lib s' = l" by blast
  with assms(4) show ?thesis
    by (simp add: drive_handler_def client_check_permission_def permissions_client_def)
qed

section \<open>Properties\<close>

text \<open>
  The handler's decision table, errors included: 401 without a user and without a call; else one
  permission check of that user on that document decides: 200 if it is granted, 403 for any other
  answer, 500 if the call fails.
\<close>

lemma drive_handler_decides:
  assumes "process_ok s" and "small_responses P" and "trace_c_ok (current otel span)"
  shows "\<exists>resp s'. drive_handler (go_ffi P esc) otel span C to_str db folder_id document_id headers s
      = Some (resp, s') \<and> balanced s s' \<and>
    (case header_user to_str headers of
       None \<Rightarrow> status resp = 401 \<and> s' = s
     | Some user \<Rightarrow>
         (let (r, l) = lib_call P C (db_handle db) CHECK_PERMISSION (current otel span)
            (view_request user document_id) (lib s)
          in lib s' = l \<and> status resp = (case r of Inl _ \<Rightarrow> 500
               | Inr a \<Rightarrow> if response_permissionship a = 2 then 200 else 403)))"
proof (cases "header_user to_str headers")
  case None
  with assms show ?thesis by (auto simp: drive_handler_def process_ok_def)
next
  case (Some user)
  obtain r l where r: "lib_call P C (db_handle db) CHECK_PERMISSION (current otel span)
      (view_request user document_id) (lib s) = (r, l)" by fastforce
  from drive_on_go [OF assms Some r, of esc folder_id] show ?thesis
    by (cases r) (auto simp: Some r check_response_def)
qed

text \<open>Every response denies, or every response grants.\<close>

definition fixed_codec :: "i32 \<Rightarrow> (check_permission_request, check_permission_response) codec" where
  "fixed_codec n = \<lparr>encode = (\<lambda>_. []), decode = (\<lambda>_. Inr \<lparr>response_permissionship = n\<rparr>)\<rparr>"

definition live_db :: embedded where
  "live_db = \<lparr>db_handle = 1, streaming_address = [], streaming_transport = []\<rparr>"

lemma live_check:
  "\<exists>l. lib_call sample_packages (fixed_codec n) 1 CHECK_PERMISSION trace_default q (lib live_process)
    = (Inr \<lparr>response_permissionship = n\<rparr>, l)"
  by (simp add: lib_call_def fixed_codec_def go_rpc_def CHECK_PERMISSION_def c_text_def rpc_messages_def
      full_method_name_def run_rpc_def live_process_def sample_instance_def sample_packages_def
      logging_def try_world_def)

lemma drive_handler_decides_example:
  "\<exists>resp s'. drive_handler (go_ffi sample_packages (\<lambda>_. False)) False no_span (fixed_codec 2) Some live_db
      ''marketing'' ''doc1'' [''x-user'' \<mapsto> ['' alice '']] live_process = Some (resp, s')
    \<and> status resp = 200"
proof -
  have u: "header_user Some [''x-user'' \<mapsto> ['' alice '']] = Some ''alice''"
    by (simp add: header_user_def header_get_def trim_def is_ascii_space_def)
  obtain l where l: "lib_call sample_packages (fixed_codec 2) (db_handle live_db) CHECK_PERMISSION
      (current False no_span) (view_request ''alice'' ''doc1'') (lib live_process)
      = (Inr \<lparr>response_permissionship = 2\<rparr>, l)" using live_check by (auto simp: live_db_def)
  have t: "trace_c_ok (current False no_span)" by simp
  from drive_handler_decides [OF live_process_ok sample_small t, of "\<lambda>_. False" "fixed_codec 2" Some live_db
      "''marketing''" "''doc1''" "[''x-user'' \<mapsto> ['' alice '']]"]
  show ?thesis by (auto simp: u l [unfolded no_span_current])
qed

text \<open>
  Nobody gets in without a permission: a 200 means the header named a user (trimmed, not blank)
  and the server answered the check of \<open>view\<close> on that document for that user with \<open>HAS_PERMISSION\<close>.
\<close>

lemma access_only_with_permission:
  assumes "process_ok s" and "small_responses P" and "trace_c_ok (current otel span)"
    and "drive_handler (go_ffi P esc) otel span C to_str db folder_id document_id headers s = Some (resp, s')"
    and "status resp = 200"
  shows "\<exists>user a. header_user to_str headers = Some user \<and> user \<noteq> [] \<and> trim user = user
    \<and> fst (lib_call P C (db_handle db) CHECK_PERMISSION (current otel span)
        (view_request user document_id) (lib s)) = Inr a
    \<and> response_permissionship a = permissionship_i32 HasPermission"
proof (cases "header_user to_str headers")
  case None
  with assms(4,5) show ?thesis by (auto simp: drive_handler_def)
next
  case (Some user)
  obtain r l where r: "lib_call P C (db_handle db) CHECK_PERMISSION (current otel span)
      (view_request user document_id) (lib s) = (r, l)" by fastforce
  from drive_on_go [OF assms(1-3) Some r, of esc folder_id] assms(4)
  have "resp = check_response user folder_id document_id (map_err db_err r)" by auto
  with assms(5) obtain a where "r = Inr a" "response_permissionship a = permissionship_i32 HasPermission"
    by (cases r) (auto simp: check_response_def split: if_splits)
  with r Some header_user_shape [OF Some] show ?thesis by auto
qed

lemma access_only_with_permission_example:
  "\<exists>resp s' user. drive_handler (go_ffi sample_packages (\<lambda>_. False)) False no_span (fixed_codec 2) Some
      live_db ''marketing'' ''doc1'' [''x-user'' \<mapsto> [''alice'']] live_process = Some (resp, s')
    \<and> header_user Some [''x-user'' \<mapsto> [''alice'']] = Some user \<and> user \<noteq> []"
proof -
  have u: "header_user Some [''x-user'' \<mapsto> [''alice'']] = Some ''alice''"
    by (simp add: header_user_def header_get_def trim_def is_ascii_space_def)
  obtain l where l: "lib_call sample_packages (fixed_codec 2) (db_handle live_db) CHECK_PERMISSION
      (current False no_span) (view_request ''alice'' ''doc1'') (lib live_process)
      = (Inr \<lparr>response_permissionship = 2\<rparr>, l)" using live_check by (auto simp: live_db_def)
  have t: "trace_c_ok (current False no_span)" by simp
  from drive_on_go [OF live_process_ok sample_small t u l, of "\<lambda>_. False" "''marketing''"] obtain s' where
    d: "drive_handler (go_ffi sample_packages (\<lambda>_. False)) False no_span (fixed_codec 2) Some live_db
      ''marketing'' ''doc1'' [''x-user'' \<mapsto> [''alice'']] live_process
      = Some (check_response ''alice'' ''marketing'' ''doc1'' (Inr \<lparr>response_permissionship = 2\<rparr>), s')"
    by auto
  from access_only_with_permission [OF live_process_ok sample_small t d] d show ?thesis
    by (auto simp: check_response_def)
qed

text \<open>
  The folder of the path plays no part in the decision: for any two folders the handler answers
  with the same status and leaves the same state.
\<close>

lemma folder_is_not_checked:
  "map_option (map_prod status id) (drive_handler F otel span C to_str db folder1 document_id headers s)
   = map_option (map_prod status id) (drive_handler F otel span C to_str db folder2 document_id headers s)"
proof -
  have "status (check_response u f1 d r) = status (check_response u f2 d r)" for u f1 f2 d r
    by (simp add: check_response_def split: sum.split)
  then show ?thesis
    by (auto simp: drive_handler_def split: option.split)
      (auto simp: bind_eq_Some_conv map_option_case split: option.split)
qed

text \<open>
  \<open>rel\<close> panics exactly on a resource or subject without a colon; otherwise type and id are the
  parts at the first colon, and the seed relationships are well formed.
\<close>

lemma rel_splits_at_first_colon:
  "(rel rt n st = None \<longleftrightarrow> CHR '':'' \<notin> set rt \<or> CHR '':'' \<notin> set st)
   \<and> (\<forall>x. rel rt n st = Some x \<longrightarrow> (\<exists>t i u v. rt = t @ CHR '':'' # i \<and> st = u @ CHR '':'' # v
        \<and> CHR '':'' \<notin> set t \<and> CHR '':'' \<notin> set u \<and> relation x = n
        \<and> resource x = Some \<lparr>object_type = t, object_id = i\<rparr>
        \<and> subject x = Some \<lparr>subject_object = Some \<lparr>object_type = u, object_id = v\<rparr>,
                             optional_relation = []\<rparr>))
   \<and> (\<exists>rs. seed_relationships = Some rs \<and> length rs = 5)"
proof (intro conjI allI impI)
  show "rel rt n st = None \<longleftrightarrow> CHR '':'' \<notin> set rt \<or> CHR '':'' \<notin> set st"
    unfolding split_once_None [symmetric]
    by (cases "split_once (CHR '':'') rt"; cases "split_once (CHR '':'') st")
      (simp_all add: rel_def split: prod.split)
next
  fix x assume x: "rel rt n st = Some x"
  then obtain t i u v where s: "split_once (CHR '':'') rt = Some (t, i)"
    "split_once (CHR '':'') st = Some (u, v)"
    by (auto simp: rel_def bind_eq_Some_conv)
  moreover note s [unfolded split_once_Some]
  ultimately show "\<exists>t i u v. rt = t @ CHR '':'' # i \<and> st = u @ CHR '':'' # v
        \<and> CHR '':'' \<notin> set t \<and> CHR '':'' \<notin> set u \<and> relation x = n
        \<and> resource x = Some \<lparr>object_type = t, object_id = i\<rparr>
        \<and> subject x = Some \<lparr>subject_object = Some \<lparr>object_type = u, object_id = v\<rparr>,
                             optional_relation = []\<rparr>"
    using x s by (auto simp: rel_def)
next
  show "\<exists>rs. seed_relationships = Some rs \<and> length rs = 5"
    by (simp add: seed_relationships_def rel_def)
qed

lemma rel_splits_at_first_colon_example:
  "rel ''document'' ''viewer'' ''user:a:b'' = None
   \<and> (\<exists>x. rel ''document:d'' ''viewer'' ''user:a:b'' = Some x \<and> relation x = ''viewer'')"
  using rel_splits_at_first_colon [of "''document''" "''viewer''" "''user:a:b''"]
    rel_splits_at_first_colon [of "''document:d''" "''viewer''" "''user:a:b''"]
  by auto

end
