(* ===== verification/Policies.thy ===== *)
theory Policies
  imports Behaviour Docs_App
begin

text \<open>
  Stores that hold a schema and relationships, and decide permission checks by them: the server is one
  that \<open>isolates\<close> its instances; how schema and relationships decide a check is the parameter \<open>sem\<close>, the
  meaning of the schema language.  The theory carries that meaning through protobuf, the Go library and
  the C boundary, for the writes of a bootstrap, later writes, and checks.
\<close>

section \<open>Typed calls on the table of stores\<close>

definition table_reply ::
    "('m, 'w) packages \<Rightarrow> ('m, 'w, 'd) service \<Rightarrow> ('q, 'a) codec \<Rightarrow> u64 \<Rightarrow> string \<Rightarrow> 'q \<Rightarrow> (u64 \<rightharpoonup> 'd) \<Rightarrow>
     'a rpc_result \<times> (u64 \<rightharpoonup> 'd)" where
  "table_reply P V C h method q A =
     (if 2 ^ 31 \<le> length (encode C q)
      then (Inl (RpcError ''request too large for FFI (exceeds c_int::MAX)''), A)
      else
        (let (x, A') = store_rpc P V h method None None (encode C q) A
         in (case x of
               Inl e \<Rightarrow> Inl (RpcError (utf8_lossy (c_text e)))
             | Inr bs \<Rightarrow> map_err RpcError (decode C bs), A')))"

text \<open>The same on one store.\<close>

definition reply ::
    "('m, 'w) packages \<Rightarrow> ('m, 'w, 'd) service \<Rightarrow> ('q, 'a) codec \<Rightarrow> string \<Rightarrow> 'q \<Rightarrow> 'd \<Rightarrow> 'a rpc_result \<times> 'd" where
  "reply P V C method q d =
     (let (r, A) = table_reply P V C 0 method q [0 \<mapsto> d] in (r, the (A 0)))"

lemma store_rpc_at:
  "A h = Some d \<Longrightarrow> store_rpc P V h m tp ts req A
    = (fst (store_rpc P V k m tp' ts' req [k \<mapsto> d]),
       A(h \<mapsto> the (snd (store_rpc P V k m tp' ts' req [k \<mapsto> d]) k)))"
  by (auto simp: store_rpc_def Let_def fun_upd_idem split: option.split sum.split prod.split)

lemma table_reply_at:
  assumes "A h = Some d"
  shows "table_reply P V C h m q A = (fst (reply P V C m q d), A(h \<mapsto> snd (reply P V C m q d)))"
  using store_rpc_at [where A = A and h = h, OF assms, of P V m None None "encode C q" 0 None None]
  by (auto simp: reply_def table_reply_def case_prod_beta Let_def fun_upd_idem assms)

lemma lib_call_reply:
  assumes "isolates P V" and "simulates V A l" and "lib_call P C h m tr q l = (r, l')" and "A h = Some d"
  shows "r = fst (reply P V C m q d) \<and> simulates V (A(h \<mapsto> snd (reply P V C m q d))) l'"
proof (cases "2 ^ 31 \<le> length (encode C q)")
  case True
  with assms(3,4) have "table_reply P V C h m q A = (r, A)" "l' = l" by (simp_all add: table_reply_def lib_call_def)
  with table_reply_at [where A = A and h = h, OF assms(4), of P V C m q] assms(2) show ?thesis by simp
next
  case False
  obtain x k where x: "go_rpc P h m (traceparent tr) (tracestate tr) (encode C q) l = (x, k)" by fastforce
  from rpc_simulates [OF assms(1,2) x] obtain A' where
    st: "store_rpc P V h m (traceparent tr) (tracestate tr) (encode C q) A = (x, A')" and sim: "simulates V A' k" by blast
  have "store_rpc P V h m None None (encode C q) A = (x, A')" using st by (simp add: store_rpc_def)
  with False x assms(3) have "table_reply P V C h m q A = (r, A')" "l' = k"
    by (auto simp: table_reply_def lib_call_def)
  with table_reply_at [where A = A and h = h, OF assms(4), of P V C m q] sim show ?thesis by simp
qed

section \<open>The meaning of a store\<close>

type_synonym 'r semantics = "string \<Rightarrow> 'r set \<Rightarrow> check_permission_request \<Rightarrow> permissionship"

text \<open>Touched relationships replace those with the same key.\<close>

definition upsert :: "('r \<Rightarrow> 'k) \<Rightarrow> 'r set \<Rightarrow> 'r set \<Rightarrow> 'r set" where
  "upsert key R N = {r \<in> R. key r \<notin> key ` N} \<union> N"

lemma upsert_empty [simp]: "upsert key {} N = N"
  by (simp add: upsert_def)

definition touched :: "('r, 'p, 'n) write_relationships_request \<Rightarrow> 'r set" where
  "touched q = {r. Some r \<in> relationship ` set (updates q)}"

definition all_touch :: "('r, 'p, 'n) write_relationships_request \<Rightarrow> bool" where
  "all_touch q \<longleftrightarrow> list_all (\<lambda>u. operation u = operation_i32 Touch) (updates q)"

definition fully_consistent :: "check_permission_request \<Rightarrow> bool" where
  "fully_consistent q \<longleftrightarrow> check_consistency q = Some \<lparr>requirement = Some (FullyConsistent True)\<rparr>"

text \<open>
  The documented behaviour: a new store is empty; a schema that is accepted replaces the one before;
  touched relationships that are accepted are created, or overwrite those with the same key; a fully
  consistent check that is answered is decided by the schema and the relationships, and changes nothing.
\<close>

definition authorizes ::
    "('m, 'w) packages \<Rightarrow> ('m, 'w, 'd) service \<Rightarrow> (write_schema_request, 'a) codec \<Rightarrow>
     (('r, 'p, 'n) write_relationships_request, 'b) codec \<Rightarrow>
     (check_permission_request, check_permission_response) codec \<Rightarrow>
     ('r \<Rightarrow> 'k) \<Rightarrow> 'r semantics \<Rightarrow> ('d \<Rightarrow> string \<times> 'r set) \<Rightarrow> bool" where
  "authorizes P V CS CR CC key sem view \<longleftrightarrow>
     view (fresh V) = ([], {})
   \<and> (\<forall>q d a d'. reply P V CS WRITE_SCHEMA q d = (Inr a, d') \<longrightarrow> view d' = (schema_text q, snd (view d)))
   \<and> (\<forall>q d a d'. reply P V CR WRITE_RELATIONSHIPS q d = (Inr a, d') \<and> all_touch q \<longrightarrow>
        view d' = (fst (view d), upsert key (snd (view d)) (touched q)))
   \<and> (\<forall>q d r d'. reply P V CC CHECK_PERMISSION q d = (r, d') \<longrightarrow> view d' = view d)
   \<and> (\<forall>q d a d'. reply P V CC CHECK_PERMISSION q d = (Inr a, d') \<and> fully_consistent q \<longrightarrow>
        response_permissionship a = permissionship_i32 (sem (fst (view d)) (snd (view d)) q))"

text \<open>Relationships without a caveat and an expiration.\<close>

definition plain :: "relationship set \<Rightarrow> bool" where
  "plain R \<longleftrightarrow> (\<forall>r\<in>R. optional_caveat r = None \<and> optional_expires_at r = None)"

lemma authorizesD:
  assumes "authorizes P V CS CR CC key sem view"
  shows "view (fresh V) = ([], {})"
    and "reply P V CS WRITE_SCHEMA q d = (Inr a, d') \<Longrightarrow> view d' = (schema_text q, snd (view d))"
    and "reply P V CR WRITE_RELATIONSHIPS p d = (Inr b, d') \<Longrightarrow> all_touch p \<Longrightarrow>
        view d' = (fst (view d), upsert key (snd (view d)) (touched p))"
    and "view (snd (reply P V CC CHECK_PERMISSION c d)) = view d"
    and "fst (reply P V CC CHECK_PERMISSION c d) = Inr x \<Longrightarrow> fully_consistent c \<Longrightarrow>
        response_permissionship x = permissionship_i32 (sem (fst (view d)) (snd (view d)) c)"
  using assms unfolding authorizes_def by (metis prod.collapse)+

lemma bootstrap_touches: "all_touch (bootstrap_updates rels)" "touched (bootstrap_updates rels) = set rels"
  by (auto simp: bootstrap_updates_def all_touch_def touched_def list_all_iff image_image)

text \<open>The two writes of a bootstrap, as far as they succeed.\<close>

lemma schema_step:
  assumes "isolates P V" and "authorizes P V CS CR CC key sem view" and "simulates V A l" and "A h = Some d"
    and "lib_step (schema \<noteq> []) (lib_call P CS h WRITE_SCHEMA trace_default \<lparr>schema_text = schema\<rparr> l) l
      = (Inr u, l')" and "fst (view d) = []"
  shows "\<exists>d'. simulates V (A(h \<mapsto> d')) l' \<and> view d' = (schema, snd (view d))"
proof (cases "schema = []")
  case True
  with assms have "simulates V (A(h \<mapsto> d)) l'" "view d = (schema, snd (view d))"
    by (auto simp: lib_step_def fun_upd_idem prod_eq_iff)
  then show ?thesis by blast
next
  case False
  obtain r k where r: "lib_call P CS h WRITE_SCHEMA trace_default \<lparr>schema_text = schema\<rparr> l = (r, k)" by fastforce
  obtain x d' where x: "reply P V CS WRITE_SCHEMA \<lparr>schema_text = schema\<rparr> d = (x, d')" by fastforce
  from lib_call_reply [where A = A and h = h, OF assms(1,3) r assms(4)] x have k: "r = x" "simulates V (A(h \<mapsto> d')) k" by simp_all
  from False r assms(5) obtain a where "r = Inr a" "l' = k" by (cases r) (auto simp: lib_step_def)
  with k x authorizesD(2) [OF assms(2)] show ?thesis by fastforce
qed

lemma relationships_step:
  assumes "isolates P V" and "authorizes P V CS CR CC key sem view" and "simulates V A l" and "A h = Some d"
    and "lib_step (rels \<noteq> []) (lib_call P CR h WRITE_RELATIONSHIPS trace_default (bootstrap_updates rels) l) l
      = (Inr u, l')" and none: "snd (view d) = {}"
  shows "\<exists>d'. simulates V (A(h \<mapsto> d')) l' \<and> view d' = (fst (view d), set rels)"
proof (cases "rels = []")
  case True
  with assms have "simulates V (A(h \<mapsto> d)) l'" "view d = (fst (view d), set rels)"
    by (auto simp: lib_step_def fun_upd_idem prod_eq_iff)
  then show ?thesis by blast
next
  case False
  obtain r k where r: "lib_call P CR h WRITE_RELATIONSHIPS trace_default (bootstrap_updates rels) l = (r, k)"
    by fastforce
  obtain x d' where x: "reply P V CR WRITE_RELATIONSHIPS (bootstrap_updates rels) d = (x, d')" by fastforce
  from lib_call_reply [where A = A and h = h, OF assms(1,3) r assms(4)] x have k: "r = x" "simulates V (A(h \<mapsto> d')) k" by simp_all
  from False r assms(5) obtain a where a: "r = Inr a" "l' = k" by (cases r) (auto simp: lib_step_def)
  from authorizesD(3) [OF assms(2) _ bootstrap_touches(1)] x k(1) a(1) k(2) a(2) none show ?thesis
    by (auto simp: bootstrap_touches(2))
qed

lemma default_options_in_process:
  "options_valid (unwrap_or None default_options)" "in_process (unwrap_or None default_options)"
  using default_valid by (simp_all add: in_process_def go_options_of_def default_options_def go_engine_def
    remote_engine_def)

text \<open>The handle of an instance that has been bootstrapped.\<close>

lemma bootstrapped_ids:
  assumes "serde_ok S" and "small_responses P" and ok: "process_ok s"
    and "options_valid (unwrap_or options default_options)"
    and run: "start_with_schema (go_ffi P esc) S CS CR schema rels options s = Some (Inr db, s1)"
  shows "db_handle db = next_id (lib s) + 1 \<and> next_id (lib s1) = next_id (lib s) + 1"
proof -
  obtain r0 s0 where st: "start (go_ffi P esc) S options s = Some (r0, s0)" and b: "balanced s s0"
    and ok0: "process_ok s0" and res: "start_result P r0 (lib s) (lib s0)"
    by (rule start_outcome [OF ok assms(1,4), of P esc])
  with run obtain db0 where r0: "r0 = Inr db0" by (cases r0) (auto simp: start_with_schema_def)
  obtain r l s2 where spec: "bootstrap_spec P CS CR schema rels db0 (lib s0) = Some (r, l)"
    and run2: "start_with_schema (go_ffi P esc) S CS CR schema rels options s = Some (r, s2)"
    and l: "lib s2 = l"
    by (rule start_with_schema_on_go [OF st [unfolded r0] b ok0 assms(2), of CS CR schema rels])
  have step: "next_id (snd (lib_step needed (lib_call P C h m tr q k) k)) = next_id k"
    for needed and C :: "('x, 'y) codec" and h m tr q k
    using lib_call_frame(2) [of P C h m tr q k] by (cases "lib_call P C h m tr q k") (auto simp: lib_step_def)
  from run run2 have r: "r = Inr db" and s2: "s2 = s1" by simp_all
  obtain x1 l1 where x1: "lib_step (schema \<noteq> []) (lib_call P CS (db_handle db0) WRITE_SCHEMA trace_default
      \<lparr>schema_text = schema\<rparr> (lib s0)) (lib s0) = (x1, l1)" by fastforce
  obtain x2 l2 where x2: "lib_step (rels \<noteq> []) (lib_call P CR (db_handle db0) WRITE_RELATIONSHIPS trace_default
      (bootstrap_updates rels) l1) l1 = (x2, l2)" by fastforce
  from step x1 have "next_id l1 = next_id (lib s0)" by (metis snd_conv)
  moreover from step x2 have "next_id l2 = next_id l1" by (metis snd_conv)
  moreover from spec r have "db0 = db" "l2 = l"
    by (auto simp: bootstrap_spec_def Let_def x1 x2 split: sum.splits)
  ultimately show ?thesis using res r0 s2 l by (simp add: start_result_def)
qed

lemma bootstrapped_store:
  assumes "isolates P V" and "authorizes P V CS CR CC key sem view" and "serde_ok S" and "small_responses P"
    and ok: "process_ok s" and h: "handles_ok (lib s)" and id_left: "next_id (lib s) \<noteq> - 1"
    and sim: "simulates V A (lib s)" and opts: "in_process (unwrap_or options default_options)"
    and run: "start_with_schema (go_ffi P esc) S CS CR schema rels options s = Some (Inr db, s1)"
  shows "\<exists>d. simulates V (A(db_handle db \<mapsto> d)) (lib s1) \<and> view d = (schema, set rels)
    \<and> A (db_handle db) = None \<and> process_ok s1"
proof -
  from opts have v: "options_valid (unwrap_or options default_options)" by (simp add: in_process_def)
  obtain r0 s0 where st: "start (go_ffi P esc) S options s = Some (r0, s0)" and b: "balanced s s0"
    and ok0: "process_ok s0" by (rule start_outcome [OF ok assms(3) v, of P esc])
  with run obtain db0 where r0: "r0 = Inr db0" by (cases r0) (auto simp: start_with_schema_def)
  note st = st [unfolded r0]
  from start_obeys [OF assms(1,3) ok h sim st opts id_left]
  have new: "A (db_handle db0) = None" and sim0: "simulates V (A(db_handle db0 \<mapsto> fresh V)) (lib s0)" by simp_all
  obtain r l s2 where spec: "bootstrap_spec P CS CR schema rels db0 (lib s0) = Some (r, l)"
    and run2: "start_with_schema (go_ffi P esc) S CS CR schema rels options s = Some (r, s2)"
    and ok2: "process_ok s2" and l: "lib s2 = l"
    by (rule start_with_schema_on_go [OF st b ok0 assms(4), of CS CR schema rels])
  from run run2 have r: "r = Inr db" and s2: "s2 = s1" by simp_all
  obtain x1 l1 where x1: "lib_step (schema \<noteq> []) (lib_call P CS (db_handle db0) WRITE_SCHEMA trace_default
      \<lparr>schema_text = schema\<rparr> (lib s0)) (lib s0) = (x1, l1)" by fastforce
  obtain x2 l2 where x2: "lib_step (rels \<noteq> []) (lib_call P CR (db_handle db0) WRITE_RELATIONSHIPS trace_default
      (bootstrap_updates rels) l1) l1 = (x2, l2)" by fastforce
  from spec r have x: "x1 = Inr ()" "x2 = Inr ()" and db: "db0 = db" and l2: "l2 = l"
    by (auto simp: bootstrap_spec_def Let_def x1 x2 split: sum.splits)
  have "fst (view (fresh V)) = []" "snd (view (fresh V)) = {}" using authorizesD(1) [OF assms(2)] by simp_all
  with schema_step [OF assms(1,2) sim0 _ x1 [unfolded x(1)]]
  obtain d1 where d1: "simulates V (A(db_handle db \<mapsto> d1)) l1" "view d1 = (schema, {})"
    by (auto simp: db)
  from relationships_step [OF assms(1,2) d1(1) _ x2 [unfolded x(2) db], of d1] d1(2)
  obtain d2 where "simulates V (A(db_handle db \<mapsto> d2)) l2" "view d2 = (schema, set rels)" by auto
  with new ok2 l l2 s2 show ?thesis by (auto simp: db)
qed

text \<open>A later write, and a check.\<close>

lemma write_on_store:
  assumes "isolates P V" and "authorizes P V CS CR CC key sem view" and "simulates V A l" and "A h = Some d"
    and "lib_call P CR h WRITE_RELATIONSHIPS tr q l = (r, l')"
  shows "\<exists>d'. simulates V (A(h \<mapsto> d')) l' \<and> (\<forall>a. r = Inr a \<and> all_touch q \<longrightarrow>
    view d' = (fst (view d), upsert key (snd (view d)) (touched q)))"
  using lib_call_reply [where A = A and h = h, OF assms(1,3,5,4)] authorizesD(3) [OF assms(2)]
  by (metis prod.collapse)

lemma check_on_store:
  assumes "isolates P V" and "authorizes P V CS CR CC key sem view" and "simulates V A l" and "A h = Some d"
    and "lib_call P CC h CHECK_PERMISSION tr q l = (r, l')"
  shows "\<exists>d'. simulates V (A(h \<mapsto> d')) l' \<and> view d' = view d \<and> (\<forall>a. r = Inr a \<and> fully_consistent q \<longrightarrow>
    response_permissionship a = permissionship_i32 (sem (fst (view d)) (snd (view d)) q))"
  using lib_call_reply [where A = A and h = h, OF assms(1,3,5,4)] authorizesD(4,5) [OF assms(2)] by metis

text \<open>A bootstrap goes through if its two writes do.\<close>

definition replies_to ::
    "('m, 'w) packages \<Rightarrow> ('m, 'w, 'd) service \<Rightarrow> ('q, 'a) codec \<Rightarrow> string \<Rightarrow> 'q \<Rightarrow> bool" where
  "replies_to P V C m q \<longleftrightarrow> (\<forall>d. \<exists>a d'. reply P V C m q d = (Inr a, d'))"

lemma call_replied:
  assumes "isolates P V" and "simulates V A l" and "A h = Some d"
    and "lib_call P C h m tr q l = (r, l')" and "replies_to P V C m q"
  shows "\<exists>a. r = Inr a"
proof -
  from assms(5) obtain a d' where "reply P V C m q d = (Inr a, d')" unfolding replies_to_def by blast
  with lib_call_reply [where A = A and h = h, OF assms(1,2,4,3)] show ?thesis by simp
qed

lemma step_accepted:
  assumes "isolates P V" and "simulates V A l" and "A h = Some d" and "needed \<Longrightarrow> replies_to P V C m q"
    and "lib_step needed (lib_call P C h m tr q l) l = (x, l')"
  shows "x = Inr () \<and> (\<exists>d'. simulates V (A(h \<mapsto> d')) l')"
proof (cases needed)
  case True
  obtain r k where r: "lib_call P C h m tr q l = (r, k)" by fastforce
  with call_replied [where A = A and h = h, OF assms(1-3) r assms(4) [OF True]]
    lib_call_reply [where A = A and h = h, OF assms(1,2) r assms(3)] True assms(5)
  show ?thesis by (auto simp: lib_step_def)
next
  case False
  with assms(2,3,5) have "x = Inr ()" "simulates V (A(h \<mapsto> d)) l'" by (auto simp: lib_step_def fun_upd_idem)
  then show ?thesis by blast
qed

lemma bootstrap_goes_through:
  assumes "isolates P V" and "serde_ok S" and "small_responses P"
    and ok: "process_ok s" and h: "handles_ok (lib s)" and id_left: "next_id (lib s) \<noteq> - 1"
    and sim: "simulates V A (lib s)"
    and st: "start (go_ffi P esc) S None s = Some (Inr db, s0)"
    and schema: "schema \<noteq> [] \<Longrightarrow> replies_to P V CS WRITE_SCHEMA \<lparr>schema_text = schema\<rparr>"
    and rels: "rels \<noteq> [] \<Longrightarrow> replies_to P V CR WRITE_RELATIONSHIPS (bootstrap_updates rels)"
  shows "\<exists>s1. start_with_schema (go_ffi P esc) S CS CR schema rels None s = Some (Inr db, s1)"
proof -
  obtain r0 s9 where "start (go_ffi P esc) S None s = Some (r0, s9)" "balanced s s9" "process_ok s9"
    by (rule start_outcome [OF ok assms(2) default_options_in_process(1), of P esc])
  with st have s0: "balanced s s0" "process_ok s0" by simp_all
  obtain r l s2 where spec: "bootstrap_spec P CS CR schema rels db (lib s0) = Some (r, l)"
    and run: "start_with_schema (go_ffi P esc) S CS CR schema rels None s = Some (r, s2)"
    by (rule start_with_schema_on_go [OF st s0 assms(3), of CS CR schema rels])
  from start_obeys [OF assms(1,2) ok h sim st default_options_in_process(2) id_left]
  have sim0: "simulates V (A(db_handle db \<mapsto> fresh V)) (lib s0)" by simp
  obtain x1 l1 where x1: "lib_step (schema \<noteq> []) (lib_call P CS (db_handle db) WRITE_SCHEMA trace_default
      \<lparr>schema_text = schema\<rparr> (lib s0)) (lib s0) = (x1, l1)" by fastforce
  obtain x2 l2 where x2: "lib_step (rels \<noteq> []) (lib_call P CR (db_handle db) WRITE_RELATIONSHIPS trace_default
      (bootstrap_updates rels) l1) l1 = (x2, l2)" by fastforce
  from step_accepted [OF assms(1) sim0 _ schema x1, of "fresh V"] obtain d where
    y: "x1 = Inr ()" "simulates V (A(db_handle db \<mapsto> d)) l1" by auto
  from step_accepted [OF assms(1) y(2) _ rels x2, of d] have "x2 = Inr ()" by auto
  with spec x1 x2 y(1) have "r = Inr db" by (simp add: bootstrap_spec_def)
  with run show ?thesis by blast
qed

section \<open>A server for the examples\<close>

text \<open>
  It knows some writes and some checks, which travel as their place in the list, and decides the checks
  by a given meaning.
\<close>

definition place :: "'q list \<Rightarrow> 'q \<Rightarrow> bytes" where
  "place xs q = replicate (length (takeWhile (\<lambda>x. x \<noteq> q) xs)) 0"

definition at_place :: "'q list \<Rightarrow> bytes \<Rightarrow> 'q option" where
  "at_place xs bs = (if length bs < length xs then Some (xs ! length bs) else None)"

lemma at_place_place: "at_place xs (place xs q) = (if q \<in> set xs then Some q else None)"
proof (cases "q \<in> set xs")
  case True
  then have l: "length (takeWhile (\<lambda>x. x \<noteq> q) xs) < length xs"
    by (induction xs) auto
  from nth_length_takeWhile [OF this] l True show ?thesis by (simp add: at_place_def place_def)
next
  case False
  then have "takeWhile (\<lambda>x. x \<noteq> q) xs = xs" by (auto simp: takeWhile_eq_all_conv)
  then have "length (takeWhile (\<lambda>x. x \<noteq> q) xs) = length xs" by (rule arg_cong)
  with False show ?thesis by (simp add: at_place_def place_def)
qed

lemma place_short: "length xs < 2 ^ 31 \<Longrightarrow> \<not> 2 ^ 31 \<le> length (place xs q)"
  using length_takeWhile_le [of "\<lambda>x. x \<noteq> q" xs] by (simp add: place_def)

definition policy_answer ::
    "('r \<Rightarrow> 'k) \<Rightarrow> 'r semantics \<Rightarrow> ('r, unit, unit) write_relationships_request list \<Rightarrow>
     check_permission_request list \<Rightarrow> (string \<times> 'r set) answering" where
  "policy_answer key sem ws cs method q d =
     (if method = WRITE_SCHEMA then (Inr [], (map (\<lambda>b. char_of (unat b)) q, snd d))
      else if method = WRITE_RELATIONSHIPS then
        (case at_place ws q of
           None \<Rightarrow> (Inl ''invalid relationships'', d)
         | Some u \<Rightarrow> (Inr [], (fst d, upsert key (snd d) (touched u))))
      else if method = CHECK_PERMISSION then
        (case at_place cs q of
           None \<Rightarrow> (Inl ''unknown permission'', d)
         | Some c \<Rightarrow> (Inr [ucast (permissionship_i32 (sem (fst d) (snd d) c))], d))
      else if method = READ_SCHEMA then (Inr (to_bytes (fst d)), d)
      else (Inl ''unimplemented'', d))"

abbreviation policy_packages where
  "policy_packages key sem ws cs \<equiv> store_packages ([], {}) (policy_answer key sem ws cs)"

abbreviation policy_service where
  "policy_service key sem ws cs \<equiv> store_service ([], {}) (policy_answer key sem ws cs)"

definition policy_schema_codec :: "(write_schema_request, bytes) codec" where
  "policy_schema_codec = bytes_codec (\<lambda>q. to_bytes (schema_text q))"

definition policy_updates_codec where
  "policy_updates_codec ws = (bytes_codec (place ws) :: (('r, unit, unit) write_relationships_request, bytes) codec)"

definition policy_check_codec :: "check_permission_request list \<Rightarrow> (check_permission_request, check_permission_response) codec" where
  "policy_check_codec cs = \<lparr>encode = place cs,
     decode = (\<lambda>bs. Inr \<lparr>response_permissionship = (case bs of [] \<Rightarrow> 0 | b # _ \<Rightarrow> ucast b)\<rparr>)\<rparr>"

lemma of_to_bytes: "map (\<lambda>b. char_of (unat b)) (to_bytes t) = t"
proof -
  have "unat (of_char c :: u8) = of_char c" for c
  proof -
    have "unat (of_nat (of_char c) :: u8) = of_char c"
      using String.nat_of_char_less_256 [of c] by (simp add: unat_of_nat)
    then show ?thesis by (simp only: String.comm_semiring_1_class.of_nat_of_char)
  qed
  then show ?thesis by (induction t) (simp_all add: to_bytes_def)
qed

lemma policy_methods:
  "map_of rpc_messages WRITE_SCHEMA = Some (''WriteSchemaRequest'', ''WriteSchemaResponse'')"
  "map_of rpc_messages WRITE_RELATIONSHIPS = Some (''WriteRelationshipsRequest'', ''WriteRelationshipsResponse'')"
  "map_of rpc_messages CHECK_PERMISSION = Some (''CheckPermissionRequest'', ''CheckPermissionResponse'')"
  "c_text WRITE_SCHEMA = WRITE_SCHEMA" "c_text WRITE_RELATIONSHIPS = WRITE_RELATIONSHIPS"
  "c_text CHECK_PERMISSION = CHECK_PERMISSION"
  "WRITE_RELATIONSHIPS \<noteq> WRITE_SCHEMA" "CHECK_PERMISSION \<noteq> WRITE_SCHEMA" "CHECK_PERMISSION \<noteq> WRITE_RELATIONSHIPS"
  by (simp_all add: method_defs rpc_messages_def full_method_name_def c_text_def)

lemma policy_replies:
  assumes "length ws < 2 ^ 31" and "length cs < 2 ^ 31"
  shows "reply (policy_packages key sem ws cs) (policy_service key sem ws cs) policy_schema_codec WRITE_SCHEMA q d
    = (if 2 ^ 31 \<le> length (to_bytes (schema_text q))
       then (Inl (RpcError ''request too large for FFI (exceeds c_int::MAX)''), d)
       else (Inr [], (schema_text q, snd d)))" (is ?schema)
    and "reply (policy_packages key sem ws cs) (policy_service key sem ws cs) (policy_updates_codec ws)
      WRITE_RELATIONSHIPS u d
    = (if u \<in> set ws then (Inr [], (fst d, upsert key (snd d) (touched u)))
       else (Inl (RpcError ''invalid relationships''), d))" (is ?updates)
    and "reply (policy_packages key sem ws cs) (policy_service key sem ws cs) (policy_check_codec cs)
      CHECK_PERMISSION c d
    = (if c \<in> set cs then (Inr \<lparr>response_permissionship = permissionship_i32 (sem (fst d) (snd d) c)\<rparr>, d)
       else (Inl (RpcError ''unknown permission''), d))" (is ?check)
proof -
  have packages: "unmarshal (policy_packages key sem ws cs) ty bs = Inr bs"
    "marshal (policy_packages key sem ws cs) m = (if length m < 2 ^ 31 then Inr m else Inl ''message too large'')"
    "answer (policy_service key sem ws cs) = policy_answer key sem ws cs" for ty bs m
    by (simp_all add: store_packages_def store_service_def)
  have crosses: "utf8_lossy (c_text ''invalid relationships'') = ''invalid relationships''"
    "utf8_lossy (c_text ''unknown permission'') = ''unknown permission''" by code_simp+
  have byte: "ucast (ucast (permissionship_i32 p) :: u8) = permissionship_i32 p" for p by (cases p) simp_all
  note defs = reply_def table_reply_def store_rpc_def policy_methods packages policy_answer_def bytes_codec_def
    of_to_bytes at_place_place Let_def
  show ?schema by (simp add: defs policy_schema_codec_def)
  show ?updates using place_short [OF assms(1), of u] by (simp add: defs policy_updates_codec_def crosses)
  show ?check using place_short [OF assms(2), of c] by (simp add: defs policy_check_codec_def crosses byte)
qed

lemma policy_authorizes:
  assumes "length ws < 2 ^ 31" and "length cs < 2 ^ 31"
  shows "authorizes (policy_packages key sem ws cs) (policy_service key sem ws cs) policy_schema_codec
    (policy_updates_codec ws) (policy_check_codec cs) key sem id"
proof -
  have "fresh (policy_service key sem ws cs) = ([], {})" by (simp add: store_service_def)
  then show ?thesis
    unfolding authorizes_def policy_replies [OF assms] by (auto split: if_splits)
qed

text \<open>A process before the first start.\<close>

abbreviation policy_start :: "(string \<times> 'r set) store_world golib process" where
  "policy_start \<equiv> proc store_app"

lemma policy_start_ok: "process_ok policy_start" "handles_ok (lib policy_start)" "next_id (lib policy_start) \<noteq> - 1"
    "simulates (policy_service key sem ws cs) Map.empty (lib policy_start)"
  by (simp_all add: store_app_def store_lib_def process_ok_def golib_ok_def heap_ok_def handles_ok_def
    simulates_def store_service_def)

end
