(* ===== verification/Docs_Main.thy ===== *)
theory Docs_Main
  imports Docs_App
begin

text \<open>
  The program of the Google Docs example, \<open>main.rs\<close>: it creates the app with the seed relationships,
  binds its port and serves until the server ends.  The instance lives as long as the app and the
  handle \<open>main\<close> keeps: it is dropped on every way out of the block that owns it.  The tokio runtime, the
  listener and axum are what they give: errors, the requests in the order their handlers run, and how
  serving ends.
\<close>

section \<open>Serving\<close>

record http_request =
  path_folder :: string
  path_document :: string
  request_headers :: header_map
  request_span :: span_context

type_synonym 'l handler = "http_request \<Rightarrow> 'l process \<Rightarrow> (http_response \<times> 'l process) option"

text \<open>The route \<open>/drive/{folder}/{document_id}\<close> of the app with its state.\<close>

definition drive_route ::
    "'l ffi \<Rightarrow> bool \<Rightarrow> (check_permission_request, check_permission_response) codec \<Rightarrow>
     (string \<Rightarrow> string option) \<Rightarrow> embedded \<Rightarrow> 'l handler" where
  "drive_route F otel C to_str db q =
     drive_handler F otel (request_span q) C to_str db (path_folder q) (path_document q) (request_headers q)"

fun serve_requests :: "'l handler \<Rightarrow> http_request list \<Rightarrow> 'l process \<Rightarrow> (http_response list \<times> 'l process) option" where
  "serve_requests handle [] s = Some ([], s)"
| "serve_requests handle (q # qs) s = do {
     (a, s1) \<leftarrow> handle q s;
     (as, s2) \<leftarrow> serve_requests handle qs s1;
     Some (a # as, s2) }"

section \<open>The program\<close>

record net =
  new_runtime :: "string + unit"
  bind_listener :: "string \<Rightarrow> string + unit"
  arriving :: "http_request list"
  serve_end :: "string + unit"

text \<open>The result of \<open>main\<close> and the responses given; the two lines printed on the way are left out.\<close>

definition docs_main where
  "docs_main F S CS CR C otel to_str N s =
     (case new_runtime N of
        Inl e \<Rightarrow> Some (Inl e, [], s)
      | Inr _ \<Rightarrow> do {
          (r, s1) \<leftarrow> create_app F S CS CR None s;
          case r of
            Inl e \<Rightarrow> Some (Inl (error_text e), [], s1)
          | Inr db \<Rightarrow>
              (case bind_listener N ''0.0.0.0:3000'' of
                 Inl e \<Rightarrow> do { s2 \<leftarrow> drop_db F db s1; Some (Inl e, [], s2) }
               | Inr _ \<Rightarrow> do {
                   (as, s2) \<leftarrow> serve_requests (drive_route F otel C to_str db) (arriving N) s1;
                   s3 \<leftarrow> drop_db F db s2;
                   Some (serve_end N, as, s3) }) })"

section \<open>Lemmas\<close>

lemma handler_frame:
  assumes "process_ok s" and "small_responses P" and "trace_c_ok (current otel span)"
  obtains a s' where "drive_handler (go_ffi P esc) otel span C to_str db f d headers s = Some (a, s')"
    and "balanced s s'" and "process_ok s'" and "instances (lib s') = instances (lib s)"
    and "status a \<in> {200, 401, 403, 500}"
proof (cases "header_user to_str headers")
  case None
  with that [OF _ balanced_refl] assms(1) show thesis by (auto simp: drive_handler_def process_ok_def)
next
  case (Some user)
  obtain r l where r: "lib_call P C (db_handle db) CHECK_PERMISSION (current otel span)
      (view_request user d) (lib s) = (r, l)" by fastforce
  from drive_on_go [OF assms Some r, of esc f] obtain s' where
    "drive_handler (go_ffi P esc) otel span C to_str db f d headers s
      = Some (check_response user f d (map_err db_err r), s')"
    "balanced s s'" "process_ok s'" "lib s' = l" by blast
  with that lib_call_frame(1) [OF r] show thesis by (auto simp: check_response_def split: sum.splits)
qed

lemma serve_frame:
  assumes "process_ok s" and "small_responses P"
    and "list_all (\<lambda>q. trace_c_ok (current otel (request_span q))) qs"
  shows "\<exists>as s'. serve_requests (drive_route (go_ffi P esc) otel C to_str db) qs s = Some (as, s')
    \<and> balanced s s' \<and> process_ok s' \<and> instances (lib s') = instances (lib s)
    \<and> length as = length qs \<and> list_all (\<lambda>a. status a \<in> {200, 401, 403, 500}) as"
  using assms(1,3)
proof (induction qs arbitrary: s)
  case Nil
  then show ?case by (auto simp: process_ok_def)
next
  case (Cons q qs)
  from Cons.prems have t: "trace_c_ok (current otel (request_span q))" by simp
  obtain a s1 where h: "drive_handler (go_ffi P esc) otel (request_span q) C to_str db (path_folder q)
      (path_document q) (request_headers q) s = Some (a, s1)"
    and s1: "balanced s s1" "process_ok s1" "instances (lib s1) = instances (lib s)"
    and a: "status a \<in> {200, 401, 403, 500}"
    by (rule handler_frame [OF Cons.prems(1) assms(2) t])
  from Cons.IH [OF s1(2)] Cons.prems(2) obtain as s2 where
    "serve_requests (drive_route (go_ffi P esc) otel C to_str db) qs s1 = Some (as, s2)"
    "balanced s1 s2" "process_ok s2" "instances (lib s2) = instances (lib s1)"
    "length as = length qs" "list_all (\<lambda>a. status a \<in> {200, 401, 403, 500}) as" by auto
  moreover from h have "drive_route (go_ffi P esc) otel C to_str db q s = Some (a, s1)"
    by (simp add: drive_route_def)
  ultimately show ?case
    using s1 a balanced_trans [OF s1(1)] by (intro exI [of _ "a # as"] exI [of _ s2]) simp
qed

text \<open>A program that gave a response has served, on the instance \<open>create_app\<close> made.\<close>

lemma docs_main_served:
  assumes "docs_main F S CS CR C otel to_str N s = Some (r, as, s')" and "as \<noteq> []"
  obtains db s1 s2 where "create_app F S CS CR None s = Some (Inr db, s1)"
    and "serve_requests (drive_route F otel C to_str db) (arriving N) s1 = Some (as, s2)"
proof -
  from assms obtain u where u: "new_runtime N = Inr u" by (cases "new_runtime N") (auto simp: docs_main_def)
  with assms obtain q s1 where c: "create_app F S CS CR None s = Some (q, s1)"
    by (cases "create_app F S CS CR None s") (auto simp: docs_main_def)
  with assms u obtain db where q: "q = Inr db" by (cases q) (auto simp: docs_main_def)
  with assms c obtain s2 where
    "serve_requests (drive_route F otel C to_str db) (arriving N) s1 = Some (as, s2)"
    using u q by (cases "bind_listener N ''0.0.0.0:3000''") (auto simp: docs_main_def bind_eq_Some_conv)
  with c q that show thesis by blast
qed

text \<open>Once its server is bound, the program ends as its server does.\<close>

lemma docs_main_ends:
  assumes "new_runtime N = Inr u" and "create_app F S CS CR None s = Some (Inr db, s1)"
    and "bind_listener N ''0.0.0.0:3000'' = Inr w"
    and "docs_main F S CS CR C otel to_str N s = Some (r, as, s')"
  shows "r = serve_end N"
  using assms by (auto simp: docs_main_def bind_eq_Some_conv)

lemma seeds: "\<exists>rs. seed_relationships = Some rs"
  using rel_parts [of "''document''" "''folder''"] rel_parts [of "''folder''" "''folder''"]
  by (simp add: seed_relationships_def rel_def)

text \<open>How the program ends on every path.\<close>

lemma docs_main_outcome:
  assumes "process_ok s" and "serde_ok S" and "small_responses P"
    and "handles_ok (lib s)" and "next_id (lib s) \<noteq> - 1"
    and "list_all (\<lambda>q. trace_c_ok (current otel (request_span q))) (arriving N)"
  shows "\<exists>r as s'. docs_main (go_ffi P esc) S CS CR C otel to_str N s = Some (r, as, s')
    \<and> balanced s s' \<and> instances (lib s') = instances (lib s)
    \<and> list_all (\<lambda>a. status a \<in> {200, 401, 403, 500}) as
    \<and> (length as = length (arriving N) \<and> r = serve_end N \<or> as = [] \<and> (\<exists>e. r = Inl e))"
proof (cases "new_runtime N")
  case (Inl e)
  with assms(1) show ?thesis by (auto simp: docs_main_def process_ok_def)
next
  case rt: (Inr u)
  have v: "options_valid (unwrap_or None default_options)" by (simp add: default_valid)
  from seeds obtain rs where rs: "seed_relationships = Some rs" by blast
  obtain r s1 where "start_with_schema (go_ffi P esc) S CS CR DRIVE_SCHEMA rs None s = Some (r, s1)"
    and s1: "balanced s s1" "process_ok s1"
    and i: "case r of Inl e \<Rightarrow> instances (lib s1) = instances (lib s)
      | Inr db \<Rightarrow> db_handle db \<notin> dom (instances (lib s))
          \<and> (\<exists>i. instances (lib s1) = (instances (lib s))(db_handle db \<mapsto> i))"
    by (rule start_with_schema_outcome [OF assms(1,2) v assms(3-5), of esc CS CR DRIVE_SCHEMA rs])
  with rs have c: "create_app (go_ffi P esc) S CS CR None s = Some (r, s1)" by (simp only: create_app_def option.case rs)
  show ?thesis
  proof (cases r)
    case (Inl e)
    with rt c s1 i show ?thesis by (simp add: docs_main_def)
  next
    case (Inr db)
    have gone: "(instances (lib s1))(db_handle db := None) = instances (lib s)"
      using i Inr by (auto simp: fun_upd_idem domIff)
    show ?thesis
    proof (cases "bind_listener N ''0.0.0.0:3000''")
      case (Inl e)
      obtain s2 where "drop_db (go_ffi P esc) db s1 = Some s2" "balanced s1 s2"
        "instances (lib s2) = (instances (lib s1))(db_handle db := None)"
        by (rule drop_outcome [OF s1(2), of P esc db])
      with rt c Inr Inl balanced_trans [OF s1(1)] gone show ?thesis by (simp add: docs_main_def)
    next
      case bound: (Inr w)
      from serve_frame [OF s1(2) assms(3,6), of esc C to_str db] obtain as s2 where
        sv: "serve_requests (drive_route (go_ffi P esc) otel C to_str db) (arriving N) s1 = Some (as, s2)"
        and s2: "balanced s1 s2" "process_ok s2" "instances (lib s2) = instances (lib s1)"
        and as: "length as = length (arriving N)" "list_all (\<lambda>a. status a \<in> {200, 401, 403, 500}) as"
        by blast
      obtain s3 where d: "drop_db (go_ffi P esc) db s2 = Some s3" "balanced s2 s3"
        "instances (lib s3) = (instances (lib s2))(db_handle db := None)"
        by (rule drop_outcome [OF s2(2), of P esc db])
      have "balanced s s3" using s1(1) s2(1) d(2) by (blast intro: balanced_trans)
      moreover have "instances (lib s3) = instances (lib s)" using d(3) s2(3) gone by simp
      ultimately show ?thesis using rt c Inr bound sv d(1) as by (simp add: docs_main_def)
    qed
  qed
qed

section \<open>Properties\<close>

text \<open>
  C36: the example program cleans up on every way out: whether the runtime, the start, the schema, the
  port or the server fails, or serving ends, it returns with the instances and the heap of before, and
  each request that was served got one of the four answers of the handler.
\<close>

theorem docs_main_leaves_nothing:
  assumes "process_ok s" and "serde_ok S" and "small_responses P"
    and "handles_ok (lib s)" and "next_id (lib s) \<noteq> - 1"
    and "list_all (\<lambda>q. trace_c_ok (current otel (request_span q))) (arriving N)"
  shows "\<exists>r as s'. docs_main (go_ffi P esc) S CS CR C otel to_str N s = Some (r, as, s')
    \<and> balanced s s' \<and> instances (lib s') = instances (lib s)
    \<and> list_all (\<lambda>a. status a \<in> {200, 401, 403, 500}) as
    \<and> (length as = length (arriving N) \<and> r = serve_end N \<or> as = [] \<and> (\<exists>e. r = Inl e))"
  by (rule docs_main_outcome [OF assms])

text \<open>Two visitors, one without a name, and a server that is then shut down.\<close>

definition two_visits :: net where
  "two_visits =
     \<lparr>new_runtime = Inr (), bind_listener = (\<lambda>_. Inr ()),
      arriving = [\<lparr>path_folder = ''marketing'', path_document = ''doc1'',
                   request_headers = [''x-user'' \<mapsto> [''alice'']], request_span = no_span\<rparr>,
                  \<lparr>path_folder = ''marketing'', path_document = ''doc1'',
                   request_headers = Map.empty, request_span = no_span\<rparr>],
      serve_end = Inr ()\<rparr>"

theorem docs_main_leaves_nothing_witness:
  "\<exists>r as s'. docs_main (go_ffi sample_packages (\<lambda>_. False)) rfc_serde sample_schema_codec
      (bytes_codec (\<lambda>_. [])) (fixed_codec 2) False Some two_visits empty_process = Some (r, as, s')
    \<and> instances (lib s') = Map.empty"
proof -
  have h: "handles_ok (lib empty_process)" "next_id (lib empty_process) \<noteq> - 1"
    by (simp_all add: empty_process_parts empty_handles_ok)
  have t: "list_all (\<lambda>q. trace_c_ok (current False (request_span q))) (arriving two_visits)"
    by (simp add: two_visits_def)
  from docs_main_leaves_nothing [OF empty_process_ok rfc_serde_ok sample_small h t, of "\<lambda>_. False"
      sample_schema_codec "bytes_codec (\<lambda>_. [])" "fixed_codec 2" Some]
  show ?thesis by (auto simp: empty_process_parts empty_lib_ok)
qed

end
