(* ===== verification/Drive_Schema.thy ===== *)
theory Drive_Schema
  imports Policies Docs_Main
begin

text \<open>
  What \<open>DRIVE_SCHEMA\<close> means: who may view a document is decided by the viewers of the document, of its
  folder and of the folders above.  The theory carries that meaning to the answers of the example's web
  server.
\<close>

section \<open>The permission \<open>view\<close>\<close>

definition related :: "relationship set \<Rightarrow> string \<Rightarrow> string \<Rightarrow> string \<Rightarrow> string \<Rightarrow> string \<Rightarrow> bool" where
  "related R ty x name ty' y \<longleftrightarrow> (\<exists>r\<in>R. resource r = Some \<lparr>object_type = ty, object_id = x\<rparr>
     \<and> relation r = name \<and> subject r = Some \<lparr>subject_object = Some \<lparr>object_type = ty', object_id = y\<rparr>,
         optional_relation = []\<rparr>)"

text \<open>
  Both permissions of the schema: \<open>view\<close> is \<open>viewer + parent->view\<close> of a folder and
  \<open>viewer + folder->view\<close> of a document, \<open>edit\<close> the same for \<open>editor\<close>.
\<close>

inductive permits :: "relationship set \<Rightarrow> string \<Rightarrow> string \<Rightarrow> string \<Rightarrow> string \<Rightarrow> bool" for R role user where
  direct: "permits R role user ty x" if "related R ty x role ''user'' user" and "ty \<in> {''folder'', ''document''}"
| above: "permits R role user ''folder'' x"
    if "related R ''folder'' x ''parent'' ''folder'' y" and "permits R role user ''folder'' y"
| inside: "permits R role user ''document'' x"
    if "related R ''document'' x ''folder'' ''folder'' y" and "permits R role user ''folder'' y"

abbreviation sees :: "relationship set \<Rightarrow> string \<Rightarrow> string \<Rightarrow> string \<Rightarrow> bool" where
  "sees R \<equiv> permits R ''viewer''"

lemma nobody_permitted:
  assumes "\<And>r. r \<in> R \<Longrightarrow> relation r \<noteq> role"
  shows "\<not> permits R role user ty x"
proof
  assume "permits R role user ty x"
  then show False
  proof induction
    case (direct ty x)
    with assms show ?case unfolding related_def by blast
  qed
qed

text \<open>More relationships never take a permission away.\<close>

lemma related_mono: "related R ty x name ty' y \<Longrightarrow> R \<subseteq> R' \<Longrightarrow> related R' ty x name ty' y"
  unfolding related_def by blast

lemma permits_mono:
  assumes "permits R role user ty x" and "R \<subseteq> R'"
  shows "permits R' role user ty x"
  using assms(1) by induction (blast intro: permits.intros related_mono [OF _ assms(2)])+

text \<open>The documented meaning of the schema, for relationships without caveats.\<close>

definition reads_drive_schema :: "relationship semantics \<Rightarrow> bool" where
  "reads_drive_schema sem \<longleftrightarrow> (\<forall>R user doc. plain R \<longrightarrow>
     sem DRIVE_SCHEMA R (view_request user doc) = (if sees R user ''document'' doc then HasPermission else NoPermission))"

section \<open>The answers of the server\<close>

definition right_answer ::
    "('m, 'w) packages \<Rightarrow> ('m, 'w, 'd) service \<Rightarrow> (check_permission_request, check_permission_response) codec \<Rightarrow>
     relationship list \<Rightarrow> (string \<Rightarrow> string option) \<Rightarrow> http_request \<Rightarrow> http_response \<Rightarrow> bool" where
  "right_answer P V CC rs to_str q a \<longleftrightarrow>
     (case header_user to_str (request_headers q) of
        None \<Rightarrow> status a = 401
      | Some user \<Rightarrow>
          (status a = 200 \<and> sees (set rs) user ''document'' (path_document q)
         \<or> status a = 403 \<and> \<not> sees (set rs) user ''document'' (path_document q)
         \<or> status a = 500 \<and> \<not> replies_to P V CC CHECK_PERMISSION (view_request user (path_document q))))"

lemma permissionship_inject: "permissionship_i32 p = permissionship_i32 q \<longleftrightarrow> p = q"
  by (cases p; cases q) simp_all

lemma fully_consistent_view: "fully_consistent (view_request user doc)"
  by (simp add: fully_consistent_def view_request_def)

lemma handler_right:
  assumes "isolates P V" and "authorizes P V CS CR CC key sem view" and "small_responses P"
    and "reads_drive_schema sem" and "plain (set rs)"
    and "process_ok s" and "simulates V A (lib s)" and "A (db_handle db) = Some d"
    and "view d = (DRIVE_SCHEMA, set rs)" and "trace_c_ok (current otel (request_span q))"
  shows "\<exists>a s' d'. drive_route (go_ffi P esc) otel CC to_str db q s = Some (a, s') \<and> process_ok s'
    \<and> simulates V (A(db_handle db \<mapsto> d')) (lib s') \<and> view d' = (DRIVE_SCHEMA, set rs)
    \<and> right_answer P V CC rs to_str q a"
proof (cases "header_user to_str (request_headers q)")
  case None
  with assms(6-9) show ?thesis
    by (intro exI [of _ d] exI) (auto simp: drive_route_def drive_handler_def right_answer_def fun_upd_idem)
next
  case (Some user)
  obtain r l where r: "lib_call P CC (db_handle db) CHECK_PERMISSION (current otel (request_span q))
      (view_request user (path_document q)) (lib s) = (r, l)" by fastforce
  obtain s' where s': "drive_handler (go_ffi P esc) otel (request_span q) CC to_str db (path_folder q) (path_document q)
      (request_headers q) s = Some (check_response user (path_folder q) (path_document q) (map_err db_err r), s')"
    "process_ok s'" "lib s' = l"
    using drive_on_go [OF assms(6,3,10) Some r, of esc "path_folder q"] by blast
  from check_on_store [where A = A and h = "db_handle db", OF assms(1,2,7,8) r] obtain d' where
    d': "simulates V (A(db_handle db \<mapsto> d')) l" "view d' = view d"
      "\<And>a. r = Inr a \<Longrightarrow> response_permissionship a = permissionship_i32
        (if sees (set rs) user ''document'' (path_document q) then HasPermission else NoPermission)"
    using assms(4,5) by (auto simp: fully_consistent_view assms(9) reads_drive_schema_def)
  have refused: "\<not> replies_to P V CC CHECK_PERMISSION (view_request user (path_document q))" if "r = Inl e" for e
    using call_replied [where A = A and h = "db_handle db", OF assms(1,7,8) r] that by auto
  have "right_answer P V CC rs to_str q (check_response user (path_folder q) (path_document q) (map_err db_err r))"
    using d'(3) refused by (cases r) (auto simp: right_answer_def Some check_response_def permissionship_inject
      simp del: permissionship_i32.simps split: if_splits)
  with s' d'(1,2) assms(9) show ?thesis by (auto simp: drive_route_def)
qed

lemma serve_right:
  assumes "isolates P V" and "authorizes P V CS CR CC key sem view" and "small_responses P"
    and "reads_drive_schema sem" and "plain (set rs)"
    and "process_ok s" and "simulates V A (lib s)" and "A (db_handle db) = Some d"
    and "view d = (DRIVE_SCHEMA, set rs)" and "list_all (\<lambda>q. trace_c_ok (current otel (request_span q))) qs"
    and "serve_requests (drive_route (go_ffi P esc) otel CC to_str db) qs s = Some (as, s')"
  shows "list_all2 (right_answer P V CC rs to_str) qs as"
  using assms(6-11)
proof (induction qs arbitrary: s A d as)
  case (Cons q qs)
  from Cons.prems(5) have t: "trace_c_ok (current otel (request_span q))" by simp
  from handler_right [OF assms(1-5) Cons.prems(1-4) t, of esc to_str] obtain a s1 d1 where
    a: "drive_route (go_ffi P esc) otel CC to_str db q s = Some (a, s1)" "right_answer P V CC rs to_str q a"
    and s1: "process_ok s1" "simulates V (A(db_handle db \<mapsto> d1)) (lib s1)" "view d1 = (DRIVE_SCHEMA, set rs)" by blast
  from Cons.prems(6) a(1) obtain as1 where as: "as = a # as1"
    "serve_requests (drive_route (go_ffi P esc) otel CC to_str db) qs s1 = Some (as1, s')"
    by (auto simp: bind_eq_Some_conv)
  have "list_all2 (right_answer P V CC rs to_str) qs as1"
    using Cons.prems(5) by (intro Cons.IH [OF s1(1,2) _ s1(3) _ as(2)]) simp_all
  with a as show ?case by simp
qed simp

section \<open>A server for the examples\<close>

text \<open>It decides by the schema of the example and knows two batches of relationships and one check.\<close>

definition seeds_of :: "relationship list" where
  "seeds_of = the seed_relationships"

definition marketing :: "relationship list" where
  "marketing = the (those
     [rel ''folder:marketing'' ''parent'' ''folder:root'', rel ''document:doc1'' ''folder'' ''folder:marketing'',
      rel ''folder:root'' ''viewer'' ''user:alice''])"

definition alice_check :: check_permission_request where
  "alice_check = view_request ''alice'' ''doc1''"

definition drive_sem :: "relationship semantics" where
  "drive_sem schema R q =
     (case (check_resource q, check_subject q) of
        (Some x, Some s) \<Rightarrow>
          (case subject_object s of
             None \<Rightarrow> NoPermission
           | Some u \<Rightarrow> if sees R (object_id u) (object_type x) (object_id x) then HasPermission else NoPermission)
      | _ \<Rightarrow> NoPermission)"

lemma drive_sem_reads: "reads_drive_schema drive_sem"
  by (simp add: reads_drive_schema_def drive_sem_def view_request_def)

abbreviation drive_writes :: "(relationship, unit, unit) write_relationships_request list" where
  "drive_writes \<equiv> [bootstrap_updates seeds_of, bootstrap_updates marketing]"

abbreviation drive_packages where "drive_packages \<equiv> policy_packages id drive_sem drive_writes [alice_check]"
abbreviation drive_service where "drive_service \<equiv> policy_service id drive_sem drive_writes [alice_check]"
abbreviation drive_updates_codec where "drive_updates_codec \<equiv> policy_updates_codec drive_writes"
abbreviation drive_check_codec where "drive_check_codec \<equiv> policy_check_codec [alice_check]"

lemma drive_short: "length drive_writes < 2 ^ 31" "length [alice_check] < 2 ^ 31"
  by simp_all

lemmas drive_authorizes = policy_authorizes [OF drive_short, of id drive_sem]

lemma seeds_facts:
  assumes "seed_relationships = Some rs"
  shows "rs \<noteq> []" and "plain (set rs)" and "r \<in> set rs \<Longrightarrow> relation r \<noteq> ''viewer''"
proof -
  have "rel a b c = Some r \<Longrightarrow> relation r = b \<and> optional_caveat r = None \<and> optional_expires_at r = None" for a b c r
    by (auto simp: rel_def bind_eq_Some_conv)
  note parts = this
  from assms show "rs \<noteq> []" by (auto simp: seed_relationships_def split: option.splits)
  from assms show "plain (set rs)"
    by (auto simp: seed_relationships_def plain_def split: option.splits dest: parts)
  from assms show "r \<in> set rs \<Longrightarrow> relation r \<noteq> ''viewer''"
    by (auto simp: seed_relationships_def split: option.splits dest!: parts)
qed

lemma drive_seeds: "seed_relationships = Some seeds_of" "seeds_of \<noteq> []"
proof -
  from seeds show s: "seed_relationships = Some seeds_of" unfolding seeds_of_def by auto
  then show "seeds_of \<noteq> []" by (rule seeds_facts)
qed

lemma marketing_eq:
  "marketing =
     [\<lparr>resource = Some \<lparr>object_type = ''folder'', object_id = ''marketing''\<rparr>, relation = ''parent'',
       subject = Some \<lparr>subject_object = Some \<lparr>object_type = ''folder'', object_id = ''root''\<rparr>, optional_relation = []\<rparr>,
       optional_caveat = None, optional_expires_at = None\<rparr>,
      \<lparr>resource = Some \<lparr>object_type = ''document'', object_id = ''doc1''\<rparr>, relation = ''folder'',
       subject = Some \<lparr>subject_object = Some \<lparr>object_type = ''folder'', object_id = ''marketing''\<rparr>, optional_relation = []\<rparr>,
       optional_caveat = None, optional_expires_at = None\<rparr>,
      \<lparr>resource = Some \<lparr>object_type = ''folder'', object_id = ''root''\<rparr>, relation = ''viewer'',
       subject = Some \<lparr>subject_object = Some \<lparr>object_type = ''user'', object_id = ''alice''\<rparr>, optional_relation = []\<rparr>,
       optional_caveat = None, optional_expires_at = None\<rparr>]"
  by (simp add: marketing_def rel_def)

lemma marketing_plain: "plain (set marketing)"
  by (simp add: marketing_eq plain_def)

text \<open>A viewer of the root folder sees the document in the folder below it.\<close>

lemma alice_sees: "sees (set marketing) ''alice'' ''document'' ''doc1''"
proof -
  have "sees (set marketing) ''alice'' ''folder'' ''root''"
    by (rule permits.direct) (simp_all add: marketing_eq related_def)
  then have "sees (set marketing) ''alice'' ''folder'' ''marketing''"
    by (rule permits.above [rotated]) (simp add: marketing_eq related_def)
  then show ?thesis by (rule permits.inside [rotated]) (simp add: marketing_eq related_def)
qed

lemma drive_bootstraps:
  assumes "rels \<in> {seeds_of, marketing}"
  shows "\<exists>db s1. start_with_schema (go_ffi drive_packages esc) rfc_serde policy_schema_codec drive_updates_codec
    DRIVE_SCHEMA rels None policy_start = Some (Inr db, s1)"
proof -
  obtain db s0 where st: "start (go_ffi drive_packages esc) rfc_serde None policy_start = Some (Inr db, s0)"
    using store_app_start [of "([], {})" "policy_answer id drive_sem drive_writes [alice_check]" esc] by blast
  have "length (to_bytes DRIVE_SCHEMA) < 2 ^ 31" by (simp add: to_bytes_def DRIVE_SCHEMA_def)
  then have schema: "replies_to drive_packages drive_service policy_schema_codec WRITE_SCHEMA
      \<lparr>schema_text = DRIVE_SCHEMA\<rparr>"
    unfolding replies_to_def policy_replies(1) [OF drive_short] by simp
  have rels: "replies_to drive_packages drive_service drive_updates_codec WRITE_RELATIONSHIPS
      (bootstrap_updates rels)"
    unfolding replies_to_def policy_replies(2) [OF drive_short] using assms by auto
  from bootstrap_goes_through [OF store_packages_isolate rfc_serde_ok store_small policy_start_ok st schema rels]
  show ?thesis by blast
qed

lemma drive_check_replied:
  "replies_to drive_packages drive_service drive_check_codec CHECK_PERMISSION (view_request ''alice'' ''doc1'')"
  unfolding replies_to_def policy_replies(3) [OF drive_short] by (simp add: alice_check_def)

end
