(* ===== verification/Authorization.thy ===== *)
theory Authorization
  imports Drive_Schema
begin

text \<open>
  What the crate is for: the permission checks of an instance are decided by the schema and the
  relationships it was given, and so are the answers of the example's web server.
\<close>



text \<open>
  C34: the example's server follows the hierarchy: with whatever relationships the app was made, a
  request without a user gets 401, and any other gets 200 if the user is a viewer of the document, its
  folder or a folder above, 403 if not, and 500 only if the server does not answer that check.
\<close>

theorem documents_follow_hierarchy:
  assumes "isolates P V" and "authorizes P V CS CR CC key sem view" and "serde_ok S" and "small_responses P"
    and "process_ok s" and "handles_ok (lib s)" and "next_id (lib s) \<noteq> - 1" and "simulates V A (lib s)"
    and "reads_drive_schema sem" and "plain (set rs)"
    and "(case initial_relationships of Some given \<Rightarrow> Some given | None \<Rightarrow> seed_relationships) = Some rs"
    and "create_app (go_ffi P esc) S CS CR initial_relationships s = Some (Inr db, s1)"
    and "list_all (\<lambda>q. trace_c_ok (current otel (request_span q))) qs"
  shows "\<exists>as s2. serve_requests (drive_route (go_ffi P esc) otel CC to_str db) qs s1 = Some (as, s2)
    \<and> list_all2 (right_answer P V CC rs to_str) qs as"
proof -
  from assms(12) have run: "start_with_schema (go_ffi P esc) S CS CR DRIVE_SCHEMA rs None s = Some (Inr db, s1)"
    by (simp only: create_app_def assms(11) option.case)
  from bootstrapped_store [OF assms(1-8) default_options_in_process(2) run] obtain d where
    d: "simulates V (A(db_handle db \<mapsto> d)) (lib s1)" "view d = (DRIVE_SCHEMA, set rs)" "process_ok s1" by blast
  from serve_frame [OF d(3) assms(4,13), of esc CC to_str db] obtain as s2 where
    sv: "serve_requests (drive_route (go_ffi P esc) otel CC to_str db) qs s1 = Some (as, s2)" by blast
  from serve_right [OF assms(1,2,4,9,10) d(3,1) _ d(2) assms(13) sv] sv show ?thesis by simp
qed

theorem documents_follow_hierarchy_witness:
  "\<exists>db s1 a b s2. create_app (go_ffi drive_packages (\<lambda>_. False)) rfc_serde policy_schema_codec drive_updates_codec
      (Some marketing) policy_start = Some (Inr db, s1)
    \<and> serve_requests (drive_route (go_ffi drive_packages (\<lambda>_. False)) False drive_check_codec Some db)
        (arriving two_visits) s1 = Some ([a, b], s2)
    \<and> status a = 200 \<and> status b = 401"
proof -
  obtain db s1 where "start_with_schema (go_ffi drive_packages (\<lambda>_. False)) rfc_serde policy_schema_codec
      drive_updates_codec DRIVE_SCHEMA marketing None policy_start = Some (Inr db, s1)"
    using drive_bootstraps [of marketing] by blast
  then have c: "create_app (go_ffi drive_packages (\<lambda>_. False)) rfc_serde policy_schema_codec drive_updates_codec
      (Some marketing) policy_start = Some (Inr db, s1)" by (simp add: create_app_def)
  have t: "list_all (\<lambda>q. trace_c_ok (current False (request_span q))) (arriving two_visits)"
    by (simp add: two_visits_def)
  have i: "(case Some marketing of Some given \<Rightarrow> Some given | None \<Rightarrow> seed_relationships) = Some marketing" by simp
  have u: "header_user Some [''x-user'' \<mapsto> [''alice'']] = Some ''alice''" "header_user Some Map.empty = None"
    by (simp_all add: header_user_def header_get_def trim_def is_ascii_space_def)
  from documents_follow_hierarchy [OF store_packages_isolate drive_authorizes rfc_serde_ok store_small policy_start_ok
      drive_sem_reads marketing_plain i c t, of Some]
  obtain as s2 where sv: "serve_requests (drive_route (go_ffi drive_packages (\<lambda>_. False)) False drive_check_codec Some db)
      (arriving two_visits) s1 = Some (as, s2)"
    and r: "list_all2 (right_answer drive_packages drive_service drive_check_codec marketing Some) (arriving two_visits) as"
    by blast
  from r obtain a b where "as = [a, b]" "status a = 200" "status b = 401"
    by (auto simp: two_visits_def list_all2_Cons1 right_answer_def u alice_sees drive_check_replied)
  with c sv show ?thesis by blast
qed

text \<open>
  C35: the example as it ships shows nothing: the seed relationships have no viewer, so that \<open>main\<close>, whose
  greeting suggests a request of alice, never answers 200 to anybody.
\<close>

theorem docs_main_shows_nothing:
  assumes "isolates P V" and "authorizes P V CS CR CC key sem view" and "serde_ok S" and "small_responses P"
    and "process_ok s" and "handles_ok (lib s)" and "next_id (lib s) \<noteq> - 1" and "simulates V A (lib s)"
    and "reads_drive_schema sem"
    and "list_all (\<lambda>q. trace_c_ok (current otel (request_span q))) (arriving N)"
    and "docs_main (go_ffi P esc) S CS CR CC otel to_str N s = Some (r, as, s')"
  shows "list_all (\<lambda>a. status a \<in> {401, 403, 500}) as"
proof (cases "as = []")
  case False
  obtain rs where rs: "seed_relationships = Some rs" using seeds by blast
  obtain db s1 s2 where c: "create_app (go_ffi P esc) S CS CR None s = Some (Inr db, s1)"
    and sv: "serve_requests (drive_route (go_ffi P esc) otel CC to_str db) (arriving N) s1 = Some (as, s2)"
    by (rule docs_main_served [OF assms(11) False])
  from c have run: "start_with_schema (go_ffi P esc) S CS CR DRIVE_SCHEMA rs None s = Some (Inr db, s1)"
    by (simp only: create_app_def option.case rs)
  from bootstrapped_store [OF assms(1-8) default_options_in_process(2) run] obtain d where
    d: "simulates V (A(db_handle db \<mapsto> d)) (lib s1)" "view d = (DRIVE_SCHEMA, set rs)" "process_ok s1" by blast
  from serve_right [OF assms(1,2,4,9) seeds_facts(2) [OF rs] d(3,1) _ d(2) assms(10) sv]
  have "list_all2 (right_answer P V CC rs to_str) (arriving N) as" by simp
  moreover have "status a \<in> {401, 403, 500}" if "right_answer P V CC rs to_str q a" for q a
    using that nobody_permitted [OF seeds_facts(3) [OF rs]] by (auto simp: right_answer_def split: option.splits)
  ultimately show ?thesis unfolding list_all_iff by (metis in_set_conv_nth list_all2_conv_all_nth)
qed simp

theorem docs_main_shows_nothing_witness:
  "\<exists>a b s'. docs_main (go_ffi drive_packages (\<lambda>_. False)) rfc_serde policy_schema_codec drive_updates_codec
      drive_check_codec False Some two_visits policy_start = Some (Inr (), [a, b], s')
    \<and> status a \<noteq> 200 \<and> status b \<noteq> 200"
proof -
  have t: "list_all (\<lambda>q. trace_c_ok (current False (request_span q))) (arriving two_visits)"
    by (simp add: two_visits_def)
  from docs_main_outcome [OF policy_start_ok(1) rfc_serde_ok store_small policy_start_ok(2,3) t, where esc = "\<lambda>_. False"
      and CS = policy_schema_codec and CR = drive_updates_codec and C = drive_check_codec and to_str = Some]
  obtain r as s' where m: "docs_main (go_ffi drive_packages (\<lambda>_. False)) rfc_serde policy_schema_codec
      drive_updates_codec drive_check_codec False Some two_visits policy_start = Some (r, as, s')"
    and l: "length as = length (arriving two_visits) \<and> r = serve_end two_visits \<or> as = [] \<and> (\<exists>e. r = Inl e)" by blast
  obtain db s1 where "start_with_schema (go_ffi drive_packages (\<lambda>_. False)) rfc_serde policy_schema_codec
      drive_updates_codec DRIVE_SCHEMA seeds_of None policy_start = Some (Inr db, s1)"
    using drive_bootstraps [of seeds_of] by blast
  then have "create_app (go_ffi drive_packages (\<lambda>_. False)) rfc_serde policy_schema_codec drive_updates_codec None
      policy_start = Some (Inr db, s1)" by (simp only: create_app_def option.case drive_seeds(1))
  from docs_main_ends [OF _ this _ m] have r: "r = Inr ()" by (simp add: two_visits_def)
  with l obtain a b where as: "as = [a, b]" by (auto simp: two_visits_def length_Suc_conv)
  from docs_main_shows_nothing [OF store_packages_isolate drive_authorizes rfc_serde_ok store_small
      policy_start_ok drive_sem_reads t m] m r as show ?thesis by auto
qed

end
