(* ===== verification/Addresses.thy ===== *)
theory Addresses
  imports Library_Runs
begin

text \<open>
  The addresses of the streaming proxies.  On Unix each is a socket file named by process and handle;
  a start removes the file of its address before it listens, and a dispose removes the file of its
  instance, so the addresses of live instances must not meet.
\<close>

section \<open>Where a new instance listens\<close>

lemma proxy_listen_addr:
  "proxy_listen P n l = (Inr (lis, addr), l') \<Longrightarrow> \<not> is_windows P \<Longrightarrow> addr = streaming_proxy_addr P n"
  by (auto simp: proxy_listen_def Let_def split: prod.splits sum.splits)

lemma start_proxy_addr:
  "start_streaming_proxy P i conn n l = (Inr j, l') \<Longrightarrow> \<not> is_windows P \<Longrightarrow>
    streaming_addr j = streaming_proxy_addr P n"
  by (auto simp: start_streaming_proxy_def Let_def split: prod.splits sum.splits dest: proxy_listen_addr)

lemma go_start_addr:
  assumes "go_start P opts l = Some (t, l')" and "\<not> is_windows P" and "instances l' \<noteq> instances l"
  shows "\<exists>i. instances l' = (instances l)(next_id l + 1 \<mapsto> i)
    \<and> streaming_addr i = streaming_proxy_addr P (next_id l + 1)"
proof -
  obtain q k where "go_start P opts l = Some (q, k)" and o: "start_failed q l k \<or> start_succeeded P q l k"
    by (rule go_start_outcome)
  with assms obtain i where i: "instances l' = (instances l)(next_id l + 1 \<mapsto> i)"
    by (auto simp: start_failed_def start_succeeded_def)
  from assms(1) have "streaming_addr i = streaming_proxy_addr P (next_id l + 1)"
  proof (cases rule: go_start_paths)
    case (serving ds l1 m srv l2 j l3)
    from start_observability_frame [OF serving(3)] have l3: "instances l3 = instances l"
      using try_world_frame(1) [OF serving(1)] try_world_frame(1) [OF serving(2)] by (simp add: blank_instance_def)
    from serving(4) show ?thesis
    proof (cases rule: start_serving_paths)
      case (published conn k1 j' k2)
      from published(3) i have "i = j'" by (auto dest: fun_cong [of _ _ "next_id l + 1"])
      with start_proxy_addr [OF published(2) assms(2)] show ?thesis by simp
    qed (use assms(3) l3 in \<open>auto dest!: try_world_frame(1) start_proxy_result(1)\<close>)
  next
    case (no_observability ds l1 m srv l2 e)
    from start_observability_frame [OF no_observability(3)] have "instances l' = instances l"
      using try_world_frame(1) [OF no_observability(1)] try_world_frame(1) [OF no_observability(2)]
      by (simp add: blank_instance_def)
    with assms(3) show ?thesis by simp
  qed (use assms(3) in \<open>auto dest!: try_world_frame(1)\<close>)
  with i show ?thesis by blast
qed

section \<open>The invariant\<close>

text \<open>
  \<open>filepath.Join(os.TempDir(), name)\<close> of different plain file names is different.
\<close>

definition plain_names :: "string set" where
  "plain_names = {''spicedb-streaming-'' @ n | n. CHR ''/'' \<notin> set n}"

definition temp_names_ok :: "('m, 'w) packages \<Rightarrow> bool" where
  "temp_names_ok P \<longleftrightarrow> inj_on (temp_file P) plain_names"

definition addressed :: "('m, 'w) packages \<Rightarrow> 'w golib \<Rightarrow> bool" where
  "addressed P l \<longleftrightarrow> \<not> is_windows P \<longrightarrow>
     (\<forall>h i. instances l h = Some i \<longrightarrow> streaming_addr i = streaming_proxy_addr P h)"

lemma dec_plain: "CHR ''/'' \<notin> set (dec n)"
  using dec_digits [of "CHR ''/''" n] by (auto simp: is_digit_def)

lemma streaming_proxy_addr_inject:
  assumes "temp_names_ok P" and "\<not> is_windows P"
  shows "streaming_proxy_addr P h = streaming_proxy_addr P k \<longleftrightarrow> h = k"
proof -
  let ?n = "\<lambda>h :: u64. ''spicedb-streaming-'' @ dec (process_id P) @ ''-'' @ dec (unat h) @ ''.sock''"
  have "?n h \<in> plain_names" for h by (auto simp: plain_names_def dec_plain simp del: append_Cons append_Nil)
  then have "temp_file P (?n h) = temp_file P (?n k) \<longleftrightarrow> ?n h = ?n k"
    using assms(1) by (auto simp: temp_names_ok_def dest: inj_onD simp del: append_Cons append_Nil)
  also have "\<dots> \<longleftrightarrow> h = k" by (simp add: dec_inject word_unat_eq_iff)
  finally show ?thesis using assms(2) by (simp only: streaming_proxy_addr_def if_False)
qed

interpretation addresses: library_invariant P "addressed P" for P :: "('m, 'w) packages"
proof
  fix l l' :: "'w golib" and t r
  assume l: "addressed P l" and g: "go_start P (Some t) l = Some (r, l')"
  show "addressed P l'"
  proof (cases "is_windows P \<or> instances l' = instances l")
    case True
    with l show ?thesis by (auto simp: addressed_def)
  next
    case False
    with go_start_addr [OF g] l show ?thesis by (auto simp: addressed_def split: if_splits)
  qed
next
  fix l l' :: "'w golib" and h r
  assume "addressed P l" "golib_ok l" "go_dispose P h l = Some (r, l')"
  with go_dispose_ok [of l P h] show "addressed P l'" by (auto simp: addressed_def)
next
  fix l l' :: "'w golib" and h m tp ts req q
  assume "addressed P l" "go_rpc P h m tp ts req l = (q, l')"
  with go_rpc_frame [of P h m tp ts req l q l'] show "addressed P l'" by (simp add: addressed_def)
qed

section \<open>Properties\<close>

text \<open>
  C12: on Unix no two live instances share a streaming address, in any state a program can reach, and
  the socket file the next start would remove first is not that of a live instance.
\<close>

theorem live_addresses_distinct:
  assumes "reachable P esc S a b" and "initial a" and "serde_ok S" and "small_responses P"
    and "\<not> is_windows P" and "temp_names_ok P"
  shows "inj_on (\<lambda>h. map_option streaming_addr (instances (lib (proc b)) h)) (dom (instances (lib (proc b))))
    \<and> (next_id (lib (proc b)) \<noteq> - 1 \<longrightarrow>
         streaming_proxy_addr P (next_id (lib (proc b)) + 1) \<notin> streaming_addr ` ran (instances (lib (proc b))))"
proof -
  from assms(2) have "addressed P (lib (proc a))" by (simp add: initial_def addressed_def)
  from addresses.holds_along_runs [OF assms(1-4) this] assms(5)
  have addr: "streaming_addr i = streaming_proxy_addr P h" if "instances (lib (proc b)) h = Some i" for h i
    using that by (simp add: addressed_def)
  have h: "handles_ok (lib (proc b))"
    using reachable_inv [OF assms(1) initial_inv [OF assms(2)] assms(3,4)] by (simp add: app_inv_def)
  note inject = streaming_proxy_addr_inject [OF assms(6,5)]
  have "inj_on (\<lambda>h. map_option streaming_addr (instances (lib (proc b)) h)) (dom (instances (lib (proc b))))"
    by (rule inj_onI) (auto simp: addr inject)
  moreover have "streaming_proxy_addr P (next_id (lib (proc b)) + 1) \<notin> streaming_addr ` ran (instances (lib (proc b)))"
    if "next_id (lib (proc b)) \<noteq> - 1"
    using next_handle_free(1) [OF h that] by (auto simp: ran_def addr inject)
  ultimately show ?thesis by blast
qed

lemma sample_temp_names: "temp_names_ok sample_packages"
  by (simp add: temp_names_ok_def sample_packages_def inj_on_def)

theorem live_addresses_distinct_witness:
  "\<exists>db s1. reachable sample_packages (\<lambda>_. False) rfc_serde empty_app \<lparr>proc = s1, owned = [db]\<rparr>
     \<and> streaming_proxy_addr sample_packages (next_id (lib s1) + 1) \<notin> streaming_addr ` ran (instances (lib s1))"
proof -
  from sample_start_Inr [of "\<lambda>_. False"] obtain db s1 where
    st: "start (go_ffi sample_packages (\<lambda>_. False)) rfc_serde None empty_process = Some (Inr db, s1)" by blast
  have v: "options_valid (unwrap_or None default_options)" by (simp add: default_valid)
  have "next_id (lib s1) = 1"
    using start_outcome [OF empty_process_ok rfc_serde_ok v, of sample_packages "\<lambda>_. False"] st
    by (auto simp: start_result_def empty_process_parts empty_lib_ok)
  moreover have "reachable sample_packages (\<lambda>_. False) rfc_serde empty_app
      (empty_app\<lparr>proc := s1, owned := owned empty_app @ [db]\<rparr>)"
    by (rule reachable.further [OF reachable.here], rule step.started [where options = None])
      (use st v in \<open>simp_all add: empty_app_def empty_process_parts empty_lib_ok\<close>)
  moreover have "\<not> is_windows sample_packages" by (simp add: sample_packages_def)
  ultimately show ?thesis
    using live_addresses_distinct [OF _ empty_app_initial rfc_serde_ok sample_small _ sample_temp_names]
    by (fastforce simp: empty_app_def)
qed

end
