(* ===== verification/Streaming_Proxy.thy ===== *)
theory Streaming_Proxy
  imports Trace_Context
begin

text \<open>
  The handlers of the streaming proxy in \<open>streaming_proxy.go\<close>.  Each opens a stream of the same method
  on the in-memory connection, under the caller's trace headers, and copies messages until the stream
  ends, fails, or the caller's side refuses one.  The backend and the caller are what the \<open>k\<close>th
  \<open>Recv\<close> and the \<open>k\<close>th \<open>Send\<close> give.  A stream that goes on for ever, as a \<open>Watch\<close> may, makes a
  handler that does not return, which is \<open>None\<close>.
\<close>

section \<open>Handlers\<close>

datatype 'm received = Msg 'm | EOF | Failed string

text \<open>The loop from the \<open>k\<close>th message on: what is sent, and the error the handler returns, if any.\<close>

partial_function (option) copy_loop ::
    "(nat \<Rightarrow> 'm received) \<Rightarrow> (nat \<Rightarrow> string option) \<Rightarrow> nat \<Rightarrow> ('m list \<times> string option) option" where
  "copy_loop recv send k =
     (case recv k of
        EOF \<Rightarrow> Some ([], None)
      | Failed e \<Rightarrow> Some ([], Some e)
      | Msg m \<Rightarrow>
          (case send k of
             Some e \<Rightarrow> Some ([], Some e)
           | None \<Rightarrow> Option.bind (copy_loop recv send (Suc k)) (\<lambda>(ms, r). Some (m # ms, r))))"

declare copy_loop.simps [simp del]

text \<open>The four methods that are forwarded, with the service each belongs to.\<close>

definition streaming_methods :: "string list" where
  "streaming_methods =
     [full_method_name ''PermissionsService'' ''ReadRelationships'',
      full_method_name ''PermissionsService'' ''LookupResources'',
      full_method_name ''PermissionsService'' ''LookupSubjects'',
      full_method_name ''WatchService'' ''Watch'']"

text \<open>
  The backend: opening a stream of a method with the outgoing metadata and a request gives an error
  or what the stream receives.
\<close>

type_synonym ('q, 'm) backend =
  "(string \<times> string) list \<Rightarrow> string \<Rightarrow> 'q \<Rightarrow> string + (nat \<Rightarrow> 'm received)"

definition proxy_handler ::
    "('q, 'm) backend \<Rightarrow> string \<Rightarrow> metadata \<Rightarrow> 'q \<Rightarrow> (nat \<Rightarrow> string option) \<Rightarrow>
     ('m list \<times> string option) option" where
  "proxy_handler open_stream method md req send =
     (case open_stream (forward_trace_context md) method req of
        Inl e \<Rightarrow> Some ([], Some e)
      | Inr recv \<Rightarrow> copy_loop recv send 0)"

text \<open>The proxy's gRPC server: the forwarded methods, every other one answered by the generated
  \<open>Unimplemented\<close> servers.\<close>

definition proxy_serve ::
    "('q, 'm) backend \<Rightarrow> string \<Rightarrow> string \<Rightarrow> metadata \<Rightarrow> 'q \<Rightarrow> (nat \<Rightarrow> string option) \<Rightarrow>
     ('m list \<times> string option) option" where
  "proxy_serve open_stream unimplemented method md req send =
     (if method \<in> set streaming_methods then proxy_handler open_stream method md req send
      else Some ([], Some unimplemented))"

section \<open>The loop\<close>

text \<open>Whether the loop goes on after the \<open>k\<close>th message, and how it ends there if not.\<close>

definition passes :: "(nat \<Rightarrow> 'm received) \<Rightarrow> (nat \<Rightarrow> string option) \<Rightarrow> nat \<Rightarrow> bool" where
  "passes recv send k \<longleftrightarrow> (\<exists>m. recv k = Msg m) \<and> send k = None"

definition outcome_at :: "(nat \<Rightarrow> 'm received) \<Rightarrow> (nat \<Rightarrow> string option) \<Rightarrow> nat \<Rightarrow> string option" where
  "outcome_at recv send k =
     (case recv k of EOF \<Rightarrow> None | Failed e \<Rightarrow> Some e | Msg _ \<Rightarrow> send k)"

definition message :: "'m received \<Rightarrow> 'm" where
  "message r = (case r of Msg m \<Rightarrow> m | _ \<Rightarrow> undefined)"

lemma copy_loop_stop:
  "\<not> passes recv send k \<Longrightarrow> copy_loop recv send k = Some ([], outcome_at recv send k)"
  by (subst copy_loop.simps) (auto simp: passes_def outcome_at_def split: received.split option.split)

lemma copy_loop_pass:
  "passes recv send k \<Longrightarrow> copy_loop recv send k
    = map_option (\<lambda>(ms, r). (message (recv k) # ms, r)) (copy_loop recv send (Suc k))"
  by (subst copy_loop.simps)
    (cases "copy_loop recv send (Suc k)"; auto simp: passes_def message_def split: received.split option.split)

lemma copy_loop_run:
  assumes "\<And>i. k \<le> i \<Longrightarrow> i < k + n \<Longrightarrow> passes recv send i" and "\<not> passes recv send (k + n)"
  shows "copy_loop recv send k
    = Some (map (\<lambda>i. message (recv i)) [k..<k + n], outcome_at recv send (k + n))"
  using assms
proof (induction n arbitrary: k)
  case 0
  then show ?case by (simp add: copy_loop_stop)
next
  case (Suc n)
  then have "passes recv send k" by simp
  moreover have "copy_loop recv send (Suc k)
      = Some (map (\<lambda>i. message (recv i)) [Suc k..<Suc k + n], outcome_at recv send (Suc k + n))"
    using Suc.prems by (intro Suc.IH) simp_all
  moreover have "[k..<k + Suc n] = k # [Suc k..<Suc k + n]" by (simp add: upt_conv_Cons)
  ultimately show ?case by (simp add: copy_loop_pass del: upt_Suc)
qed

lemma copy_loop_returns:
  assumes "copy_loop recv send k = Some r"
  shows "\<exists>n \<ge> k. \<not> passes recv send n"
proof (rule copy_loop.raw_induct [OF _ assms, where P = "\<lambda>recv send k r. \<exists>n \<ge> k. \<not> passes recv send n"])
  fix loop :: "_ \<Rightarrow> _ \<Rightarrow> nat \<Rightarrow> _" and recv :: "nat \<Rightarrow> 'm received" and send k r
  assume 1: "\<And>recv send k r. loop recv send k = Some r \<Longrightarrow> \<exists>n \<ge> k. \<not> passes recv send n"
    and 2: "(case recv k of Msg m \<Rightarrow> (case send k of None \<Rightarrow> Option.bind (loop recv send (Suc k))
        (\<lambda>(ms, r). Some (m # ms, r)) | Some e \<Rightarrow> Some ([], Some e))
      | EOF \<Rightarrow> Some ([], None) | Failed e \<Rightarrow> Some ([], Some e)) = Some r"
  show "\<exists>n \<ge> k. \<not> passes recv send n"
  proof (cases "passes recv send k")
    case True
    with 2 have "loop recv send (Suc k) \<noteq> None" by (auto simp: passes_def bind_eq_Some_conv)
    then obtain q where "loop recv send (Suc k) = Some q" by blast
    from 1 [OF this] obtain n where "Suc k \<le> n" "\<not> passes recv send n" by auto
    then show ?thesis by (intro exI [of _ n]) simp
  qed auto
qed

text \<open>The loop returns just if some message does not pass, and then with those before the first such one.\<close>

lemma copy_loop_iff:
  "copy_loop recv send 0 = Some (ms, r) \<longleftrightarrow>
     (\<exists>n. (\<forall>i < n. passes recv send i) \<and> \<not> passes recv send n
        \<and> ms = map (\<lambda>i. message (recv i)) [0..<n] \<and> r = outcome_at recv send n)"
    (is "?l \<longleftrightarrow> ?r")
proof
  assume ?l
  then have "\<exists>n. \<not> passes recv send n" using copy_loop_returns by blast
  then obtain n where n: "\<not> passes recv send n" "\<forall>i < n. passes recv send i"
    using exists_least_iff [of "\<lambda>n. \<not> passes recv send n"] by blast
  have "copy_loop recv send 0 = Some (map (\<lambda>i. message (recv i)) [0..<0 + n], outcome_at recv send (0 + n))"
    by (rule copy_loop_run) (use n in simp_all)
  with n \<open>?l\<close> show ?r by (intro exI [of _ n]) simp
next
  assume ?r
  then obtain n where n: "\<forall>i < n. passes recv send i" "\<not> passes recv send n"
    and r: "ms = map (\<lambda>i. message (recv i)) [0..<n]" "r = outcome_at recv send n" by auto
  have "copy_loop recv send 0 = Some (map (\<lambda>i. message (recv i)) [0..<0 + n], outcome_at recv send (0 + n))"
    by (rule copy_loop_run) (use n in simp_all)
  with r show ?l by simp
qed


section \<open>Properties\<close>

text \<open>
  C38: a streaming call through the proxy is the call on the backend under the caller's trace context:
  it returns just if the stream ends, fails or has a message refused; the caller then has got the
  messages received before that point, all of them, in order and once, and the handler's error is the
  one of that point, none at the end of the stream.
\<close>

theorem streaming_proxy_forwards:
  assumes "open_stream (forward_trace_context md) method req = Inr recv" and "method \<in> set streaming_methods"
  shows "proxy_serve open_stream unimplemented method md req send = Some (ms, r) \<longleftrightarrow>
    (\<exists>n. (\<forall>i < n. \<exists>m. recv i = Msg m \<and> send i = None)
       \<and> ms = map (\<lambda>i. message (recv i)) [0..<n]
       \<and> (case recv n of
            EOF \<Rightarrow> r = None
          | Failed e \<Rightarrow> r = Some e
          | Msg m \<Rightarrow> send n \<noteq> None \<and> r = send n))"
proof -
  have "passes recv send i \<longleftrightarrow> (\<exists>m. recv i = Msg m \<and> send i = None)" for i by (auto simp: passes_def)
  moreover have "\<not> passes recv send n \<and> r = outcome_at recv send n \<longleftrightarrow>
      (case recv n of EOF \<Rightarrow> r = None | Failed e \<Rightarrow> r = Some e | Msg m \<Rightarrow> send n \<noteq> None \<and> r = send n)" for n
    by (auto simp: passes_def outcome_at_def split: received.split)
  ultimately show ?thesis
    using assms by (simp add: proxy_serve_def proxy_handler_def copy_loop_iff) metis
qed

theorem streaming_proxy_forwards_witness:
  "proxy_serve (\<lambda>md method req. Inr (\<lambda>i. if i < 2 then Msg i else EOF)) ''unimplemented''
     (full_method_name ''WatchService'' ''Watch'') Map.empty () (\<lambda>_. None) = Some ([0, 1], None)"
proof -
  let ?recv = "\<lambda>i. if i < 2 then Msg i else EOF :: nat received"
  let ?m = "full_method_name ''WatchService'' ''Watch''"
  have "?m \<in> set streaming_methods" by (simp add: streaming_methods_def)
  from streaming_proxy_forwards [where open_stream = "\<lambda>md method req. Inr ?recv" and recv = ?recv and md = Map.empty
      and req = "()" and send = "\<lambda>_. None" and unimplemented = "''unimplemented''" and ms = "[0, 1]" and r = None,
      OF _ this]
  show ?thesis by (simp add: exI [of _ 2] message_def eval_nat_numeral)
qed

end
