(* ===== verification/Streams.thy ===== *)
theory Streams
  imports Behaviour Addresses Streaming_Proxy
begin

text \<open>
  Streams, from the address an instance gives to the store they read: a client that dials the streaming
  address of a live instance reaches the proxy of that instance and no other, and is answered from its
  store.  A stream on a gRPC connection is the parameter \<open>streams\<close>.
\<close>

section \<open>Dialling an address\<close>

text \<open>
  A listening socket is found by its address; the call is then served by the proxy of the instance that
  owns the socket, on the in-memory connection of that instance.
\<close>

definition stream_at ::
    "(obj \<Rightarrow> 'w \<Rightarrow> ('q, 'a) backend) \<Rightarrow> string \<Rightarrow> 'w golib \<Rightarrow> string \<Rightarrow> string \<Rightarrow> metadata \<Rightarrow> 'q \<Rightarrow>
     (nat \<Rightarrow> string option) \<Rightarrow> ('a list \<times> string option) option \<Rightarrow> bool" where
  "stream_at streams unimplemented l addr method md req send r \<longleftrightarrow>
     (\<exists>i c. i \<in> ran (instances l) \<and> streaming_addr i = addr \<and> client_conn i = Some c
        \<and> r = proxy_serve (streams c (world l)) unimplemented method md req send)"

text \<open>Documented of the server: a stream on an open connection is answered from the store behind it.\<close>

type_synonym ('q, 'a, 'd) stream_answer = "string \<Rightarrow> 'q \<Rightarrow> 'd \<Rightarrow> string + (nat \<Rightarrow> 'a received)"

definition streams_answered ::
    "('m, 'w, 'd) service \<Rightarrow> (obj \<Rightarrow> 'w \<Rightarrow> ('q, 'a) backend) \<Rightarrow> ('q, 'a, 'd) stream_answer \<Rightarrow> bool" where
  "streams_answered V streams ans \<longleftrightarrow> (\<forall>w c srv d md m q. in_memory V w \<and> conns V w c = Some (srv, d) \<longrightarrow>
     streams c w md m q = ans m q d)"

definition temp_valid :: "('m, 'w) packages \<Rightarrow> bool" where
  "temp_valid P \<longleftrightarrow> (\<forall>name. utf8_valid name \<longrightarrow> utf8_valid (temp_file P name))"

section \<open>The address a program holds\<close>

definition address_known :: "'w app \<Rightarrow> bool" where
  "address_known a \<longleftrightarrow> (\<forall>db\<in>set (owned a). \<exists>i. instances (lib (proc a)) (db_handle db) = Some i
     \<and> streaming_address db = go_valid (streaming_addr i))"

lemma address_known_step:
  assumes "step P esc S a b" and "app_inv a" and "serde_ok S" and "small_responses P" and "address_known a"
  shows "address_known b"
proof -
  from assms(2) have ok: "process_ok (proc a)" and h: "handles_ok (lib (proc a))"
    and d: "distinct (map db_handle (owned a))" by (simp_all add: app_inv_def)
  from assms(1) show ?thesis
  proof cases
    case (started options db s')
    obtain r s1 where "start (go_ffi P esc) S options (proc a) = Some (r, s1)"
      "start_result P r (lib (proc a)) (lib s1)" by (rule start_outcome [OF ok assms(3) started(3), of P esc])
    with started(2) have "start_result P (Inr db) (lib (proc a)) (lib s')" by simp
    then obtain i where
      n: "db_handle db = next_id (lib (proc a)) + 1"
      and i: "instances (lib s') = (instances (lib (proc a)))(db_handle db \<mapsto> i)"
      and s: "streaming_address db = go_valid (streaming_addr i)"
      by (auto simp: start_result_def)
    from next_handle_free(1) [OF h started(4)] n have free: "db_handle db \<notin> dom (instances (lib (proc a)))" by simp
    have "db_handle k \<noteq> db_handle db" if "k \<in> set (owned a)" for k
      using assms(5) that free unfolding address_known_def by force
    with assms(5) i s started(1) show ?thesis by (simp add: address_known_def)
  next
    case (start_refused options e s')
    obtain r s1 where "start (go_ffi P esc) S options (proc a) = Some (r, s1)"
      "start_result P r (lib (proc a)) (lib s1)" by (rule start_outcome [OF ok assms(3) start_refused(3), of P esc])
    with start_refused(2) have "instances (lib s') = instances (lib (proc a))" by (simp add: start_result_def)
    with assms(5) start_refused(1) show ?thesis by (simp add: address_known_def)
  next
    case (called h m tr req r s')
    with raw_call_on_go [OF ok assms(4)] assms(5) show ?thesis by (fastforce simp: address_known_def)
  next
    case (dropped db s')
    obtain xs ys where o: "owned a = xs @ db # ys" "db \<notin> set xs"
      using split_list_first [OF dropped(2)] by blast
    then have r: "remove1 db (owned a) = xs @ ys" by (simp add: remove1_append)
    from d o have new: "db_handle db \<notin> db_handle ` set (xs @ ys)" by auto
    have "k \<in> set (owned a) \<and> db_handle k \<noteq> db_handle db" if "k \<in> set (remove1 db (owned a))" for k
    proof
      from that o r show "k \<in> set (owned a)" by auto
      from that r have "db_handle k \<in> db_handle ` set (xs @ ys)" by simp
      with new show "db_handle k \<noteq> db_handle db" by metis
    qed
    note kept = this
    have i: "instances (lib s') = (instances (lib (proc a)))(db_handle db := None)"
    proof -
      obtain s1 where "drop_db (go_ffi P esc) db (proc a) = Some s1"
        "instances (lib s1) = (instances (lib (proc a)))(db_handle db := None)"
        by (rule drop_outcome [OF ok, of P esc db])
      with dropped(3) show ?thesis by simp
    qed
    from dropped(1) have b: "owned b = remove1 db (owned a)" "lib (proc b) = lib s'" by simp_all
    show ?thesis unfolding address_known_def b
    proof
      fix k assume "k \<in> set (remove1 db (owned a))"
      from kept [OF this] have k: "k \<in> set (owned a)" "db_handle k \<noteq> db_handle db" by blast+
      with assms(5) obtain j where "instances (lib (proc a)) (db_handle k) = Some j"
        "streaming_address k = go_valid (streaming_addr j)" unfolding address_known_def by blast
      with k(2) show "\<exists>j. instances (lib s') (db_handle k) = Some j
          \<and> streaming_address k = go_valid (streaming_addr j)" by (simp add: i)
    qed
  qed
qed

lemma address_known_reachable:
  assumes "reachable P esc S a b" and "initial a" and "serde_ok S" and "small_responses P"
  shows "address_known b"
  using assms(1)
proof induction
  case here
  from assms(2) show ?case by (simp add: address_known_def initial_def)
next
  case (further b c)
  from reachable_inv [OF further.hyps(1) initial_inv [OF assms(2)] assms(3,4)] have "app_inv b" by simp
  from address_known_step [OF further.hyps(2) this assms(3,4) further.IH] show ?case .
qed

lemma socket_name_valid: "utf8_valid (''spicedb-streaming-'' @ dec n @ ''-'' @ dec k @ ''.sock'')"
proof (rule utf8_valid_ascii)
  show "\<forall>c\<in>set (''spicedb-streaming-'' @ dec n @ ''-'' @ dec k @ ''.sock''). of_char c < (128::nat)"
    using dec_digits [of _ n] dec_digits [of _ k] by (fastforce simp: is_digit_def)
qed

text \<open>The instance behind the address of an owned handle.\<close>

lemma owned_address:
  assumes "reachable P esc S a b" and "initial a" and "serde_ok S" and "small_responses P"
    and "\<not> is_windows P" and "temp_names_ok P" and "temp_valid P" and "db \<in> set (owned b)"
  obtains i where "instances (lib (proc b)) (db_handle db) = Some i"
    and "\<forall>j. j \<in> ran (instances (lib (proc b))) \<and> streaming_addr j = streaming_address db \<longleftrightarrow> j = i"
proof -
  from address_known_reachable [OF assms(1-4)] assms(8) obtain i where
    i: "instances (lib (proc b)) (db_handle db) = Some i" "streaming_address db = go_valid (streaming_addr i)"
    by (auto simp: address_known_def)
  from assms(2) have "addressed P (lib (proc a))" by (simp add: initial_def addressed_def)
  from addresses.holds_along_runs [OF assms(1-4) this] assms(5)
  have addr: "streaming_addr j = streaming_proxy_addr P k" if "instances (lib (proc b)) k = Some j" for j k
    using that by (simp add: addressed_def)
  have "utf8_valid (streaming_proxy_addr P k)" for k
    using assms(5,7) socket_name_valid by (simp add: streaming_proxy_addr_def temp_valid_def del: append_Cons append_Nil)
  with i(2) addr [OF i(1)] have "streaming_address db = streaming_proxy_addr P (db_handle db)" by (simp add: go_valid_id)
  with i(1) addr streaming_proxy_addr_inject [OF assms(6,5)]
  have "j \<in> ran (instances (lib (proc b))) \<and> streaming_addr j = streaming_address db \<longleftrightarrow> j = i" for j
    by (auto simp: ran_def)
  with i(1) that show thesis by blast
qed

section \<open>Properties\<close>


text \<open>The counting server streams one message for each request it has had.\<close>

definition count_stream :: "(unit, nat, bytes list) stream_answer" where
  "count_stream method q d = Inr (\<lambda>k. if k < length d then Msg k else EOF)"

definition count_streams :: "obj \<Rightarrow> bytes list store_world \<Rightarrow> (unit, nat) backend" where
  "count_streams c w md method q =
     (case open_conns w c of None \<Rightarrow> Inl ''the client connection is closing'' | Some (srv, d) \<Rightarrow> count_stream method q d)"

lemma count_streams_answered: "streams_answered count_service count_streams count_stream"
  by (simp add: streams_answered_def count_streams_def store_service_def)

lemma count_temp: "temp_names_ok count_packages" "temp_valid count_packages" "\<not> is_windows count_packages"
  by (auto simp: temp_names_ok_def temp_valid_def store_packages_def inj_on_def utf8_valid_append utf8_valid_ascii)

lemma one_call_owned:
  assumes "behaves count_packages (\<lambda>_. False) rfc_serde store_app (one_call h r) b"
  obtains A db where "obeys_all count_packages count_service (\<lambda>_. False) (one_call h r) Map.empty = Some A"
    and "db \<in> set (owned b)"
proof -
  from behaves_obeys [OF assms store_app_initial(1) store_packages_isolate rfc_serde_ok store_small store_app_initial(2)]
  obtain A where A: "obeys_all count_packages count_service (\<lambda>_. False) (one_call h r) Map.empty = Some A"
    and sim: "simulates count_service A (lib (proc b))" by blast
  have "app_inv b"
    using reachable_inv [OF behaves_reachable [OF assms] initial_inv [OF store_app_initial(1)] rfc_serde_ok store_small]
    by simp
  with sim have "dom A = set (map db_handle (owned b))" by (auto simp: app_inv_def simulates_def)
  moreover from A have "A h \<noteq> None"
    by (auto simp: one_call_def table_call_def store_rpc_def Let_def bind_eq_Some_conv
      split: if_splits sum.splits prod.splits option.splits)
  ultimately obtain db where "db \<in> set (owned b)" by (auto simp: dom_def)
  with A that show thesis by blast
qed


end
