(* ===== verification/Crate_Tests.thy ===== *)
theory Crate_Tests
  imports Policies "HOL-Library.Sublist"
begin

text \<open>
  The unit tests of \<open>spicedb.rs\<close> that make unary calls, and those of \<open>trace_context.rs\<close>.  The first are scripts: a step starts an instance or calls one
  of those started before, in the order of the code; clocks and printing are left out.  A failed
  \<open>unwrap\<close> and a failed assertion end a test, and the instances are dropped, the last one first.
\<close>

section \<open>Scripts\<close>

datatype test_step =
    Start_With_Schema string "relationship list" bool
  | Write nat "(relationship, unit, unit) write_relationships_request"
  | Expect_Check nat check_permission_request permissionship
  | Check nat check_permission_request
  | Try_Check nat check_permission_request
  | Known_Method nat string
  | Unknown_Method nat string string

datatype ending = Passed | Skipped | Panicked spicedb_error | Panicked_With string | Assertion_Failed

text \<open>The messages of a start that \<open>test_check_permission\<close> takes for a machine without sockets.\<close>

definition contains :: "string \<Rightarrow> string \<Rightarrow> bool" where
  "contains text part = list_ex (\<lambda>t. prefix part t) (suffixes text)"

definition tolerated :: "spicedb_error \<Rightarrow> bool" where
  "tolerated e \<longleftrightarrow> (let msg = error_text e in
     contains msg ''streaming proxy'' \<or> contains msg ''bind'' \<or> contains msg ''operation not permitted'')"

text \<open>One step on the instances \<open>dbs\<close>: how the test ends there, or the instances from then on.\<close>

fun run_step where
  "run_step F S CS CR CC CU otel span dbs (Start_With_Schema schema rels lenient) s = do {
     (r, s1) \<leftarrow> start_with_schema F S CS CR schema rels None s;
     Some (case r of
         Inr db \<Rightarrow> Inr (dbs @ [db])
       | Inl e \<Rightarrow> Inl (if lenient \<and> tolerated e then Skipped else Panicked e), s1) }"
| "run_step F S CS CR CC CU otel span dbs (Write i q) s = do {
     (r, s1) \<leftarrow> client_write_relationships F otel span CR (permissions_client (dbs ! i)) q s;
     Some (case r of Inr a \<Rightarrow> Inr dbs | Inl e \<Rightarrow> Inl (Panicked e), s1) }"
| "run_step F S CS CR CC CU otel span dbs (Expect_Check i q p) s = do {
     (r, s1) \<leftarrow> client_check_permission F otel span CC (permissions_client (dbs ! i)) q s;
     Some (case r of
         Inr a \<Rightarrow> if response_permissionship a = permissionship_i32 p then Inr dbs else Inl Assertion_Failed
       | Inl e \<Rightarrow> Inl (Panicked e), s1) }"
| "run_step F S CS CR CC CU otel span dbs (Check i q) s = do {
     (r, s1) \<leftarrow> client_check_permission F otel span CC (permissions_client (dbs ! i)) q s;
     Some (case r of Inr a \<Rightarrow> Inr dbs | Inl e \<Rightarrow> Inl (Panicked e), s1) }"
| "run_step F S CS CR CC CU otel span dbs (Try_Check i q) s = do {
     (r, s1) \<leftarrow> client_check_permission F otel span CC (permissions_client (dbs ! i)) q s;
     Some (Inr dbs, s1) }"
| "run_step F S CS CR CC CU otel span dbs (Known_Method i m) s = do {
     (r, s1) \<leftarrow> transport_call F CU (db_handle (dbs ! i)) m trace_default () s;
     Some (case r of
         Inl (RpcError e) \<Rightarrow> if prefix ''unsupported method'' e then Inl Assertion_Failed else Inr dbs
       | Inr a \<Rightarrow> Inr dbs, s1) }"
| "run_step F S CS CR CC CU otel span dbs (Unknown_Method i m text) s = do {
     (r, s1) \<leftarrow> transport_call F CU (db_handle (dbs ! i)) m trace_default () s;
     Some (if r = Inl (RpcError text) then Inr dbs else Inl Assertion_Failed, s1) }"

definition finish :: "'l ffi \<Rightarrow> ending \<Rightarrow> embedded list \<Rightarrow> 'l process \<Rightarrow> (ending \<times> 'l process) option" where
  "finish F e dbs s = map_option (Pair e) (foldr (\<lambda>db t. Option.bind t (drop_db F db)) dbs (Some s))"

fun run_test where
  "run_test F S CS CR CC CU otel span dbs [] s = finish F Passed dbs s"
| "run_test F S CS CR CC CU otel span dbs (t # ts) s =
     (case run_step F S CS CR CC CU otel span dbs t s of
        None \<Rightarrow> None
      | Some (Inl e, s1) \<Rightarrow> finish F e dbs s1
      | Some (Inr dbs', s1) \<Rightarrow> run_test F S CS CR CC CU otel span dbs' ts s1)"

section \<open>The tests\<close>

definition TEST_SCHEMA :: string where
  "TEST_SCHEMA = concat (map (\<lambda>l. NL # l)
     [''definition user {}'', [],
      ''definition document {'',
      ''    relation reader: user'',
      ''    relation writer: user'', [],
      ''    permission read = reader + writer'',
      ''    permission write = writer'',
      ''}'', []])"

definition test_rel :: "string \<Rightarrow> string \<Rightarrow> string \<Rightarrow> relationship option" where
  "test_rel resource_text relation_name subject_text = do {
     (res_type, res_id) \<leftarrow> split_once (CHR '':'') resource_text;
     (sub_type, sub_id) \<leftarrow> split_once (CHR '':'') subject_text;
     Some \<lparr>resource = Some \<lparr>object_type = res_type, object_id = res_id\<rparr>,
           relation = relation_name,
           subject = Some \<lparr>subject_object = Some \<lparr>object_type = sub_type, object_id = sub_id\<rparr>,
                           optional_relation = []\<rparr>,
           optional_caveat = None, optional_expires_at = None\<rparr> }"

definition check_req :: "string \<Rightarrow> string \<Rightarrow> string \<Rightarrow> check_permission_request option" where
  "check_req resource_text permission_name subject_text = do {
     (res_type, res_id) \<leftarrow> split_once (CHR '':'') resource_text;
     (sub_type, sub_id) \<leftarrow> split_once (CHR '':'') subject_text;
     Some \<lparr>check_consistency = Some \<lparr>requirement = Some (FullyConsistent True)\<rparr>,
           check_resource = Some \<lparr>object_type = res_type, object_id = res_id\<rparr>,
           permission = permission_name,
           check_subject = Some \<lparr>subject_object = Some \<lparr>object_type = sub_type, object_id = sub_id\<rparr>,
                                 optional_relation = []\<rparr>,
           check_context = None, with_tracing = False\<rparr> }"

definition touch_req :: "relationship list \<Rightarrow> (relationship, unit, unit) write_relationships_request" where
  "touch_req rs =
     \<lparr>updates = map (\<lambda>r. \<lparr>operation = operation_i32 Touch, relationship = Some r\<rparr>) rs,
      optional_preconditions = [], optional_transaction_metadata = None\<rparr>"

definition test_check_permission :: "test_step list option" where
  "test_check_permission = do {
     relationships \<leftarrow> those
       [test_rel ''document:readme'' ''reader'' ''user:alice'',
        test_rel ''document:readme'' ''writer'' ''user:bob''];
     q \<leftarrow> check_req ''document:readme'' ''read'' ''user:alice'';
     Some [Start_With_Schema TEST_SCHEMA relationships True, Expect_Check 0 q HasPermission] }"

definition test_ffi_spicedb :: "test_step list option" where
  "test_ffi_spicedb = do {
     relationships \<leftarrow> those
       [test_rel ''document:readme'' ''reader'' ''user:alice'',
        test_rel ''document:readme'' ''writer'' ''user:bob''];
     q1 \<leftarrow> check_req ''document:readme'' ''read'' ''user:alice'';
     q2 \<leftarrow> check_req ''document:readme'' ''write'' ''user:alice'';
     q3 \<leftarrow> check_req ''document:readme'' ''read'' ''user:bob'';
     q4 \<leftarrow> check_req ''document:readme'' ''write'' ''user:bob'';
     q5 \<leftarrow> check_req ''document:readme'' ''read'' ''user:charlie'';
     Some [Start_With_Schema TEST_SCHEMA relationships False,
           Expect_Check 0 q1 HasPermission, Expect_Check 0 q2 NoPermission, Expect_Check 0 q3 HasPermission,
           Expect_Check 0 q4 HasPermission, Expect_Check 0 q5 NoPermission] }"

definition test_add_relationship :: "test_step list option" where
  "test_add_relationship = do {
     r \<leftarrow> test_rel ''document:test'' ''reader'' ''user:alice'';
     q \<leftarrow> check_req ''document:test'' ''read'' ''user:alice'';
     Some [Start_With_Schema TEST_SCHEMA [] False, Write 0 (touch_req [r]), Expect_Check 0 q HasPermission] }"

definition test_parallel_instances :: "test_step list option" where
  "test_parallel_instances = do {
     r \<leftarrow> test_rel ''document:doc1'' ''reader'' ''user:alice'';
     q \<leftarrow> check_req ''document:doc1'' ''read'' ''user:alice'';
     Some [Start_With_Schema TEST_SCHEMA [] False, Start_With_Schema TEST_SCHEMA [] False,
           Write 0 (touch_req [r]), Expect_Check 0 q HasPermission, Expect_Check 1 q NoPermission] }"

definition test_every_unary_method_name_is_known :: "test_step list option" where
  "test_every_unary_method_name_is_known =
     Some (Start_With_Schema TEST_SCHEMA [] False # map (Known_Method 0)
       [CHECK_PERMISSION, WRITE_RELATIONSHIPS, DELETE_RELATIONSHIPS, CHECK_BULK_PERMISSIONS,
        EXPAND_PERMISSION_TREE, READ_SCHEMA, WRITE_SCHEMA])"

definition test_an_unknown_method_is_an_error :: "test_step list option" where
  "test_an_unknown_method_is_an_error =
     Some [Start_With_Schema TEST_SCHEMA [] False,
           Unknown_Method 0 ''/authzed.api.v1.Nope/Nope'' ''unsupported method: /authzed.api.v1.Nope/Nope'']"

text \<open>The performance tests.\<close>

definition perf_check_with_1000_relationships :: "test_step list option" where
  "perf_check_with_1000_relationships = do {
     relationships \<leftarrow> those (map (\<lambda>i. test_rel (''document:doc'' @ dec i) ''reader'' (''user:user'' @ dec (i mod 100)))
       [0..<1000]);
     warm_up \<leftarrow> check_req ''document:doc0'' ''read'' ''user:user0'';
     checks \<leftarrow> those (map (\<lambda>i. check_req (''document:doc'' @ dec (i mod 1000)) ''read'' (''user:user'' @ dec (i mod 100)))
       [0..<100]);
     Some (Start_With_Schema TEST_SCHEMA relationships False
       # replicate 10 (Try_Check 0 warm_up) @ map (Check 0) checks) }"

definition perf_add_individual_relationships :: "test_step list option" where
  "perf_add_individual_relationships = do {
     rels \<leftarrow> those (map (\<lambda>i. test_rel (''document:perf'' @ dec i) ''reader'' ''user:alice'') [0..<50]);
     Some (Start_With_Schema TEST_SCHEMA [] False # map (\<lambda>r. Write 0 (touch_req [r])) rels) }"

definition perf_bulk_write_relationships :: "test_step list option" where
  "perf_bulk_write_relationships = do {
     batches \<leftarrow> those (map (\<lambda>batch_size. those (map (\<lambda>i.
       test_rel (''document:bulk'' @ dec batch_size @ ''_'' @ dec i) ''reader'' ''user:alice'') [0..<batch_size]))
       [5, 10, 20, 50]);
     individual \<leftarrow> those (map (\<lambda>i. test_rel (''document:cmp_ind'' @ dec i) ''reader'' ''user:bob'') [0..<10]);
     bulk \<leftarrow> those (map (\<lambda>i. test_rel (''document:cmp_bulk'' @ dec i) ''reader'' ''user:bob'') [0..<10]);
     Some (Start_With_Schema TEST_SCHEMA [] False # map (\<lambda>rs. Write 0 (touch_req rs)) batches
       @ Start_With_Schema TEST_SCHEMA [] False # map (\<lambda>r. Write 1 (touch_req [r])) individual
       @ [Write 1 (touch_req bulk)]) }"

definition perf_embedded_50k_relationships :: "test_step list option" where
  "perf_embedded_50k_relationships = do {
     batches \<leftarrow> those (map (\<lambda>batch_num. those (map (\<lambda>i.
       test_rel (''document:doc'' @ dec i) ''reader'' (''user:user'' @ dec (i mod 1000)))
       [batch_num * 1000..<batch_num * 1000 + 1000])) [0..<50000 div 1000]);
     warm_up \<leftarrow> check_req ''document:doc0'' ''read'' ''user:user0'';
     checks \<leftarrow> those (map (\<lambda>i.
       check_req (''document:doc'' @ dec (i mod 50000)) ''read'' (''user:user'' @ dec (i mod 1000))) [0..<500]);
     negative \<leftarrow> those (map (\<lambda>i.
       check_req (''document:doc'' @ dec (i mod 50000)) ''read'' ''user:nonexistent'') [0..<500]);
     Some (Start_With_Schema TEST_SCHEMA [] False # map (\<lambda>rs. Write 0 (touch_req rs)) batches
       @ replicate 20 (Try_Check 0 warm_up) @ map (Check 0) checks @ map (Check 0) negative) }"

definition crate_tests :: "test_step list option list" where
  "crate_tests =
     [test_check_permission, test_ffi_spicedb, test_add_relationship, test_parallel_instances,
      test_every_unary_method_name_is_known, test_an_unknown_method_is_an_error,
      perf_check_with_1000_relationships, perf_add_individual_relationships,
      perf_bulk_write_relationships, perf_embedded_50k_relationships]"

section \<open>The tests of the trace context\<close>

text \<open>The span \<open>otel::attach\<close> makes current.\<close>

definition attached :: span_context where
  "attached =
     \<lparr>is_valid = True, trace_id = ''4bf92f3577b34da6a3ce929d0e0e4736'', span_id = ''00f067aa0ba902b7'',
      trace_flags = 1, trace_state = ''vendor=value''\<rparr>"

definition TRACEPARENT_VALUE :: string where
  "TRACEPARENT_VALUE = ''00-4bf92f3577b34da6a3ce929d0e0e4736-00f067aa0ba902b7-01''"

definition current_is_empty_without_a_span :: "bool \<Rightarrow> bool" where
  "current_is_empty_without_a_span otel \<longleftrightarrow> current otel no_span = trace_default"

definition interceptor_keeps_an_existing_traceparent :: "(string \<Rightarrow> bool) \<Rightarrow> bool \<Rightarrow> bool" where
  "interceptor_keeps_an_existing_traceparent valid otel \<longleftrightarrow>
     (let existing = ''00-'' @ replicate 32 CHR ''1'' @ ''-'' @ replicate 16 CHR ''2'' @ ''-01'';
          span = (if otel then attached else no_span)
      in valid existing \<and>
         (case (interceptor valid otel span \<lparr>metadata = [TRACEPARENT \<mapsto> [existing]], extensions = ()\<rparr>
             :: string + unit request) of
            Inl e \<Rightarrow> False
          | Inr q \<Rightarrow> metadata q TRACEPARENT = Some [existing] \<and> metadata q TRACESTATE = None))"

definition current_carries_the_current_span :: bool where
  "current_carries_the_current_span \<longleftrightarrow>
     current True attached = \<lparr>traceparent = Some TRACEPARENT_VALUE, tracestate = Some ''vendor=value''\<rparr>"

definition interceptor_adds_the_current_span :: "(string \<Rightarrow> bool) \<Rightarrow> bool" where
  "interceptor_adds_the_current_span valid \<longleftrightarrow>
     (case (interceptor valid True attached \<lparr>metadata = Map.empty, extensions = ()\<rparr> :: string + unit request) of
        Inl e \<Rightarrow> False
      | Inr q \<Rightarrow> metadata q TRACEPARENT = Some [TRACEPARENT_VALUE]
          \<and> metadata q TRACESTATE = Some [''vendor=value''])"

end
