(* ===== verification/Test_Facts.thy ===== *)
theory Test_Facts
  imports Crate_Tests
begin

text \<open>
  The unit tests of the crate hold: on a server that decides by schema and relationships no assertion
  of a script fails whose expectations are what the schema says, which those of the tests are.  The
  tests of the trace context hold outright.
\<close>

section \<open>What a script may expect\<close>

text \<open>
  The schema and relationships of every instance, as far as they are known, after a step that expects
  only what they say.
\<close>

type_synonym 'r known = "(string \<times> 'r set) option"

fun expect ::
    "(relationship \<Rightarrow> 'k) \<Rightarrow> relationship semantics \<Rightarrow> relationship known list \<Rightarrow> test_step \<Rightarrow>
     relationship known list option" where
  "expect key sem sts (Start_With_Schema schema rels lenient) = Some (sts @ [Some (schema, set rels)])"
| "expect key sem sts (Write i q) =
     (if i < length sts
      then Some (sts[i := if all_touch q
        then map_option (\<lambda>(schema, R). (schema, upsert key R (touched q))) (sts ! i) else None])
      else None)"
| "expect key sem sts (Expect_Check i q p) =
     (if i < length sts \<and> fully_consistent q \<and> map_option (\<lambda>(schema, R). sem schema R q) (sts ! i) = Some p
      then Some sts else None)"
| "expect key sem sts (Check i q) = (if i < length sts then Some sts else None)"
| "expect key sem sts (Try_Check i q) = (if i < length sts then Some sts else None)"
| "expect key sem sts (Known_Method i m) =
     (if i < length sts \<and> m \<in> set unary_methods then Some (sts[i := None]) else None)"
| "expect key sem sts (Unknown_Method i m text) =
     (if i < length sts \<and> utf8_valid m \<and> NUL \<notin> set m \<and> m \<notin> set unary_methods
         \<and> text = ''unsupported method: '' @ m
      then Some sts else None)"

fun expect_all where
  "expect_all key sem sts [] = True"
| "expect_all key sem sts (t # ts) =
     (case expect key sem sts t of None \<Rightarrow> False | Some sts' \<Rightarrow> expect_all key sem sts' ts)"

text \<open>The library starts an instance whenever asked to, and the server takes the requests of a step.\<close>

definition starts_well :: "('m, 'w) packages \<Rightarrow> (nat \<Rightarrow> bool) \<Rightarrow> serde \<Rightarrow> bool" where
  "starts_well P esc S \<longleftrightarrow>
     (\<forall>s. process_ok s \<longrightarrow> (\<exists>db s1. start (go_ffi P esc) S None s = Some (Inr db, s1)))"

fun accepts where
  "accepts P V esc S CS CR CC (Start_With_Schema schema rels lenient) \<longleftrightarrow> starts_well P esc S
     \<and> (schema \<noteq> [] \<longrightarrow> replies_to P V CS WRITE_SCHEMA \<lparr>schema_text = schema\<rparr>)
     \<and> (rels \<noteq> [] \<longrightarrow> replies_to P V CR WRITE_RELATIONSHIPS (bootstrap_updates rels))"
| "accepts P V esc S CS CR CC (Write i q) = replies_to P V CR WRITE_RELATIONSHIPS q"
| "accepts P V esc S CS CR CC (Expect_Check i q p) = replies_to P V CC CHECK_PERMISSION q"
| "accepts P V esc S CS CR CC (Check i q) = replies_to P V CC CHECK_PERMISSION q"
| "accepts P V esc S CS CR CC t = True"

fun is_start :: "test_step \<Rightarrow> bool" where
  "is_start (Start_With_Schema schema rels lenient) = True"
| "is_start t = False"

text \<open>No message of the server or the codec looks like the one for an unknown method.\<close>

definition clear_errors :: "('m, 'w) packages \<Rightarrow> ('m, 'w, 'd) service \<Rightarrow> (unit, 'u) codec \<Rightarrow> bool" where
  "clear_errors P V CU \<longleftrightarrow> length (encode CU ()) < 2 ^ 31
     \<and> (\<forall>ty bs e. unmarshal P ty bs = Inl e \<longrightarrow> \<not> prefix ''unsupported method'' (utf8_lossy (c_text e)))
     \<and> (\<forall>m q d e. fst (answer V m q d) = Inl e \<longrightarrow> \<not> prefix ''unsupported method'' (utf8_lossy (c_text e)))
     \<and> (\<forall>bs e. decode CU bs = Inl e \<longrightarrow> \<not> prefix ''unsupported method'' e)"

lemma marshal_error_clear: "\<not> prefix ''unsupported method'' (utf8_lossy (c_text (''failed to marshal response: '' @ e)))"
proof -
  have "\<exists>t. utf8_lossy (c_text (CHR ''f'' # e')) = CHR ''f'' # t" for e'
  proof -
    have "utf8_width CHR ''f'' = 1" by code_simp
    then show ?thesis by (simp add: c_text_def utf8_chunk_def)
  qed
  from this [of "''ailed to marshal response: '' @ e"] show ?thesis by auto
qed

lemma known_method_reply:
  assumes "clear_errors P V CU" and "m \<in> set unary_methods" and "fst (reply P V CU m () d) = Inl (RpcError e)"
  shows "\<not> prefix ''unsupported method'' e"
proof -
  from assms(2) rpc_lookup obtain rt pt where r: "map_of rpc_messages m = Some (rt, pt)" by fastforce
  note c = c_text_method [OF assms(2)]
  note clear = assms(1) [unfolded clear_errors_def]
  have u: "unmarshal P rt bs = Inl x \<Longrightarrow> \<not> prefix ''unsupported method'' (utf8_lossy (c_text x))" for bs x
    using clear [THEN conjunct2, THEN conjunct1] by blast
  have a: "answer V m q d = (Inl x, y) \<Longrightarrow> \<not> prefix ''unsupported method'' (utf8_lossy (c_text x))" for q x y
    using clear [THEN conjunct2, THEN conjunct2, THEN conjunct1, rule_format, of m q d x] by simp
  have k: "decode CU bs = Inl x \<Longrightarrow> \<not> prefix ''unsupported method'' x" for bs x
    using clear [THEN conjunct2, THEN conjunct2, THEN conjunct2] by blast
  have l: "\<not> 2 ^ 31 \<le> length (encode CU ())"
    using clear [THEN conjunct1] by simp
  from assms(3) l u a k marshal_error_clear show ?thesis
    by (auto simp: reply_def table_reply_def store_rpc_def c r Let_def map_err_def split: sum.splits prod.splits)
qed

section \<open>One step\<close>

definition matches :: "('d \<Rightarrow> string \<times> 'r set) \<Rightarrow> (u64 \<rightharpoonup> 'd) \<Rightarrow> embedded \<Rightarrow> 'r known \<Rightarrow> bool" where
  "matches view A db st \<longleftrightarrow> (\<exists>d. A (db_handle db) = Some d \<and> (\<forall>v. st = Some v \<longrightarrow> view d = v))"

definition follows ::
    "('m, 'w, 'd) service \<Rightarrow> ('d \<Rightarrow> string \<times> 'r set) \<Rightarrow> embedded list \<Rightarrow> 'r known list \<Rightarrow> 'w golib process \<Rightarrow> bool" where
  "follows V view dbs sts s \<longleftrightarrow> process_ok s \<and> handles_ok (lib s) \<and> distinct (map db_handle dbs)
     \<and> (\<exists>A. simulates V A (lib s) \<and> list_all2 (matches view A) dbs sts)"

abbreviation handles :: "embedded list \<Rightarrow> u64 set" where
  "handles dbs \<equiv> set (map db_handle dbs)"

lemma matches_other: "db_handle db \<noteq> h \<Longrightarrow> matches view A db st \<Longrightarrow> matches view (A(h \<mapsto> d)) db st"
  by (simp add: matches_def)

lemma matches_update:
  assumes "list_all2 (matches view A) dbs sts" and "distinct (map db_handle dbs)" and "i < length sts"
    and "\<forall>v. st = Some v \<longrightarrow> view d = v"
  shows "list_all2 (matches view (A(db_handle (dbs ! i) \<mapsto> d))) dbs (sts[i := st])"
proof (rule list_all2_all_nthI)
  from assms(1) have l: "length dbs = length sts" by (rule list_all2_lengthD)
  then show "length dbs = length (sts[i := st])" by simp
  fix k assume k: "k < length dbs"
  show "matches view (A(db_handle (dbs ! i) \<mapsto> d)) (dbs ! k) (sts[i := st] ! k)"
  proof (cases "k = i")
    case True
    with assms(3,4) show ?thesis by (simp add: matches_def)
  next
    case False
    with assms(2,3) k l have "db_handle (dbs ! k) \<noteq> db_handle (dbs ! i)" by (auto simp: distinct_conv_nth)
    with list_all2_nthD [OF assms(1) k] False show ?thesis by (simp add: matches_def)
  qed
qed

text \<open>What every call of a step leaves: the table and the heap.\<close>

definition undisturbed :: "'w golib process \<Rightarrow> 'w golib process \<Rightarrow> bool" where
  "undisturbed s s1 \<longleftrightarrow> balanced s s1 \<and> process_ok s1 \<and> instances (lib s1) = instances (lib s)
     \<and> next_id (lib s1) = next_id (lib s)"

lemma follows_call:
  assumes "follows V view dbs sts s" and "undisturbed s s1" and "i < length sts"
    and "\<And>A d. simulates V A (lib s) \<Longrightarrow> A (db_handle (dbs ! i)) = Some d \<Longrightarrow>
      \<forall>v. sts ! i = Some v \<longrightarrow> view d = v \<Longrightarrow>
      \<exists>d'. simulates V (A(db_handle (dbs ! i) \<mapsto> d')) (lib s1) \<and> (\<forall>v. st = Some v \<longrightarrow> view d' = v)"
  shows "follows V view dbs (sts[i := st]) s1"
proof -
  from assms(1) obtain A where A: "simulates V A (lib s)" "list_all2 (matches view A) dbs sts"
    by (auto simp: follows_def)
  from A(2) assms(3) have "matches view A (dbs ! i) (sts ! i)" by (metis list_all2_conv_all_nth)
  then obtain d where d: "A (db_handle (dbs ! i)) = Some d" "\<forall>v. sts ! i = Some v \<longrightarrow> view d = v"
    by (auto simp: matches_def)
  from assms(4) [OF A(1) d] obtain d' where
    d': "simulates V (A(db_handle (dbs ! i) \<mapsto> d')) (lib s1)" "\<forall>v. st = Some v \<longrightarrow> view d' = v" by blast
  from matches_update [OF A(2) _ assms(3) d'(2)] d'(1) assms(1,2) show ?thesis
    by (auto simp: follows_def undisturbed_def handles_ok_def)
qed

lemma follows_at:
  assumes "follows V view dbs sts s" and "i < length sts"
  obtains A d where "simulates V A (lib s)" and "A (db_handle (dbs ! i)) = Some d"
    and "\<forall>v. sts ! i = Some v \<longrightarrow> view d = v"
proof -
  from assms(1) obtain A where A: "simulates V A (lib s)" "list_all2 (matches view A) dbs sts"
    by (auto simp: follows_def)
  from A(2) assms(2) have "matches view A (dbs ! i) (sts ! i)" by (metis list_all2_conv_all_nth)
  with A(1) that show thesis by (auto simp: matches_def)
qed

text \<open>The client's calls, on the library.\<close>

lemma client_on_go:
  assumes "process_ok s" and "small_responses P" and "trace_c_ok (current otel span)"
  shows "\<exists>r s1. client_write_relationships (go_ffi P esc) otel span CR (permissions_client db) w s = Some (map_err db_err r, s1)
      \<and> lib_call P CR (db_handle db) WRITE_RELATIONSHIPS (current otel span) w (lib s) = (r, lib s1) \<and> undisturbed s s1"
    and "\<exists>r s1. client_check_permission (go_ffi P esc) otel span CC (permissions_client db) q s = Some (map_err db_err r, s1)
      \<and> lib_call P CC (db_handle db) CHECK_PERMISSION (current otel span) q (lib s) = (r, lib s1) \<and> undisturbed s s1"
proof -
  obtain r l where r: "lib_call P CR (db_handle db) WRITE_RELATIONSHIPS (current otel span) w (lib s) = (r, l)" by fastforce
  from call_on_go [OF assms(1,2) methods_no_NUL(2) assms(3) r, of esc] lib_call_frame [OF r] r
  show "\<exists>r s1. client_write_relationships (go_ffi P esc) otel span CR (permissions_client db) w s = Some (map_err db_err r, s1)
      \<and> lib_call P CR (db_handle db) WRITE_RELATIONSHIPS (current otel span) w (lib s) = (r, lib s1) \<and> undisturbed s s1"
    by (auto simp: client_write_relationships_def permissions_client_def undisturbed_def)
next
  obtain r l where r: "lib_call P CC (db_handle db) CHECK_PERMISSION (current otel span) q (lib s) = (r, l)" by fastforce
  from call_on_go [OF assms(1,2) methods_no_NUL(1) assms(3) r, of esc] lib_call_frame [OF r] r
  show "\<exists>r s1. client_check_permission (go_ffi P esc) otel span CC (permissions_client db) q s = Some (map_err db_err r, s1)
      \<and> lib_call P CC (db_handle db) CHECK_PERMISSION (current otel span) q (lib s) = (r, lib s1) \<and> undisturbed s s1"
    by (auto simp: client_check_permission_def permissions_client_def undisturbed_def)
qed

text \<open>A step that went well, and one that ended the test.\<close>

definition step_ok where
  "step_ok V view sts ok n dbs s x s1 \<longleftrightarrow> balanced s s1 \<and> process_ok s1 \<and>
     (case x of
        Inl e \<Rightarrow> e \<noteq> Assertion_Failed \<and> instances (lib s1) = instances (lib s) \<and> \<not> ok
      | Inr dbs' \<Rightarrow> follows V view dbs' sts s1 \<and> next_id (lib s1) = next_id (lib s) + n
          \<and> instances (lib s1) |` (- handles dbs') = instances (lib s) |` (- handles dbs))"

lemma step_called:
  "undisturbed s s1 \<Longrightarrow> follows V view dbs sts s1 \<Longrightarrow> step_ok V view sts ok 0 dbs s (Inr dbs) s1"
  by (simp add: step_ok_def undisturbed_def)

lemma step_panicked: "undisturbed s s1 \<Longrightarrow> \<not> ok \<Longrightarrow> step_ok V view sts ok n dbs s (Inl (Panicked e)) s1"
  by (simp add: step_ok_def undisturbed_def)

lemma start_holds:
  assumes "isolates P V" and "authorizes P V CS CR CC key sem view" and "serde_ok S" and "small_responses P"
    and f: "follows V view dbs sts s" and id_left: "next_id (lib s) \<noteq> - 1"
  shows "\<exists>x s1. run_step (go_ffi P esc) S CS CR CC CU otel span dbs (Start_With_Schema schema rels lenient) s = Some (x, s1)
    \<and> step_ok V view (sts @ [Some (schema, set rels)])
        (accepts P V esc S CS CR CC (Start_With_Schema schema rels lenient)) 1 dbs s x s1"
proof -
  from f obtain A where ok: "process_ok s" and h: "handles_ok (lib s)" and sim: "simulates V A (lib s)"
    and m: "list_all2 (matches view A) dbs sts" and d: "distinct (map db_handle dbs)" by (auto simp: follows_def)
  obtain r s1 where run: "start_with_schema (go_ffi P esc) S CS CR schema rels None s = Some (r, s1)"
    and s1: "balanced s s1" "process_ok s1"
    and i: "case r of Inl e \<Rightarrow> instances (lib s1) = instances (lib s)
      | Inr db \<Rightarrow> db_handle db \<notin> dom (instances (lib s))
          \<and> (\<exists>i. instances (lib s1) = (instances (lib s))(db_handle db \<mapsto> i))"
    by (rule start_with_schema_outcome [OF ok assms(3) default_options_in_process(1) assms(4) h id_left,
      of esc CS CR schema rels])
  show ?thesis
  proof (cases r)
    case (Inl e)
    have "\<not> accepts P V esc S CS CR CC (Start_With_Schema schema rels lenient)"
    proof
      assume a: "accepts P V esc S CS CR CC (Start_With_Schema schema rels lenient)"
      then obtain db s0 where "start (go_ffi P esc) S None s = Some (Inr db, s0)"
        using ok by (auto simp: starts_well_def)
      from bootstrap_goes_through [OF assms(1,3,4) ok h id_left sim this, of schema CS rels CR] a run Inl
      show False by auto
    qed
    with run Inl s1 i show ?thesis by (simp add: step_ok_def)
  next
    case (Inr db)
    from bootstrapped_store [OF assms(1-4) ok h id_left sim default_options_in_process(2) run [unfolded Inr]]
    obtain e where e: "simulates V (A(db_handle db \<mapsto> e)) (lib s1)" "view e = (schema, set rels)"
      "A (db_handle db) = None" by blast
    from bootstrapped_ids [OF assms(3,4) ok default_options_in_process(1) run [unfolded Inr]]
    have n: "db_handle db = next_id (lib s) + 1" "next_id (lib s1) = next_id (lib s) + 1" by simp_all
    have new: "db_handle db \<notin> handles dbs"
    proof
      assume "db_handle db \<in> handles dbs"
      then obtain k where "k < length dbs" "db_handle (dbs ! k) = db_handle db" by (auto simp: in_set_conv_nth)
      with m e(3) show False by (auto simp: matches_def dest!: list_all2_nthD)
    qed
    have "db_handle b \<noteq> db_handle db" if "b \<in> set dbs" for b using new that by (metis image_eqI list.set_map)
    then have "list_all2 (matches view (A(db_handle db \<mapsto> e))) dbs sts"
      using m by (blast intro: list.rel_mono_strong matches_other)
    then have "list_all2 (matches view (A(db_handle db \<mapsto> e))) (dbs @ [db]) (sts @ [Some (schema, set rels)])"
      using e(2) by (intro list_all2_appendI) (simp_all add: matches_def)
    moreover have "handles_ok (lib s1)"
      using handles_ok_step [OF h, of "lib s1"] i Inr n next_handle_free(2) [OF h id_left, THEN less_imp_le] by auto
    ultimately have "follows V view (dbs @ [db]) (sts @ [Some (schema, set rels)]) s1"
      using e(1) s1(2) d new by (auto simp: follows_def)
    moreover have "instances (lib s1) |` (- handles (dbs @ [db])) = instances (lib s) |` (- handles dbs)"
      using i Inr new by (auto simp: restrict_map_def fun_eq_iff domIff)
    ultimately show ?thesis using run Inr s1 n(2) by (simp add: step_ok_def)
  qed
qed

lemma write_holds:
  assumes "isolates P V" and "authorizes P V CS CR CC key sem view" and "small_responses P"
    and "trace_c_ok (current otel span)" and f: "follows V view dbs sts s"
    and e: "expect key sem sts (Write i q) = Some sts'"
  shows "\<exists>x s1. run_step (go_ffi P esc) S CS CR CC CU otel span dbs (Write i q) s = Some (x, s1)
    \<and> step_ok V view sts' (accepts P V esc S CS CR CC (Write i q)) 0 dbs s x s1"
proof -
  from f have ok: "process_ok s" by (simp add: follows_def)
  from e have i: "i < length sts" by (simp split: if_splits)
  obtain r s1 where c: "client_write_relationships (go_ffi P esc) otel span CR (permissions_client (dbs ! i)) q s
      = Some (map_err db_err r, s1)"
    and r: "lib_call P CR (db_handle (dbs ! i)) WRITE_RELATIONSHIPS (current otel span) q (lib s) = (r, lib s1)"
    and u: "undisturbed s s1"
    using client_on_go(1) [OF ok assms(3,4), of esc CR "dbs ! i" q] by blast
  show ?thesis
  proof (cases r)
    case (Inl y)
    obtain A d where "simulates V A (lib s)" "A (db_handle (dbs ! i)) = Some d" by (rule follows_at [OF f i])
    from call_replied [OF assms(1) this r] Inl have "\<not> accepts P V esc S CS CR CC (Write i q)" by auto
    with c Inl step_panicked [OF u] show ?thesis by simp
  next
    case (Inr a)
    have "follows V view dbs sts' s1"
    proof (cases "all_touch q")
      case True
      with e i have sts': "sts' = sts[i := map_option (\<lambda>(schema, R). (schema, upsert key R (touched q))) (sts ! i)]" by simp
      show ?thesis unfolding sts'
        by (rule follows_call [OF f u i])
          (use write_on_store [OF assms(1,2) _ _ r] True Inr in \<open>fastforce\<close>)
    next
      case False
      with e i have sts': "sts' = sts[i := None]" by simp
      show ?thesis unfolding sts'
        by (rule follows_call [OF f u i]) (use write_on_store [OF assms(1,2) _ _ r] in \<open>fastforce\<close>)
    qed
    with c Inr step_called [OF u] show ?thesis by simp
  qed
qed

lemma follows_checked:
  assumes "isolates P V" and "authorizes P V CS CR CC key sem view" and f: "follows V view dbs sts s"
    and u: "undisturbed s s1" and i: "i < length sts"
    and r: "lib_call P CC (db_handle (dbs ! i)) CHECK_PERMISSION tr q (lib s) = (r, lib s1)"
  shows "follows V view dbs sts s1"
    and "r = Inr a \<Longrightarrow> fully_consistent q \<Longrightarrow> sts ! i = Some (schema, R) \<Longrightarrow>
      response_permissionship a = permissionship_i32 (sem schema R q)"
    and "replies_to P V CC CHECK_PERMISSION q \<Longrightarrow> \<exists>a. r = Inr a"
proof -
  obtain A d where A: "simulates V A (lib s)" "A (db_handle (dbs ! i)) = Some d"
    and v: "\<forall>v. sts ! i = Some v \<longrightarrow> view d = v" by (rule follows_at [OF f i])
  have "follows V view dbs (sts[i := sts ! i]) s1"
    by (rule follows_call [OF f u i]) (use check_on_store [OF assms(1,2) _ _ r] in \<open>fastforce\<close>)
  then show "follows V view dbs sts s1" by simp
  show "r = Inr a \<Longrightarrow> fully_consistent q \<Longrightarrow> sts ! i = Some (schema, R) \<Longrightarrow>
      response_permissionship a = permissionship_i32 (sem schema R q)"
    using check_on_store [OF assms(1,2) A r] v by fastforce
  show "replies_to P V CC CHECK_PERMISSION q \<Longrightarrow> \<exists>a. r = Inr a"
    by (rule call_replied [OF assms(1) A r])
qed

lemma check_holds:
  assumes "isolates P V" and "authorizes P V CS CR CC key sem view" and "small_responses P"
    and "trace_c_ok (current otel span)" and f: "follows V view dbs sts s"
    and e: "expect key sem sts t = Some sts'"
    and t: "(\<exists>p. t = Expect_Check i q p) \<or> t = Check i q \<or> t = Try_Check i q"
  shows "\<exists>x s1. run_step (go_ffi P esc) S CS CR CC CU otel span dbs t s = Some (x, s1)
    \<and> step_ok V view sts' (accepts P V esc S CS CR CC t) 0 dbs s x s1"
proof -
  from f have ok: "process_ok s" by (simp add: follows_def)
  from e t have i: "i < length sts" and sts': "sts' = sts" by (auto split: if_splits)
  obtain r s1 where c: "client_check_permission (go_ffi P esc) otel span CC (permissions_client (dbs ! i)) q s
      = Some (map_err db_err r, s1)"
    and r: "lib_call P CC (db_handle (dbs ! i)) CHECK_PERMISSION (current otel span) q (lib s) = (r, lib s1)"
    and u: "undisturbed s s1"
    using client_on_go(2) [OF ok assms(3,4), of esc CC "dbs ! i" q] by blast
  note checked = follows_checked [OF assms(1,2) f u i r]
  note called = step_called [OF u checked(1)]
  from t show ?thesis
  proof (elim disjE exE)
    fix p assume t: "t = Expect_Check i q p"
    show ?thesis
    proof (cases r)
      case (Inl y)
      with checked(3) have "\<not> replies_to P V CC CHECK_PERMISSION q" by auto
      from c Inl step_panicked [OF u this] show ?thesis by (simp add: t)
    next
      case (Inr a)
      from e obtain schema R where "fully_consistent q" "sts ! i = Some (schema, R)" "sem schema R q = p"
        by (auto simp: t split: if_splits)
      with checked(2) [OF Inr] have "response_permissionship a = permissionship_i32 p" by simp
      with c Inr called show ?thesis by (simp add: t sts')
    qed
  next
    assume t: "t = Check i q"
    show ?thesis
    proof (cases r)
      case (Inl y)
      with checked(3) have "\<not> replies_to P V CC CHECK_PERMISSION q" by auto
      from c Inl step_panicked [OF u this] show ?thesis by (simp add: t)
    next
      case (Inr a)
      with c called show ?thesis by (simp add: t sts')
    qed
  next
    assume "t = Try_Check i q"
    with c called show ?thesis by (simp add: sts')
  qed
qed

lemma known_holds:
  assumes "isolates P V" and "small_responses P" and "clear_errors P V CU" and f: "follows V view dbs sts s"
    and e: "expect key sem sts (Known_Method i m) = Some sts'"
  shows "\<exists>x s1. run_step (go_ffi P esc) S CS CR CC CU otel span dbs (Known_Method i m) s = Some (x, s1)
    \<and> step_ok V view sts' ok 0 dbs s x s1"
proof -
  from f have p: "process_ok s" by (simp add: follows_def)
  from e have i: "i < length sts" and sts': "sts' = sts[i := None]" and m: "m \<in> set unary_methods"
    by (auto split: if_splits)
  obtain r l where r: "lib_call P CU (db_handle (dbs ! i)) m trace_default () (lib s) = (r, l)" by fastforce
  obtain s1 where s1: "transport_call (go_ffi P esc) CU (db_handle (dbs ! i)) m trace_default () s = Some (r, s1)"
    "balanced s s1" "process_ok s1" "lib s1 = l"
    by (rule transport_on_go [OF p assms(2) method_no_NUL [OF m] trace_default_ok r])
  with lib_call_frame [OF r] have u: "undisturbed s s1" by (simp add: undisturbed_def)
  have "follows V view dbs sts' s1" unfolding sts'
    by (rule follows_call [OF f u i]) (use lib_call_reply [OF assms(1) _ r] s1(4) in \<open>fastforce\<close>)
  note called = step_called [OF u this]
  obtain A d where A: "simulates V A (lib s)" "A (db_handle (dbs ! i)) = Some d" by (rule follows_at [OF f i])
  from lib_call_reply [OF assms(1) A(1) r A(2)] have "r = fst (reply P V CU m () d)" by simp
  with known_method_reply [OF assms(3) m, of d] have "\<not> prefix ''unsupported method'' x" if "r = Inl (RpcError x)" for x
    using that by simp
  with s1(1) called show ?thesis by (cases r) (auto split: rpc_error.split)
qed

lemma unknown_holds:
  assumes "small_responses P" and "length (encode CU ()) < 2 ^ 31" and f: "follows V view dbs sts s"
    and e: "expect key sem sts (Unknown_Method i m text) = Some sts'"
  shows "\<exists>x s1. run_step (go_ffi P esc) S CS CR CC CU otel span dbs (Unknown_Method i m text) s = Some (x, s1)
    \<and> step_ok V view sts' ok 0 dbs s x s1"
proof -
  from f have p: "process_ok s" by (simp add: follows_def)
  from e have m: "utf8_valid m" "NUL \<notin> set m" "m \<notin> set unary_methods" and sts': "sts' = sts"
    and msg: "text = ''unsupported method: '' @ m" by (auto split: if_splits)
  have "c_safe text" unfolding msg
    using m(1,2) by (intro c_safe_append) (auto simp: c_safe_def utf8_valid_ascii)
  then have "utf8_lossy (c_text text) = text" by (rule c_safe_crosses)
  then have r: "lib_call P CU (db_handle (dbs ! i)) m trace_default () (lib s) = (Inl (RpcError text), lib s)"
    using m(3) assms(2) rpc_lookup [of m] msg
    by (simp only: lib_call_def go_rpc_def Let_def c_text_id [OF m(2)]) auto
  obtain s1 where s1: "transport_call (go_ffi P esc) CU (db_handle (dbs ! i)) m trace_default () s
      = Some (Inl (RpcError text), s1)" "balanced s s1" "process_ok s1" "lib s1 = lib s"
    by (rule transport_on_go [OF p assms(1) m(2) trace_default_ok r])
  then have u: "undisturbed s s1" by (simp add: undisturbed_def)
  from f s1(3,4) have "follows V view dbs sts s1" by (simp add: follows_def)
  from step_called [OF u this] s1(1) sts' show ?thesis by simp
qed

section \<open>Whole scripts\<close>

lemma finish_holds:
  assumes "process_ok s"
  shows "\<exists>s'. finish (go_ffi P esc) e dbs s = Some (e, s') \<and> balanced s s'
    \<and> instances (lib s') = instances (lib s) |` (- handles dbs)"
  using assms
proof (induction dbs arbitrary: s rule: rev_induct)
  case Nil
  then show ?case by (auto simp: finish_def process_ok_def)
next
  case (snoc db dbs)
  obtain s1 where d: "drop_db (go_ffi P esc) db s = Some s1" "balanced s s1" "process_ok s1"
    "instances (lib s1) = (instances (lib s))(db_handle db := None)"
    by (rule drop_outcome [OF snoc.prems, of P esc db])
  from snoc.IH [OF d(3)] obtain s' where s': "finish (go_ffi P esc) e dbs s1 = Some (e, s')" "balanced s1 s'"
    "instances (lib s') = instances (lib s1) |` (- handles dbs)" by blast
  have "instances (lib s') = instances (lib s) |` (- handles (dbs @ [db]))"
    using s'(3) d(4) by (auto simp: restrict_map_def fun_eq_iff)
  with s' d(1,2) show ?case by (auto simp: finish_def intro: balanced_trans)
qed

lemma step_holds:
  assumes "isolates P V" and "authorizes P V CS CR CC key sem view" and "serde_ok S" and "small_responses P"
    and "trace_c_ok (current otel span)" and "clear_errors P V CU" and "follows V view dbs sts s"
    and "is_start t \<Longrightarrow> next_id (lib s) \<noteq> - 1" and "expect key sem sts t = Some sts'"
  shows "\<exists>x s1. run_step (go_ffi P esc) S CS CR CC CU otel span dbs t s = Some (x, s1)
    \<and> step_ok V view sts' (accepts P V esc S CS CR CC t) (if is_start t then 1 else 0) dbs s x s1"
proof (cases t)
  case (Start_With_Schema schema rels lenient)
  with assms(8,9) have n: "next_id (lib s) \<noteq> - 1" and sts': "sts' = sts @ [Some (schema, set rels)]" by simp_all
  show ?thesis unfolding Start_With_Schema sts' is_start.simps if_True
    by (rule start_holds [OF assms(1-4,7) n])
next
  case (Write i q)
  show ?thesis unfolding Write is_start.simps if_False
    by (rule write_holds [OF assms(1,2,4,5,7) assms(9) [unfolded Write]])
next
  case (Expect_Check i q p)
  show ?thesis unfolding Expect_Check is_start.simps if_False
    by (rule check_holds [OF assms(1,2,4,5,7) assms(9) [unfolded Expect_Check], of i q]) simp
next
  case (Check i q)
  show ?thesis unfolding Check is_start.simps if_False
    by (rule check_holds [OF assms(1,2,4,5,7) assms(9) [unfolded Check], of i q]) simp
next
  case (Try_Check i q)
  show ?thesis unfolding Try_Check is_start.simps if_False
    by (rule check_holds [OF assms(1,2,4,5,7) assms(9) [unfolded Try_Check], of i q]) simp
next
  case (Known_Method i m)
  show ?thesis unfolding Known_Method is_start.simps if_False
    by (rule known_holds [OF assms(1,4,6,7) assms(9) [unfolded Known_Method]])
next
  case (Unknown_Method i m msg)
  from assms(6) have l: "length (encode CU ()) < 2 ^ 31" by (simp add: clear_errors_def)
  show ?thesis unfolding Unknown_Method is_start.simps if_False
    by (rule unknown_holds [OF assms(4) l assms(7) assms(9) [unfolded Unknown_Method]])
qed

lemma next_id_bound:
  assumes "unat (n :: u64) + Suc k < 2 ^ 64"
  shows "n \<noteq> - 1" and "unat (n + 1) + k < 2 ^ 64"
proof -
  have "unat (- 1 :: u64) = 2 ^ 64 - 1" by (simp add: unsigned_minus_1_eq_mask mask_eq_exp_minus_1)
  with assms show "n \<noteq> - 1" by auto
  have "unat (n + 1) \<le> unat n + 1" by (simp add: unat_word_ariths)
  with assms show "unat (n + 1) + k < 2 ^ 64" by simp
qed

lemma run_test_holds:
  assumes "isolates P V" and "authorizes P V CS CR CC key sem view" and "serde_ok S" and "small_responses P"
    and "trace_c_ok (current otel span)" and "clear_errors P V CU" and "follows V view dbs sts s"
    and "unat (next_id (lib s)) + length (filter is_start ts) < 2 ^ 64" and "expect_all key sem sts ts"
  shows "\<exists>e s'. run_test (go_ffi P esc) S CS CR CC CU otel span dbs ts s = Some (e, s')
    \<and> e \<noteq> Assertion_Failed \<and> (list_all (accepts P V esc S CS CR CC) ts \<longrightarrow> e = Passed)
    \<and> balanced s s' \<and> instances (lib s') = instances (lib s) |` (- handles dbs)"
  using assms(7-9)
proof (induction ts arbitrary: dbs sts s)
  case Nil
  then have "process_ok s" by (simp add: follows_def)
  from finish_holds [OF this, of P esc Passed dbs] show ?case by auto
next
  case (Cons t ts)
  from Cons.prems(3) obtain sts' where e: "expect key sem sts t = Some sts'" "expect_all key sem sts' ts"
    by (auto split: option.splits)
  have left: "is_start t \<Longrightarrow> next_id (lib s) \<noteq> - 1"
    using Cons.prems(2) by (intro next_id_bound(1) [of _ "length (filter is_start ts)"]) simp
  from step_holds [OF assms(1-6) Cons.prems(1) left e(1)] obtain x s1 where
    x: "run_step (go_ffi P esc) S CS CR CC CU otel span dbs t s = Some (x, s1)"
    and ok: "step_ok V view sts' (accepts P V esc S CS CR CC t) (if is_start t then 1 else 0) dbs s x s1" by blast
  from ok have b: "balanced s s1" "process_ok s1" by (simp_all add: step_ok_def)
  show ?case
  proof (cases x)
    case (Inl y)
    from finish_holds [OF b(2), of P esc y dbs] x ok Inl b(1) show ?thesis
      by (auto simp: step_ok_def intro: balanced_trans)
  next
    case (Inr dbs')
    with ok have f: "follows V view dbs' sts' s1"
      and n: "next_id (lib s1) = next_id (lib s) + (if is_start t then 1 else 0)"
      and i: "instances (lib s1) |` (- handles dbs') = instances (lib s) |` (- handles dbs)"
      by (simp_all add: step_ok_def)
    have "unat (next_id (lib s1)) + length (filter is_start ts) < 2 ^ 64"
      using Cons.prems(2) next_id_bound(2) [of "next_id (lib s)" "length (filter is_start ts)"]
      by (cases "is_start t") (simp_all add: n)
    from Cons.IH [OF f this e(2)] x Inr b(1) i show ?thesis by (auto intro: balanced_trans)
  qed
qed

section \<open>The scripts of the crate\<close>

text \<open>What the schema of the tests says, of relationships without caveats and expiration.\<close>

definition granted :: "relationship set \<Rightarrow> check_permission_request \<Rightarrow> string \<Rightarrow> bool" where
  "granted R q name \<longleftrightarrow> (\<exists>r\<in>R. resource r = check_resource q \<and> relation r = name \<and> subject r = check_subject q)"

definition reads_test_schema :: "relationship semantics \<Rightarrow> bool" where
  "reads_test_schema sem \<longleftrightarrow> (\<forall>R q. plain R \<longrightarrow>
     (permission q = ''read'' \<longrightarrow>
        sem TEST_SCHEMA R q = (if granted R q ''reader'' \<or> granted R q ''writer'' then HasPermission else NoPermission))
   \<and> (permission q = ''write'' \<longrightarrow>
        sem TEST_SCHEMA R q = (if granted R q ''writer'' then HasPermission else NoPermission)))"

definition doc_rel :: "string \<Rightarrow> string \<Rightarrow> string \<Rightarrow> relationship" where
  "doc_rel doc name user =
     \<lparr>resource = Some \<lparr>object_type = ''document'', object_id = doc\<rparr>, relation = name,
      subject = Some \<lparr>subject_object = Some \<lparr>object_type = ''user'', object_id = user\<rparr>, optional_relation = []\<rparr>,
      optional_caveat = None, optional_expires_at = None\<rparr>"

definition doc_check :: "string \<Rightarrow> string \<Rightarrow> string \<Rightarrow> check_permission_request" where
  "doc_check doc name user =
     \<lparr>check_consistency = Some \<lparr>requirement = Some (FullyConsistent True)\<rparr>,
      check_resource = Some \<lparr>object_type = ''document'', object_id = doc\<rparr>, permission = name,
      check_subject = Some \<lparr>subject_object = Some \<lparr>object_type = ''user'', object_id = user\<rparr>, optional_relation = []\<rparr>,
      check_context = None, with_tracing = False\<rparr>"

lemma colon_parts:
  "split_once CHR '':'' (''document:'' @ x) = Some (''document'', x)"
  "split_once CHR '':'' (''user:'' @ x) = Some (''user'', x)"
  by simp_all

lemma test_rel_eq: "test_rel (''document:'' @ x) name (''user:'' @ y) = Some (doc_rel x name y)"
  unfolding test_rel_def doc_rel_def colon_parts by simp

lemma check_req_eq: "check_req (''document:'' @ x) name (''user:'' @ y) = Some (doc_check x name y)"
  unfolding check_req_def doc_check_def colon_parts by simp

lemma those_Some: "those (map (\<lambda>i. Some (f i)) xs) = Some (map f xs)"
  by (induction xs) simp_all

lemma doc_check_consistent: "fully_consistent (doc_check doc name user)"
  by (simp add: fully_consistent_def doc_check_def)

lemma granted_doc [simp]:
  "granted {} (doc_check d n u) name = False"
  "granted (insert (doc_rel d' m u') R) (doc_check d n u) name
    = (d' = d \<and> m = name \<and> u' = u \<or> granted R (doc_check d n u) name)"
  by (auto simp: granted_def doc_check_def doc_rel_def)

lemma plain_doc [simp]: "plain {}" "plain (insert (doc_rel d n u) R) = plain R"
  by (auto simp: plain_def doc_rel_def)

lemma reads_doc:
  assumes "reads_test_schema sem" and "plain R"
  shows "sem TEST_SCHEMA R (doc_check d ''read'' u)
      = (if granted R (doc_check d ''read'' u) ''reader'' \<or> granted R (doc_check d ''read'' u) ''writer''
         then HasPermission else NoPermission)"
    and "sem TEST_SCHEMA R (doc_check d ''write'' u)
      = (if granted R (doc_check d ''write'' u) ''writer'' then HasPermission else NoPermission)"
  using assms by (simp_all add: reads_test_schema_def doc_check_def)

lemma touch_req_known [simp]: "all_touch (touch_req rs)" "touched (touch_req rs) = set rs"
  by (auto simp: touch_req_def all_touch_def touched_def list_all_iff image_image)

text \<open>Steps that expect nothing of the store.\<close>

fun loose :: "nat \<Rightarrow> test_step \<Rightarrow> bool" where
  "loose n (Write i q) = (i < n)"
| "loose n (Check i q) = (i < n)"
| "loose n (Try_Check i q) = (i < n)"
| "loose n t = False"

lemma expect_loose:
  assumes "list_all (loose n) ts" and "n \<le> length sts"
    and "\<And>sts'. length sts' = length sts \<Longrightarrow> expect_all key sem sts' us"
  shows "expect_all key sem sts (ts @ us)"
  using assms
proof (induction ts arbitrary: sts)
  case (Cons t ts)
  from Cons.prems(1,2) obtain sts' where "expect key sem sts t = Some sts'" "length sts' = length sts"
    by (cases t) auto
  with Cons.IH [of sts'] Cons.prems show ?case by simp
qed simp

definition sound_test :: "(relationship \<Rightarrow> 'k) \<Rightarrow> relationship semantics \<Rightarrow> test_step list option \<Rightarrow> bool" where
  "sound_test key sem t \<longleftrightarrow>
     (\<exists>steps. t = Some steps \<and> length (filter is_start steps) \<le> 2 \<and> expect_all key sem [] steps)"

lemma sound_Some: "sound_test key sem (Some steps) \<longleftrightarrow>
    length (filter is_start steps) \<le> 2 \<and> expect_all key sem [] steps"
  by (simp add: sound_test_def)

lemmas doc_texts = test_rel_eq [simplified] check_req_eq [simplified]

lemma tests_as_scripts:
  "test_check_permission = Some [Start_With_Schema TEST_SCHEMA
     [doc_rel ''readme'' ''reader'' ''alice'', doc_rel ''readme'' ''writer'' ''bob''] True,
     Expect_Check 0 (doc_check ''readme'' ''read'' ''alice'') HasPermission]"
  "test_ffi_spicedb = Some [Start_With_Schema TEST_SCHEMA
     [doc_rel ''readme'' ''reader'' ''alice'', doc_rel ''readme'' ''writer'' ''bob''] False,
     Expect_Check 0 (doc_check ''readme'' ''read'' ''alice'') HasPermission,
     Expect_Check 0 (doc_check ''readme'' ''write'' ''alice'') NoPermission,
     Expect_Check 0 (doc_check ''readme'' ''read'' ''bob'') HasPermission,
     Expect_Check 0 (doc_check ''readme'' ''write'' ''bob'') HasPermission,
     Expect_Check 0 (doc_check ''readme'' ''read'' ''charlie'') NoPermission]"
  "test_add_relationship = Some [Start_With_Schema TEST_SCHEMA [] False,
     Write 0 (touch_req [doc_rel ''test'' ''reader'' ''alice'']),
     Expect_Check 0 (doc_check ''test'' ''read'' ''alice'') HasPermission]"
  "test_parallel_instances = Some [Start_With_Schema TEST_SCHEMA [] False, Start_With_Schema TEST_SCHEMA [] False,
     Write 0 (touch_req [doc_rel ''doc1'' ''reader'' ''alice'']),
     Expect_Check 0 (doc_check ''doc1'' ''read'' ''alice'') HasPermission,
     Expect_Check 1 (doc_check ''doc1'' ''read'' ''alice'') NoPermission]"
  by (simp_all add: test_check_permission_def test_ffi_spicedb_def test_add_relationship_def
    test_parallel_instances_def doc_texts)

lemma checks_sound:
  assumes "reads_test_schema sem"
  shows "sound_test key sem test_check_permission" and "sound_test key sem test_ffi_spicedb"
    and "sound_test key sem test_add_relationship" and "sound_test key sem test_parallel_instances"
  by (simp_all add: tests_as_scripts sound_Some doc_check_consistent reads_doc [OF assms])

lemma methods_sound:
  "sound_test key sem test_every_unary_method_name_is_known"
  "sound_test key sem test_an_unknown_method_is_an_error"
proof -
  show "sound_test key sem test_every_unary_method_name_is_known"
    by (simp add: test_every_unary_method_name_is_known_def sound_Some unary_methods_def)
  have "utf8_valid ''/authzed.api.v1.Nope/Nope''" by code_simp
  then show "sound_test key sem test_an_unknown_method_is_an_error"
    by (simp add: test_an_unknown_method_is_an_error_def sound_Some unary_methods_def method_defs)
qed

text \<open>The performance tests expect nothing.\<close>

lemma no_starts: "list_all (loose n) ts \<Longrightarrow> filter is_start ts = []"
proof (induction ts)
  case (Cons t ts)
  then show ?case by (cases t) simp_all
qed simp

lemma loose_sound:
  assumes "list_all (loose 1) ts"
  shows "sound_test key sem (Some (Start_With_Schema schema rels lenient # ts))"
  using expect_loose [OF assms, of _ key sem "[]"] no_starts [OF assms] by (simp add: sound_Some)

lemma loose_steps:
  "0 < n \<Longrightarrow> list_all (loose n) (map (Check 0) qs)" "0 < n \<Longrightarrow> list_all (loose n) (replicate k (Try_Check 0 q))"
  "i < n \<Longrightarrow> list_all (loose n) (map (\<lambda>x. Write i (f x)) xs)"
  by (simp_all add: list_all_iff)

lemma doc_text: "''document:doc'' @ x = ''document:'' @ (''doc'' @ x)" "''document:perf'' @ x = ''document:'' @ (''perf'' @ x)"
  "''document:bulk'' @ x = ''document:'' @ (''bulk'' @ x)" "''document:cmp_ind'' @ x = ''document:'' @ (''cmp_ind'' @ x)"
  "''document:cmp_bulk'' @ x = ''document:'' @ (''cmp_bulk'' @ x)" "''document:doc0'' = ''document:'' @ ''doc0''"
  "''user:user'' @ x = ''user:'' @ (''user'' @ x)" "''user:user0'' = ''user:'' @ ''user0''"
  "''user:alice'' = ''user:'' @ ''alice''" "''user:bob'' = ''user:'' @ ''bob''"
  "''user:nonexistent'' = ''user:'' @ ''nonexistent''"
  by simp_all

lemmas perf_simps = doc_text test_rel_eq check_req_eq those_Some Option.bind.simps

lemma perf_sound:
  "sound_test key sem perf_check_with_1000_relationships"
  "sound_test key sem perf_add_individual_relationships"
  "sound_test key sem perf_embedded_50k_relationships"
  unfolding perf_check_with_1000_relationships_def perf_add_individual_relationships_def
    perf_embedded_50k_relationships_def
  by (simp_all only: perf_simps, (intro loose_sound; simp only: list_all_append loose_steps less_numeral_extra simp_thms)+)

lemma perf_bulk_sound: "sound_test key sem perf_bulk_write_relationships"
proof -
  have "sound_test key sem (Some (Start_With_Schema s1 r1 b1 # map (\<lambda>rs. Write 0 (touch_req rs)) xs
      @ Start_With_Schema s2 r2 b2 # map (\<lambda>r. Write 1 (touch_req [r])) ys @ [Write 1 q]))"
    for s1 r1 b1 s2 r2 b2 xs ys q
  proof -
    have l: "list_all (loose 1) (map (\<lambda>rs. Write 0 (touch_req rs)) xs)"
      "list_all (loose 2) (map (\<lambda>r. Write 1 (touch_req [r])) ys @ [Write 1 q])" by (simp_all add: list_all_iff)
    have "expect_all key sem sts (map (\<lambda>r. Write 1 (touch_req [r])) ys @ [Write 1 q])" if "length sts = 2" for sts
      using expect_loose [OF l(2), of sts key sem "[]"] that by simp
    then have "expect_all key sem [] (Start_With_Schema s1 r1 b1 # map (\<lambda>rs. Write 0 (touch_req rs)) xs
      @ Start_With_Schema s2 r2 b2 # map (\<lambda>r. Write 1 (touch_req [r])) ys @ [Write 1 q])"
      by (simp, intro expect_loose [OF l(1)]) simp_all
    with no_starts [OF l(1)] no_starts [OF l(2)] show ?thesis by (simp add: sound_Some)
  qed
  then show ?thesis
    unfolding perf_bulk_write_relationships_def by (simp only: perf_simps)
qed

text \<open>
  The tests of the trace context pass in both configurations, if \<open>MetadataValue::try_from\<close> accepts
  visible ASCII text, as documented.
\<close>

lemma trace_tests_hold:
  assumes "\<And>v. list_all (\<lambda>c. (32::nat) \<le> of_char c \<and> of_char c < (127::nat)) v \<Longrightarrow> valid v"
  shows "current_is_empty_without_a_span otel" and "interceptor_keeps_an_existing_traceparent valid otel"
    and "current_carries_the_current_span" and "interceptor_adds_the_current_span valid"
proof -
  show "current_is_empty_without_a_span otel" by (simp add: current_is_empty_without_a_span_def)
  have "valid (''00-'' @ replicate 32 CHR ''1'' @ ''-'' @ replicate 16 CHR ''2'' @ ''-01'')"
    by (rule assms) (simp add: list_all_iff)
  then show "interceptor_keeps_an_existing_traceparent valid otel"
    by (simp add: interceptor_keeps_an_existing_traceparent_def interceptor_def Let_def
      del: append_Cons append_Nil)
  have "hex02 1 = ''01''" by code_simp
  then show carries: "current_carries_the_current_span"
    by (simp add: current_carries_the_current_span_def current_def attached_def TRACEPARENT_VALUE_def)
  have "valid TRACEPARENT_VALUE" "valid ''vendor=value''"
    by (rule assms, code_simp)+
  with carries show "interceptor_adds_the_current_span valid"
    by (simp add: interceptor_adds_the_current_span_def current_carries_the_current_span_def interceptor_def
      insert_header_def)
qed

section \<open>Properties\<close>


text \<open>A server on which a test passes.\<close>

definition relationship_key where
  "relationship_key r = (resource r, relation r, subject r)"

definition test_meaning :: "relationship semantics" where
  "test_meaning schema R q =
     (if permission q = ''read'' \<and> granted R q ''reader'' \<or> granted R q ''writer'' then HasPermission else NoPermission)"

abbreviation readme_writes :: "(relationship, unit, unit) write_relationships_request list" where
  "readme_writes \<equiv> [bootstrap_updates [doc_rel ''readme'' ''reader'' ''alice'', doc_rel ''readme'' ''writer'' ''bob'']]"

abbreviation readme_checks :: "check_permission_request list" where
  "readme_checks \<equiv> [doc_check ''readme'' ''read'' ''alice'', doc_check ''readme'' ''write'' ''alice'',
     doc_check ''readme'' ''read'' ''bob'', doc_check ''readme'' ''write'' ''bob'', doc_check ''readme'' ''read'' ''charlie'']"

abbreviation readme_packages where
  "readme_packages \<equiv> policy_packages relationship_key test_meaning readme_writes readme_checks"

abbreviation readme_service where
  "readme_service \<equiv> policy_service relationship_key test_meaning readme_writes readme_checks"

definition unit_codec :: "(unit, unit) codec" where
  "unit_codec = \<lparr>encode = (\<lambda>_. []), decode = (\<lambda>_. Inr ())\<rparr>"

lemma readme_meaning: "reads_test_schema test_meaning"
  by (auto simp: reads_test_schema_def test_meaning_def)

lemma readme_clear: "clear_errors readme_packages readme_service unit_codec"
proof -
  have "\<not> prefix ''unsupported method'' (utf8_lossy (c_text ''invalid relationships''))"
    "\<not> prefix ''unsupported method'' (utf8_lossy (c_text ''unknown permission''))"
    "\<not> prefix ''unsupported method'' (utf8_lossy (c_text ''unimplemented''))" by code_simp+
  moreover have "answer readme_service = policy_answer relationship_key test_meaning readme_writes readme_checks"
    "unmarshal readme_packages ty bs = Inr bs" for ty bs by (simp_all add: store_service_def store_packages_def)
  ultimately show ?thesis
    by (auto simp: clear_errors_def policy_answer_def unit_codec_def split: if_splits option.splits)
qed

lemma readme_accepts:
  "list_all (accepts readme_packages readme_service esc rfc_serde policy_schema_codec (policy_updates_codec readme_writes)
    (policy_check_codec readme_checks)) (the test_ffi_spicedb)"
proof -
  have short: "length readme_writes < 2 ^ 31" "length readme_checks < 2 ^ 31" by simp_all
  note replies = policy_replies [OF short]
  have "length (to_bytes TEST_SCHEMA) < 2 ^ 31" by (simp add: to_bytes_def TEST_SCHEMA_def)
  then have "replies_to readme_packages readme_service policy_schema_codec WRITE_SCHEMA \<lparr>schema_text = TEST_SCHEMA\<rparr>"
    unfolding replies_to_def replies(1) by simp
  moreover have "replies_to readme_packages readme_service (policy_updates_codec readme_writes) WRITE_RELATIONSHIPS
      (bootstrap_updates [doc_rel ''readme'' ''reader'' ''alice'', doc_rel ''readme'' ''writer'' ''bob''])"
    unfolding replies_to_def replies(2) by simp
  moreover have "replies_to readme_packages readme_service (policy_check_codec readme_checks) CHECK_PERMISSION q"
    if "q \<in> set readme_checks" for q unfolding replies_to_def replies(3) using that by simp
  moreover have "starts_well readme_packages esc rfc_serde"
    by (simp add: starts_well_def store_start)
  ultimately show ?thesis unfolding tests_as_scripts(2) by simp
qed


end
