(* ===== verification/Stream_Tests.thy ===== *)
theory Stream_Tests
  imports Streaming_Proxy Crate_Tests
begin

text \<open>
  The unit tests of \<open>spicedb.rs\<close> that open a stream: \<open>connect_streaming\<close> and the three tests that use it.
  The network is a parameter: what dialling gives, what a stream on the dialled socket receives, what a
  watch receives after a later write.  A stream that never ends has no outcome, which is \<open>None\<close>, as is a
  failed \<open>unwrap\<close> in building the data of a test.
\<close>

section \<open>Dialling the streaming proxy\<close>

datatype dial = Unix_Socket string | Http string

definition connect_streaming :: "bool \<Rightarrow> string \<Rightarrow> string \<Rightarrow> dial" where
  "connect_streaming unix addr transport =
     (if unix then (if transport = ''unix'' then Unix_Socket addr else Http (''http://'' @ addr))
      else Http (''http://'' @ addr))"

text \<open>One turn of a loop that waits for a watch: a response with so many updates, an error, the end of
  the stream, or nothing in time.\<close>

datatype poll = Response nat | Stream_Error string | Stream_Ended | Nothing_Yet

datatype 'w watching = Watching "'w golib \<Rightarrow> poll list" | Watch_Failed string | Watch_Timed_Out

text \<open>The messages the tests send.\<close>

record relationship_filter =
  filter_resource_type :: string
  filter_resource_id :: string
  filter_resource_id_prefix :: string
  filter_relation :: string
  filter_subject :: "unit option"

record read_relationships_request =
  read_consistency :: "consistency option"
  read_filter :: "relationship_filter option"
  read_limit :: nat
  read_cursor :: "unit option"

record read_schema_response =
  read_schema_text :: string

datatype watch_kind = IncludeRelationshipUpdates | IncludeCheckpoints

record watch_request =
  watch_object_types :: "string list"
  watch_start_cursor :: "unit option"
  watch_filters :: "relationship_filter list"
  watch_update_kinds :: "watch_kind list"

definition default_filter :: relationship_filter where
  "default_filter = \<lparr>filter_resource_type = [], filter_resource_id = [], filter_resource_id_prefix = [],
     filter_relation = [], filter_subject = None\<rparr>"

definition default_read :: read_relationships_request where
  "default_read = \<lparr>read_consistency = None, read_filter = None, read_limit = 0, read_cursor = None\<rparr>"

definition default_watch :: watch_request where
  "default_watch = \<lparr>watch_object_types = [], watch_start_cursor = None, watch_filters = [], watch_update_kinds = []\<rparr>"

record ('w, 'a) network =
  connects :: "dial \<Rightarrow> 'w golib \<Rightarrow> string option"
  receives :: "dial \<Rightarrow> 'w golib \<Rightarrow> string \<Rightarrow> metadata \<Rightarrow> read_relationships_request \<Rightarrow> ('a list \<times> string option) option"
  watches :: "dial \<Rightarrow> 'w golib \<Rightarrow> watch_request \<Rightarrow> 'w watching"

definition READ_RELATIONSHIPS :: string where
  "READ_RELATIONSHIPS = full_method_name ''PermissionsService'' ''ReadRelationships''"

text \<open>A server-streaming call: an error before the first message is the error of the call.\<close>

definition read_stream ::
    "('w, 'a) network \<Rightarrow> dial \<Rightarrow> metadata \<Rightarrow> read_relationships_request \<Rightarrow> 'w golib \<Rightarrow>
     (string + 'a list \<times> string option) option" where
  "read_stream N to md q l =
     map_option (\<lambda>(ms, e). case e of Some x \<Rightarrow> if ms = [] then Inl x else Inr (ms, e) | None \<Rightarrow> Inr (ms, e))
       (receives N to l READ_RELATIONSHIPS md q)"

section \<open>The tests\<close>

text \<open>A test on one instance, which is dropped at its end.\<close>

definition on_instance where
  "on_instance F S CS CR schema rels options lenient body s = do {
     (r, s1) \<leftarrow> start_with_schema F S CS CR schema rels options s;
     (case r of
        Inl e \<Rightarrow> Some (if lenient \<and> tolerated e then Skipped else Panicked e, s1)
      | Inr db \<Rightarrow> do { (e, s2) \<leftarrow> body db s1; finish F e [db] s2 }) }"

definition read_doc1 :: read_relationships_request where
  "read_doc1 =
     \<lparr>read_consistency = Some \<lparr>requirement = Some (FullyConsistent True)\<rparr>,
      read_filter = Some \<lparr>filter_resource_type = ''document'', filter_resource_id = ''doc1'',
        filter_resource_id_prefix = [], filter_relation = [], filter_subject = None\<rparr>,
      read_limit = 0, read_cursor = None\<rparr>"

definition test_read_relationships where
  "test_read_relationships F S CS CR N unix s = do {
     relationships \<leftarrow> those
       [test_rel ''document:doc1'' ''reader'' ''user:alice'',
        test_rel ''document:doc1'' ''reader'' ''user:bob''];
     on_instance F S CS CR TEST_SCHEMA relationships None False (\<lambda>spicedb s1.
       let channel = connect_streaming unix (streaming_address spicedb) (streaming_transport spicedb)
       in case connects N channel (lib s1) of
            Some e \<Rightarrow> Some (Panicked_With e, s1)
          | None \<Rightarrow>
              map_option (\<lambda>r. (case r of
                  Inl e \<Rightarrow> Panicked_With e
                | Inr (messages, _) \<Rightarrow> if length messages = 2 then Passed else Assertion_Failed, s1))
                (read_stream N channel Map.empty read_doc1 (lib s1))) s }"

text \<open>The guard of \<open>attach\<close> makes its span current for the rest of the test.\<close>

definition test_calls_succeed_under_a_trace_context where
  "test_calls_succeed_under_a_trace_context F S CS CR CA N unix valid otel s =
     on_instance F S CS CR TEST_SCHEMA [] None False (\<lambda>spicedb s1.
       let channel = connect_streaming unix (streaming_address spicedb) (streaming_transport spicedb);
           span = (if otel then attached else no_span)
       in case connects N channel (lib s1) of
            Some e \<Rightarrow> Some (Panicked_With e, s1)
          | None \<Rightarrow> do {
              (r, s2) \<leftarrow> client_read_schema F otel span CA (schema_client spicedb) () s1;
              (case r of
                 Inl e \<Rightarrow> Some (Panicked e, s2)
               | Inr schema \<Rightarrow>
                   if \<not> contains (read_schema_text schema) ''definition document'' then Some (Assertion_Failed, s2)
                   else
                     (case interceptor valid otel span \<lparr>metadata = Map.empty, extensions = ()\<rparr> of
                        Inl refusal \<Rightarrow> Some (Panicked_With refusal, s2)
                      | Inr q \<Rightarrow>
                          map_option (\<lambda>r. (case r of
                              Inl e \<Rightarrow> Panicked_With e
                            | Inr (messages, _) \<Rightarrow> if messages = [] then Passed else Assertion_Failed, s2))
                            (read_stream N channel (metadata q)
                              (default_read\<lparr>read_filter := Some (default_filter\<lparr>filter_resource_type := ''document''\<rparr>)\<rparr>)
                              (lib s2)))) }) s"

text \<open>The polls until the deadline.\<close>

fun await_update :: "poll list \<Rightarrow> ending" where
  "await_update [] = Assertion_Failed"
| "await_update (Response n # ps) = (if n \<noteq> 0 then Passed else await_update ps)"
| "await_update (Stream_Error e # ps) = Panicked_With e"
| "await_update (Stream_Ended # ps) = Assertion_Failed"
| "await_update (Nothing_Yet # ps) = await_update ps"

definition test_watch_streaming where
  "test_watch_streaming F S CS CR N unix otel span s = do {
     watched \<leftarrow> test_rel ''document:watched'' ''reader'' ''user:alice'';
     on_instance F S CS CR TEST_SCHEMA [] None True (\<lambda>db s1.
       let channel = connect_streaming unix (streaming_address db) (streaming_transport db)
       in case connects N channel (lib s1) of
            Some e \<Rightarrow> Some (Panicked_With e, s1)
          | None \<Rightarrow>
              (case watches N channel (lib s1)
                  (default_watch\<lparr>watch_update_kinds := [IncludeRelationshipUpdates, IncludeCheckpoints]\<rparr>) of
                 Watch_Failed e \<Rightarrow> Some (Panicked_With e, s1)
               | Watch_Timed_Out \<Rightarrow> Some (Skipped, s1)
               | Watching polls \<Rightarrow> do {
                   (r, s2) \<leftarrow> client_write_relationships F otel span CR (permissions_client db) (touch_req [watched]) s1;
                   Some (case r of Inl e \<Rightarrow> Panicked e | Inr _ \<Rightarrow> await_update (polls (lib s2)), s2) })) s }"

end
