(* ===== verification/Stream_Test_Facts.thy ===== *)
theory Stream_Test_Facts
  imports Streams Test_Facts Stream_Tests
begin

text \<open>
  The streaming tests hold: on Unix the address an instance hands out leads through its own proxy to its
  own store, so that the tests receive what they wrote.
\<close>

section \<open>The way of a stream\<close>

text \<open>Documented of sockets: dialling the path of a proxy leads to a proxy that listens there.\<close>

definition reaches_proxies ::
    "('w, 'a) network \<Rightarrow> (obj \<Rightarrow> 'w \<Rightarrow> (read_relationships_request, 'a) backend) \<Rightarrow> string \<Rightarrow> bool" where
  "reaches_proxies N streams unimplemented \<longleftrightarrow>
     (\<forall>l path method md q. (\<exists>i \<in> ran (instances l). streaming_addr i = path \<and> client_conn i \<noteq> None) \<longrightarrow>
        stream_at streams unimplemented l path method md q (\<lambda>_. None) (receives N (Unix_Socket path) l method md q))"

lemma stream_reaches:
  assumes "addressed P l" and "\<not> is_windows P" and "temp_names_ok P" and "simulates V A l" and "A h = Some d"
    and "streams_answered V streams ans" and "reaches_proxies N streams unimplemented"
  shows "receives N (Unix_Socket (streaming_proxy_addr P h)) l method md q
    = proxy_serve (\<lambda>md method q. ans method q d) unimplemented method md q (\<lambda>_. None)"
proof -
  note D = simulatesD [OF assms(4)]
  from D(2) [of h] assms(5) obtain i where i: "instances l h = Some i" by (cases "instances l h") auto
  from D(3) [OF i] assms(5) obtain c where c: "client_conn i = Some c" "conns V (world l) c = Some (server i, d)"
    by (auto simp: backed_def)
  have addr: "streaming_addr j = streaming_proxy_addr P k" if "instances l k = Some j" for j k
    using that assms(1,2) by (simp add: addressed_def)
  have only: "j = i" if "j \<in> ran (instances l)" "streaming_addr j = streaming_proxy_addr P h" for j
    using that i addr streaming_proxy_addr_inject [OF assms(3,2)] by (auto simp: ran_def)
  have "i \<in> ran (instances l)" "streaming_addr i = streaming_proxy_addr P h" using i addr by (auto simp: ran_def)
  with assms(7) c(1) have "stream_at streams unimplemented l (streaming_proxy_addr P h) method md q (\<lambda>_. None)
      (receives N (Unix_Socket (streaming_proxy_addr P h)) l method md q)"
    unfolding reaches_proxies_def by blast
  then obtain j c' where j: "j \<in> ran (instances l)" "streaming_addr j = streaming_proxy_addr P h" "client_conn j = Some c'"
    and r: "receives N (Unix_Socket (streaming_proxy_addr P h)) l method md q
      = proxy_serve (streams c' (world l)) unimplemented method md q (\<lambda>_. None)"
    unfolding stream_at_def by (elim exE conjE) (rule that)
  from only [OF j(1,2)] j(3) c(1) have "c' = c" by simp
  moreover from assms(6) c(2) D(1) have "streams c (world l) = (\<lambda>md method q. ans method q d)"
    by (simp add: streams_answered_def fun_eq_iff)
  ultimately show ?thesis using r by simp
qed


text \<open>The address a bootstrapped instance comes with.\<close>

lemma bootstrapped_address:
  assumes "serde_ok S" and "small_responses P" and ok: "process_ok s" and h: "handles_ok (lib s)"
    and "next_id (lib s) \<noteq> - 1"
    and "\<not> is_windows P" and "temp_valid P" and "addressed P (lib s)"
    and run: "start_with_schema (go_ffi P esc) S CS CR schema rels None s = Some (Inr db, s1)"
  shows "addressed P (lib s1)" and "streaming_address db = streaming_proxy_addr P (db_handle db)"
    and "streaming_transport db = ''unix''"
proof -
  note opts = default_options_in_process(1)
  obtain r0 s0 where st: "start (go_ffi P esc) S None s = Some (r0, s0)" and b: "balanced s s0"
    and ok0: "process_ok s0" and res: "start_result P r0 (lib s) (lib s0)"
    by (rule start_outcome [OF ok assms(1) opts, of P esc])
  with run obtain db0 where r0: "r0 = Inr db0" by (cases r0) (auto simp: start_with_schema_def)
  obtain r l s2 where spec: "bootstrap_spec P CS CR schema rels db0 (lib s0) = Some (r, l)"
    and run2: "start_with_schema (go_ffi P esc) S CS CR schema rels None s = Some (r, s2)"
    and l: "lib s2 = l"
    by (rule start_with_schema_on_go [OF st [unfolded r0] b ok0 assms(2), of CS CR schema rels])
  from run run2 have r: "r = Inr db" and s2: "s2 = s1" by simp_all
  have step: "instances (snd (lib_step needed (lib_call P C h m tr q k) k)) = instances k"
    for needed and C :: "('x, 'y) codec" and h m tr q k
    using lib_call_frame(1) [of P C h m tr q k] by (cases "lib_call P C h m tr q k") (auto simp: lib_step_def)
  obtain x1 l1 where x1: "lib_step (schema \<noteq> []) (lib_call P CS (db_handle db0) WRITE_SCHEMA trace_default
      \<lparr>schema_text = schema\<rparr> (lib s0)) (lib s0) = (x1, l1)" by fastforce
  obtain x2 l2 where x2: "lib_step (rels \<noteq> []) (lib_call P CR (db_handle db0) WRITE_RELATIONSHIPS trace_default
      (bootstrap_updates rels) l1) l1 = (x2, l2)" by fastforce
  from step x1 have "instances l1 = instances (lib s0)" by (metis snd_conv)
  moreover from step x2 have "instances l2 = instances l1" by (metis snd_conv)
  moreover from spec r have db: "db0 = db" and "l2 = l"
    by (auto simp: bootstrap_spec_def Let_def x1 x2 split: sum.splits)
  ultimately have same: "instances (lib s1) = instances (lib s0)" using l s2 by simp
  from res obtain i where n: "db_handle db = next_id (lib s) + 1" and t: "streaming_transport db = transport_of P"
    and i: "instances (lib s0) (db_handle db) = Some i" "streaming_address db = go_valid (streaming_addr i)"
    by (auto simp: start_result_def r0 db)
  have free: "instances (lib s) (next_id (lib s) + 1) = None" using next_handle_free(1) [OF h assms(5)] by auto
  have "golib_ok (lib s)" using ok by (simp add: process_ok_def)
  from addresses.export_step_keeps [OF start_is_export_step [OF ok assms(1) opts free st] assms(8) this]
  have addressed: "addressed P (lib s0)" .
  with same show "addressed P (lib s1)" by (simp add: addressed_def)
  from t assms(6) show "streaming_transport db = ''unix''" by (simp add: transport_of_def)
  from addressed i(1) assms(6) have a: "streaming_addr i = streaming_proxy_addr P (db_handle db)" by (simp add: addressed_def)
  have "utf8_valid (streaming_proxy_addr P (db_handle db))"
    using assms(6,7) socket_name_valid by (simp add: streaming_proxy_addr_def temp_valid_def del: append_Cons append_Nil)
  with i(2) a show "streaming_address db = streaming_proxy_addr P (db_handle db)" by (simp add: go_valid_id)
qed

section \<open>Tests on one instance\<close>

text \<open>What the body of a test finds: its instance with a known store, behind the address it hands out.\<close>

definition placed ::
    "('m, 'w) packages \<Rightarrow> ('m, 'w, 'd) service \<Rightarrow> ('d \<Rightarrow> string \<times> 'r set) \<Rightarrow> string \<times> 'r set \<Rightarrow> embedded \<Rightarrow>
     'w golib process \<Rightarrow> bool" where
  "placed P V view v db s \<longleftrightarrow> process_ok s \<and> addressed P (lib s)
     \<and> streaming_address db = streaming_proxy_addr P (db_handle db) \<and> streaming_transport db = ''unix''
     \<and> (\<exists>A d. simulates V A (lib s) \<and> A (db_handle db) = Some d \<and> view d = v)"

definition body_ok where
  "body_ok ok s r \<longleftrightarrow> (\<exists>e s1. r = Some (e, s1) \<and> undisturbed s s1 \<and> e \<noteq> Assertion_Failed \<and> (ok \<longrightarrow> e = Passed))"

lemma undisturbed_refl: "process_ok s \<Longrightarrow> undisturbed s s"
  by (auto simp: undisturbed_def process_ok_def)

lemma body_stops: "process_ok s \<Longrightarrow> e \<noteq> Assertion_Failed \<Longrightarrow> (ok \<Longrightarrow> e = Passed) \<Longrightarrow> body_ok ok s (Some (e, s))"
  by (simp add: body_ok_def undisturbed_refl)

lemma on_instance_holds:
  assumes "isolates P V" and "authorizes P V CS CR CC key sem view" and "serde_ok S" and "small_responses P"
    and ok: "process_ok s" and h: "handles_ok (lib s)" and id_left: "next_id (lib s) \<noteq> - 1"
    and sim: "simulates V A (lib s)"
    and place: "\<not> is_windows P" "temp_valid P" "addressed P (lib s)"
    and body: "\<And>db s1. placed P V view (schema, set rels) db s1 \<Longrightarrow> body_ok fine s1 (body db s1)"
  shows "\<exists>e s'. on_instance (go_ffi P esc) S CS CR schema rels None lenient body s = Some (e, s')
    \<and> e \<noteq> Assertion_Failed
    \<and> (accepts P V esc S CS CR CC (Start_With_Schema schema rels lenient) \<and> fine \<longrightarrow> e = Passed)
    \<and> balanced s s' \<and> instances (lib s') = instances (lib s)"
proof -
  let ?t = "Start_With_Schema schema rels lenient"
  have f: "follows V view [] [] s" using ok h sim by (auto simp: follows_def)
  from start_holds [OF assms(1-4) f id_left, where esc = esc and CU = unit_codec and otel = False and span = no_span
      and schema = schema and rels = rels and lenient = lenient]
  obtain x s1 where x: "run_step (go_ffi P esc) S CS CR CC unit_codec False no_span [] ?t s = Some (x, s1)"
    and st: "step_ok V view [Some (schema, set rels)] (accepts P V esc S CS CR CC ?t) 1 [] s x s1" by auto
  from x obtain r where r: "start_with_schema (go_ffi P esc) S CS CR schema rels None s = Some (r, s1)"
    and xr: "x = (case r of Inr db \<Rightarrow> Inr ([] @ [db]) | Inl e \<Rightarrow> Inl (if lenient \<and> tolerated e then Skipped else Panicked e))"
    by (auto simp: bind_eq_Some_conv)
  from st have b1: "balanced s s1" by (simp add: step_ok_def)
  show ?thesis
  proof (cases r)
    case (Inl e)
    with st xr have "instances (lib s1) = instances (lib s)" "\<not> accepts P V esc S CS CR CC ?t"
      by (simp_all add: step_ok_def)
    with r Inl b1 show ?thesis by (simp add: on_instance_def del: accepts.simps)
  next
    case (Inr db)
    with st xr have f1: "follows V view [db] [Some (schema, set rels)] s1"
      and i1: "instances (lib s1) |` (- {db_handle db}) = instances (lib s)"
      by (simp_all add: step_ok_def restrict_map_def)
    note address = bootstrapped_address [OF assms(3,4) ok h id_left place r [unfolded Inr]]
    from f1 have "placed P V view (schema, set rels) db s1"
      using address by (auto simp: placed_def follows_def matches_def)
    from body [OF this] obtain e s2 where e: "body db s1 = Some (e, s2)" "undisturbed s1 s2"
      "e \<noteq> Assertion_Failed" "fine \<longrightarrow> e = Passed" by (auto simp: body_ok_def)
    from e(2) have s2: "balanced s1 s2" "process_ok s2" "instances (lib s2) = instances (lib s1)"
      by (simp_all add: undisturbed_def)
    from finish_holds [OF s2(2), of P esc e "[db]"] obtain s' where
      s': "finish (go_ffi P esc) e [db] s2 = Some (e, s')" "balanced s2 s'"
      "instances (lib s') = instances (lib s2) |` (- {db_handle db})" by auto
    have "balanced s s'" using b1 s2(1) s'(2) by (blast intro: balanced_trans)
    with r Inr e s2(3) s'(1,3) i1 show ?thesis by (simp add: on_instance_def del: accepts.simps)
  qed
qed


section \<open>What the server streams\<close>

definition filter_matches :: "relationship_filter \<Rightarrow> relationship \<Rightarrow> bool" where
  "filter_matches f r \<longleftrightarrow>
     (\<exists>res. resource r = Some res \<and> object_type res = filter_resource_type f
        \<and> (filter_resource_id f = [] \<or> object_id res = filter_resource_id f)
        \<and> prefix (filter_resource_id_prefix f) (object_id res))
     \<and> (filter_relation f = [] \<or> relation r = filter_relation f)"

definition listing :: "'a list \<Rightarrow> nat \<Rightarrow> 'a received" where
  "listing ms k = (if k < length ms then Msg (ms ! k) else EOF)"

text \<open>
  Documented of \<open>ReadRelationships\<close>: one message for each relationship that matches the filter, if the
  schema defines the type of the resource and the read is fully consistent or nothing was ever written.
\<close>

definition lists_relationships ::
    "(read_relationships_request, 'a, 'd) stream_answer \<Rightarrow> ('d \<Rightarrow> string \<times> relationship set) \<Rightarrow> bool" where
  "lists_relationships ans view \<longleftrightarrow> (\<forall>q f d. read_filter q = Some f \<and> filter_subject f = None \<and> read_limit q = 0
      \<and> read_cursor q = None \<and> contains (fst (view d)) (''definition '' @ filter_resource_type f @ '' {'')
      \<and> (read_consistency q = Some \<lparr>requirement = Some (FullyConsistent True)\<rparr> \<or> snd (view d) = {})
      \<and> finite (snd (view d)) \<longrightarrow>
     (\<exists>ms. length ms = card {r \<in> snd (view d). filter_matches f r} \<and> ans READ_RELATIONSHIPS q d = Inr (listing ms)))"

text \<open>Documented of \<open>ReadSchema\<close>: its text has every definition of the schema, and it changes nothing.\<close>

definition reads_back ::
    "('m, 'w) packages \<Rightarrow> ('m, 'w, 'd) service \<Rightarrow> (unit, read_schema_response) codec \<Rightarrow>
     ('d \<Rightarrow> string \<times> relationship set) \<Rightarrow> bool" where
  "reads_back P V CA view \<longleftrightarrow> (\<forall>d r d'. reply P V CA READ_SCHEMA () d = (r, d') \<longrightarrow> view d' = view d
     \<and> (\<forall>a n. r = Inr a \<and> contains (fst (view d)) (''definition '' @ n @ '' {'') \<longrightarrow>
          contains (read_schema_text a) (''definition '' @ n)))"

text \<open>
  Documented of \<open>Watch\<close>: a watch that has been opened, with relationship updates and no restriction,
  reports a change of the relationships of its store before it fails or ends, and in time.
\<close>

definition reports_updates ::
    "('m, 'w, 'd) service \<Rightarrow> ('w, 'a) network \<Rightarrow> ('d \<Rightarrow> string \<times> relationship set) \<Rightarrow> bool" where
  "reports_updates V N view \<longleftrightarrow>
     (\<forall>l l' path i c q srv d srv' d' polls.
        {j \<in> ran (instances l). streaming_addr j = path} = {i} \<and> instances l' = instances l \<and> client_conn i = Some c
      \<and> in_memory V (world l) \<and> conns V (world l) c = Some (srv, d) \<and> conns V (world l') c = Some (srv', d')
      \<and> snd (view d') \<noteq> snd (view d)
      \<and> watch_object_types q = [] \<and> watch_start_cursor q = None \<and> watch_filters q = []
      \<and> IncludeRelationshipUpdates \<in> set (watch_update_kinds q)
      \<and> watches N (Unix_Socket path) l q = Watching polls \<longrightarrow>
      (\<exists>ps n qs. polls l' = ps @ Response n # qs \<and> n \<noteq> 0 \<and> set ps \<subseteq> {Response 0, Nothing_Yet}))"

lemma listing_served:
  assumes "ans READ_RELATIONSHIPS q d = Inr (listing ms)"
  shows "proxy_serve (\<lambda>md method q. ans method q d) unimplemented READ_RELATIONSHIPS md q (\<lambda>_. None) = Some (ms, None)"
proof -
  have "READ_RELATIONSHIPS \<in> set streaming_methods" by (simp add: streaming_methods_def READ_RELATIONSHIPS_def)
  moreover have "copy_loop (listing ms) (\<lambda>_. None) 0 = Some (ms, None)"
    unfolding copy_loop_iff
    by (intro exI [of _ "length ms"])
      (auto simp: passes_def outcome_at_def message_def listing_def intro!: nth_equalityI)
  ultimately show ?thesis using assms by (simp add: proxy_serve_def proxy_handler_def)
qed

lemma await_report:
  "set ps \<subseteq> {Response 0, Nothing_Yet} \<Longrightarrow> n \<noteq> 0 \<Longrightarrow> await_update (ps @ Response n # qs) = Passed"
  by (induction ps) auto

lemma placed_channel:
  assumes "placed P V view v db s"
  shows "connect_streaming True (streaming_address db) (streaming_transport db)
    = Unix_Socket (streaming_proxy_addr P (db_handle db))"
  using assms by (simp add: placed_def connect_streaming_def)

text \<open>The relationships a stream at the address of a placed instance gives.\<close>

lemma placed_read:
  assumes "placed P V view v db s" and "\<not> is_windows P" and "temp_names_ok P"
    and "streams_answered V streams ans" and "reaches_proxies N streams unimplemented" and "lists_relationships ans view"
    and "read_filter q = Some f" and "filter_subject f = None" and "read_limit q = 0" and "read_cursor q = None"
    and "contains (fst v) (''definition '' @ filter_resource_type f @ '' {'')"
    and "read_consistency q = Some \<lparr>requirement = Some (FullyConsistent True)\<rparr> \<or> snd v = {}" and "finite (snd v)"
  shows "\<exists>ms. length ms = card {r \<in> snd v. filter_matches f r}
    \<and> read_stream N (Unix_Socket (streaming_proxy_addr P (db_handle db))) md q (lib s) = Some (Inr (ms, None))"
proof -
  from assms(1) obtain A d where A: "simulates V A (lib s)" "A (db_handle db) = Some d" and v: "view d = v"
    and addr: "addressed P (lib s)" by (auto simp: placed_def)
  from assms(6) [unfolded lists_relationships_def, rule_format, of q f d] assms(7-13) v obtain ms where
    ms: "length ms = card {r \<in> snd v. filter_matches f r}" "ans READ_RELATIONSHIPS q d = Inr (listing ms)" by auto
  from stream_reaches [OF addr assms(2,3) A assms(4,5), of READ_RELATIONSHIPS md q] listing_served [of ans, OF ms(2)]
  have "receives N (Unix_Socket (streaming_proxy_addr P (db_handle db))) (lib s) READ_RELATIONSHIPS md q = Some (ms, None)"
    by simp
  with ms(1) show ?thesis by (simp add: read_stream_def)
qed


section \<open>The three tests\<close>

lemma stream_test_data:
  "those [test_rel ''document:doc1'' ''reader'' ''user:alice'', test_rel ''document:doc1'' ''reader'' ''user:bob'']
     = Some [doc_rel ''doc1'' ''reader'' ''alice'', doc_rel ''doc1'' ''reader'' ''bob'']"
  "test_rel ''document:watched'' ''reader'' ''user:alice'' = Some (doc_rel ''watched'' ''reader'' ''alice'')"
  by (simp_all add: doc_texts)

lemma contains_middle: "contains (u @ part @ v) part"
  unfolding contains_def list_ex_iff by (rule bexI [of _ "part @ v"]) (simp_all add: suffix_def)

lemma test_schema_defines: "contains TEST_SCHEMA (''definition document'' @ '' {'')"
proof -
  have whole: "TEST_SCHEMA = (NL # ''definition user {}'' @ [NL, NL]) @ (''definition document'' @ '' {'')
     @ concat (map (\<lambda>l. NL # l)
     [''    relation reader: user'',
      ''    relation writer: user'', [],
      ''    permission read = reader + writer'',
      ''    permission write = writer'',
      ''}'', []])" by (simp add: TEST_SCHEMA_def)
  show ?thesis unfolding whole by (rule contains_middle)
qed

lemma doc1_count:
  "card {r \<in> set [doc_rel ''doc1'' ''reader'' ''alice'', doc_rel ''doc1'' ''reader'' ''bob''].
     filter_matches (the (read_filter read_doc1)) r} = 2"
proof -
  have "{r \<in> set [doc_rel ''doc1'' ''reader'' ''alice'', doc_rel ''doc1'' ''reader'' ''bob''].
     filter_matches (the (read_filter read_doc1)) r} = {doc_rel ''doc1'' ''reader'' ''alice'', doc_rel ''doc1'' ''reader'' ''bob''}"
    by (auto simp: filter_matches_def read_doc1_def doc_rel_def)
  moreover have "doc_rel ''doc1'' ''reader'' ''alice'' \<noteq> doc_rel ''doc1'' ''reader'' ''bob''" by (simp add: doc_rel_def)
  ultimately show ?thesis by simp
qed

definition takes_streams where
  "takes_streams P V esc S CS CR CA N view \<longleftrightarrow>
     starts_well P esc S \<and> replies_to P V CS WRITE_SCHEMA \<lparr>schema_text = TEST_SCHEMA\<rparr>
   \<and> replies_to P V CR WRITE_RELATIONSHIPS
       (bootstrap_updates [doc_rel ''doc1'' ''reader'' ''alice'', doc_rel ''doc1'' ''reader'' ''bob''])
   \<and> replies_to P V CR WRITE_RELATIONSHIPS (touch_req [doc_rel ''watched'' ''reader'' ''alice''])
   \<and> (\<forall>d. view d = (TEST_SCHEMA, {}) \<longrightarrow> (\<exists>a. fst (reply P V CA READ_SCHEMA () d) = Inr a))
   \<and> (\<forall>to l. connects N to l = None) \<and> (\<forall>to l q. \<exists>polls. watches N to l q = Watching polls)"

lemma read_body:
  assumes "placed P V view (TEST_SCHEMA, set [doc_rel ''doc1'' ''reader'' ''alice'', doc_rel ''doc1'' ''reader'' ''bob'']) db s"
    and "\<not> is_windows P" and "temp_names_ok P"
    and "streams_answered V streams ans" and "reaches_proxies N streams unimplemented" and "lists_relationships ans view"
  shows "body_ok (\<forall>to l. connects N to l = None) s
    (let channel = connect_streaming True (streaming_address db) (streaming_transport db)
       in case connects N channel (lib s) of
            Some e \<Rightarrow> Some (Panicked_With e, s)
          | None \<Rightarrow>
              map_option (\<lambda>r. (case r of
                  Inl e \<Rightarrow> Panicked_With e
                | Inr (messages, _) \<Rightarrow> if length messages = 2 then Passed else Assertion_Failed, s))
                (read_stream N channel Map.empty read_doc1 (lib s)))"
proof -
  let ?to = "Unix_Socket (streaming_proxy_addr P (db_handle db))"
  from assms(1) have ok: "process_ok s" by (simp add: placed_def)
  have "\<exists>ms. length ms = 2 \<and> read_stream N ?to Map.empty read_doc1 (lib s) = Some (Inr (ms, None))"
    using placed_read [OF assms, of read_doc1 "the (read_filter read_doc1)" Map.empty] doc1_count test_schema_defines
    by (simp add: read_doc1_def)
  then obtain ms where "length ms = 2" "read_stream N ?to Map.empty read_doc1 (lib s) = Some (Inr (ms, None))" by blast
  then show ?thesis
    by (cases "connects N ?to (lib s)")
      (auto simp: placed_channel [OF assms(1)] Let_def option.distinct(1) [symmetric] intro!: body_stops [OF ok])
qed

lemma schema_call:
  assumes "isolates P V" and "small_responses P" and "reads_back P V CA view" and p: "placed P V view v db s"
    and "trace_c_ok (current otel span)"
  shows "\<exists>r s1. client_read_schema (go_ffi P esc) otel span CA (schema_client db) () s = Some (map_err db_err r, s1)
    \<and> undisturbed s s1 \<and> placed P V view v db s1 \<and> ((\<forall>d. view d = v \<longrightarrow> (\<exists>a. fst (reply P V CA READ_SCHEMA () d) = Inr a)) \<longrightarrow> (\<exists>a. r = Inr a))
    \<and> (\<forall>a n. r = Inr a \<and> contains (fst v) (''definition '' @ n @ '' {'') \<longrightarrow> contains (read_schema_text a) (''definition '' @ n))"
proof -
  from p obtain A d where ok: "process_ok s" and A: "simulates V A (lib s)" "A (db_handle db) = Some d" and v: "view d = v"
    by (auto simp: placed_def)
  obtain r l where r: "lib_call P CA (db_handle db) READ_SCHEMA (current otel span) () (lib s) = (r, l)" by fastforce
  from call_on_go [OF ok assms(2) _ assms(5) r, of esc] obtain s1 where
    s1: "call (go_ffi P esc) otel span CA (db_handle db) READ_SCHEMA () s = Some (map_err db_err r, s1)"
      "balanced s s1" "process_ok s1" "lib s1 = l" by auto
  note frame = lib_call_frame [OF r]
  obtain x d' where x: "reply P V CA READ_SCHEMA () d = (x, d')" by fastforce
  from lib_call_reply [where A = A and h = "db_handle db", OF assms(1) A(1) r A(2)] x
  have k: "r = x" "simulates V (A(db_handle db \<mapsto> d')) l" by simp_all
  from assms(3) x v have kept: "view d' = v"
    "\<forall>a n. x = Inr a \<and> contains (fst v) (''definition '' @ n @ '' {'') \<longrightarrow> contains (read_schema_text a) (''definition '' @ n)"
    unfolding reads_back_def by blast+
  have "placed P V view v db s1"
    using p s1(3,4) frame(1) k(2) kept(1) unfolding placed_def addressed_def by auto
  moreover have "(\<forall>d. view d = v \<longrightarrow> (\<exists>a. fst (reply P V CA READ_SCHEMA () d) = Inr a)) \<longrightarrow> (\<exists>a. r = Inr a)"
    using v x k(1) by (metis fst_conv)
  moreover have "undisturbed s s1" using s1 frame by (simp add: undisturbed_def)
  ultimately show ?thesis using s1(1) k(1) kept(2) by (auto simp: client_read_schema_def schema_client_def)
qed


lemma attached_ok: "trace_c_ok (current otel (if otel then attached else no_span))"
proof (cases otel)
  case True
  have "current True attached = \<lparr>traceparent = Some TRACEPARENT_VALUE, tracestate = Some ''vendor=value''\<rparr>"
    using trace_tests_hold(3) [of "\<lambda>_. True"] by (simp add: current_carries_the_current_span_def)
  moreover have "trace_c_ok \<lparr>traceparent = Some TRACEPARENT_VALUE, tracestate = Some ''vendor=value''\<rparr>"
    by (simp add: trace_c_ok_def TRACEPARENT_VALUE_def)
  ultimately show ?thesis using True by simp
qed simp

lemma map_err_cases: "map_err f r = (case r of Inl e \<Rightarrow> Inl (f e) | Inr a \<Rightarrow> Inr a)"
  by (cases r) (simp_all add: map_err_def)

lemma trace_body:
  assumes p: "placed P V view (TEST_SCHEMA, {}) db s" and "isolates P V" and "small_responses P"
    and "reads_back P V CA view" and "\<not> is_windows P" and "temp_names_ok P"
    and "streams_answered V streams ans" and "reaches_proxies N streams unimplemented" and "lists_relationships ans view"
    and q: "read_filter q = Some (default_filter\<lparr>filter_resource_type := ''document''\<rparr>)" "read_limit q = 0" "read_cursor q = None"
  shows "body_ok ((\<forall>d. view d = (TEST_SCHEMA, {}) \<longrightarrow> (\<exists>a. fst (reply P V CA READ_SCHEMA () d) = Inr a))
      \<and> (\<forall>to l. connects N to l = None)) s
    (let channel = connect_streaming True (streaming_address db) (streaming_transport db);
         span = (if otel then attached else no_span)
     in case connects N channel (lib s) of
            Some e \<Rightarrow> Some (Panicked_With e, s)
          | None \<Rightarrow> do {
              (r, s2) \<leftarrow> client_read_schema (go_ffi P esc) otel span CA (schema_client db) () s;
              (case r of
                 Inl e \<Rightarrow> Some (Panicked e, s2)
               | Inr schema \<Rightarrow>
                   if \<not> contains (read_schema_text schema) ''definition document'' then Some (Assertion_Failed, s2)
                   else
                     (case interceptor valid otel span \<lparr>metadata = Map.empty, extensions = ()\<rparr> of
                        Inl refusal \<Rightarrow> Some (Panicked_With refusal, s2)
                      | Inr q' \<Rightarrow>
                          map_option (\<lambda>r. (case r of
                              Inl e \<Rightarrow> Panicked_With e
                            | Inr (messages, _) \<Rightarrow> if messages = [] then Passed else Assertion_Failed, s2))
                            (read_stream N channel (metadata q') q (lib s2)))) })"
proof -
  let ?to = "Unix_Socket (streaming_proxy_addr P (db_handle db))" and ?span = "if otel then attached else no_span"
  from p have ok: "process_ok s" by (simp add: placed_def)
  obtain r s2 where c: "client_read_schema (go_ffi P esc) otel ?span CA (schema_client db) () s = Some (map_err db_err r, s2)"
    and u: "undisturbed s s2" and p2: "placed P V view (TEST_SCHEMA, {}) db s2"
    and reply: "(\<forall>d. view d = (TEST_SCHEMA, {}) \<longrightarrow> (\<exists>a. fst (reply P V CA READ_SCHEMA () d) = Inr a)) \<longrightarrow> (\<exists>a. r = Inr a)"
    and shown: "\<forall>a n. r = Inr a \<and> contains TEST_SCHEMA (''definition '' @ n @ '' {'') \<longrightarrow>
      contains (read_schema_text a) (''definition '' @ n)"
    using schema_call [OF assms(2,3,4) p attached_ok [of otel], of esc] unfolding fst_conv by (elim exE conjE) (rule that)
  obtain q' :: "unit Trace_Context.request" where q': "(interceptor valid otel ?span \<lparr>metadata = Map.empty, extensions = ()\<rparr>
      :: string + unit Trace_Context.request) = Inr q'"
    by (simp add: interceptor_def Let_def)
  have "\<exists>ms. length ms = card ({} :: relationship set) \<and> read_stream N ?to (metadata q') q (lib s2) = Some (Inr (ms, None))"
    using placed_read [OF p2 assms(5-9) q(1) _ q(2,3), of "metadata q'"] test_schema_defines
    by (simp add: default_filter_def)
  then have read: "read_stream N ?to (metadata q') q (lib s2) = Some (Inr ([], None))" by simp
  show ?thesis
  proof (cases "connects N ?to (lib s)")
    case (Some e)
    then show ?thesis
      by (auto simp: placed_channel [OF p] Let_def option.distinct(1) [symmetric] intro!: body_stops [OF ok])
  next
    case None
    show ?thesis
    proof (cases r)
      case (Inl e)
      with None reply u show ?thesis
        by (simp add: placed_channel [OF p] Let_def c map_err_cases body_ok_def)
    next
      case (Inr a)
      have "contains TEST_SCHEMA (''definition '' @ ''document'' @ '' {'')" using test_schema_defines by simp
      with shown Inr have "contains (read_schema_text a) (''definition '' @ ''document'')" by blast
      with None Inr u show ?thesis
        by (simp add: placed_channel [OF p] Let_def c map_err_cases body_ok_def q' read)
    qed
  qed
qed


lemma watch_sees_write:
  assumes p: "placed P V view (TEST_SCHEMA, {}) db s" and "isolates P V" and "authorizes P V CS CR CC key sem view"
    and "\<not> is_windows P" and "temp_names_ok P" and "reports_updates V N view"
    and r: "lib_call P CR (db_handle db) WRITE_RELATIONSHIPS tr (touch_req [r1]) (lib s) = (Inr a, lib s2)"
    and u: "undisturbed s s2"
    and w: "watches N (Unix_Socket (streaming_proxy_addr P (db_handle db))) (lib s)
      (default_watch\<lparr>watch_update_kinds := [IncludeRelationshipUpdates, IncludeCheckpoints]\<rparr>) = Watching polls"
  shows "await_update (polls (lib s2)) = Passed"
proof -
  let ?q = "default_watch\<lparr>watch_update_kinds := [IncludeRelationshipUpdates, IncludeCheckpoints]\<rparr>"
  from p obtain A d where A: "simulates V A (lib s)" "A (db_handle db) = Some d" and v: "view d = (TEST_SCHEMA, {})"
    and addr: "addressed P (lib s)" by (auto simp: placed_def)
  from write_on_store [where A = A and h = "db_handle db", OF assms(2,3) A r] v obtain d' where
    d': "simulates V (A(db_handle db \<mapsto> d')) (lib s2)" "snd (view d') = {r1}" by auto
  note D = simulatesD [OF A(1)] and D' = simulatesD [OF d'(1)]
  from D(2) [of "db_handle db"] A(2) obtain i where i: "instances (lib s) (db_handle db) = Some i"
    by (cases "instances (lib s) (db_handle db)") auto
  from u have same: "instances (lib s2) = instances (lib s)" by (simp add: undisturbed_def)
  from D(3) [OF i] A(2) obtain c where c: "client_conn i = Some c" "conns V (world (lib s)) c = Some (server i, d)"
    by (auto simp: backed_def)
  from D'(3) [of "db_handle db" i] same i c(1) have c': "conns V (world (lib s2)) c = Some (server i, d')"
    by (auto simp: backed_def)
  have at: "streaming_addr j = streaming_proxy_addr P k" if "instances (lib s) k = Some j" for j k
    using that addr assms(4) by (simp add: addressed_def)
  have only: "{j \<in> ran (instances (lib s)). streaming_addr j = streaming_proxy_addr P (db_handle db)} = {i}"
    using i at streaming_proxy_addr_inject [OF assms(5,4)] by (auto simp: ran_def)
  have q: "watch_object_types ?q = []" "watch_start_cursor ?q = None" "watch_filters ?q = []"
    "IncludeRelationshipUpdates \<in> set (watch_update_kinds ?q)" by (simp_all add: default_watch_def)
  have "snd (view d') \<noteq> snd (view d)" using d'(2) v by simp
  with assms(6) [unfolded reports_updates_def, rule_format, OF conjI [OF only conjI [OF same conjI [OF c(1)
    conjI [OF D(1) conjI [OF c(2) conjI [OF c']]]]]]] q w
  obtain ps n qs where "polls (lib s2) = ps @ Response n # qs" "n \<noteq> 0" "set ps \<subseteq> {Response 0, Nothing_Yet}" by blast
  then show ?thesis by (simp add: await_report)
qed

lemma watch_body:
  assumes p: "placed P V view (TEST_SCHEMA, {}) db s" and "isolates P V" and "authorizes P V CS CR CC key sem view"
    and "small_responses P" and "trace_c_ok (current otel span)"
    and "\<not> is_windows P" and "temp_names_ok P" and "reports_updates V N view"
  shows "body_ok (replies_to P V CR WRITE_RELATIONSHIPS (touch_req [r1]) \<and> (\<forall>to l. connects N to l = None)
      \<and> (\<forall>to l q. \<exists>polls. watches N to l q = Watching polls)) s
    (let channel = connect_streaming True (streaming_address db) (streaming_transport db)
       in case connects N channel (lib s) of
            Some e \<Rightarrow> Some (Panicked_With e, s)
          | None \<Rightarrow>
              (case watches N channel (lib s)
                  (default_watch\<lparr>watch_update_kinds := [IncludeRelationshipUpdates, IncludeCheckpoints]\<rparr>) of
                 Watch_Failed e \<Rightarrow> Some (Panicked_With e, s)
               | Watch_Timed_Out \<Rightarrow> Some (Skipped, s)
               | Watching polls \<Rightarrow> do {
                   (r, s2) \<leftarrow> client_write_relationships (go_ffi P esc) otel span CR (permissions_client db) (touch_req [r1]) s;
                   Some (case r of Inl e \<Rightarrow> Panicked e | Inr _ \<Rightarrow> await_update (polls (lib s2)), s2) }))"
    (is "body_ok ?fine s ?body")
proof -
  let ?to = "Unix_Socket (streaming_proxy_addr P (db_handle db))"
  let ?q = "default_watch\<lparr>watch_update_kinds := [IncludeRelationshipUpdates, IncludeCheckpoints]\<rparr>"
  from p have ok: "process_ok s" by (simp add: placed_def)
  note channel = placed_channel [OF p]
  consider (refused) e where "connects N ?to (lib s) = Some e"
    | (failed) e where "connects N ?to (lib s) = None" "watches N ?to (lib s) ?q = Watch_Failed e"
    | (late) "connects N ?to (lib s) = None" "watches N ?to (lib s) ?q = Watch_Timed_Out"
    | (opened) polls where "connects N ?to (lib s) = None" "watches N ?to (lib s) ?q = Watching polls"
    by (cases "connects N ?to (lib s)"; cases "watches N ?to (lib s) ?q") auto
  then show ?thesis
  proof cases
    case refused
    then have "\<not> ?fine" by (metis option.distinct(1))
    then have "body_ok ?fine s (Some (Panicked_With e, s))" by (intro body_stops [OF ok]) simp_all
    with refused show ?thesis by (simp add: channel Let_def)
  next
    case failed
    then have "\<not> ?fine" by (metis watching.distinct(1))
    then have "body_ok ?fine s (Some (Panicked_With e, s))" by (intro body_stops [OF ok]) simp_all
    with failed show ?thesis by (simp add: channel Let_def)
  next
    case late
    then have "\<not> ?fine" by (metis watching.distinct(3))
    then have "body_ok ?fine s (Some (Skipped, s))" by (intro body_stops [OF ok]) simp_all
    with late show ?thesis by (simp add: channel Let_def)
  next
    case opened
    obtain r s2 where c: "client_write_relationships (go_ffi P esc) otel span CR (permissions_client db) (touch_req [r1]) s
        = Some (map_err db_err r, s2)"
      and r: "lib_call P CR (db_handle db) WRITE_RELATIONSHIPS (current otel span) (touch_req [r1]) (lib s) = (r, lib s2)"
      and u: "undisturbed s s2"
      using client_on_go(1) [OF ok assms(4,5), of esc CR db "touch_req [r1]"] by blast
    show ?thesis
    proof (cases r)
      case (Inl e)
      from p obtain A d where A: "simulates V A (lib s)" "A (db_handle db) = Some d" by (auto simp: placed_def)
      from call_replied [where A = A and h = "db_handle db", OF assms(2) A r] Inl have "\<not> ?fine" by auto
      with opened c Inl u show ?thesis by (simp add: channel Let_def map_err_cases body_ok_def)
    next
      case (Inr a)
      from watch_sees_write [OF p assms(2,3,6,7,8) r [unfolded Inr] u opened(2)] opened(1,2) c Inr u
      show ?thesis by (simp add: channel Let_def map_err_cases body_ok_def)
    qed
  qed
qed


definition stream_tests where
  "stream_tests F S CS CR CA N valid otel span =
     [test_read_relationships F S CS CR N True,
      test_calls_succeed_under_a_trace_context F S CS CR CA N True valid otel,
      test_watch_streaming F S CS CR N True otel span]"

definition test_held where
  "test_held fine s r \<longleftrightarrow> (\<exists>e s'. r = Some (e, s') \<and> e \<noteq> Assertion_Failed \<and> (fine \<longrightarrow> e = Passed)
     \<and> balanced s s' \<and> instances (lib s') = instances (lib s))"

lemma on_instance_test:
  assumes "isolates P V" and "authorizes P V CS CR CC key sem view" and "serde_ok S" and "small_responses P"
    and "process_ok s" and "handles_ok (lib s)" and "next_id (lib s) \<noteq> - 1" and "simulates V A (lib s)"
    and "\<not> is_windows P" and "temp_valid P" and "addressed P (lib s)"
    and "\<And>db s1. placed P V view (schema, set rels) db s1 \<Longrightarrow> body_ok fine s1 (body db s1)"
    and "takes \<Longrightarrow> accepts P V esc S CS CR CC (Start_With_Schema schema rels lenient) \<and> fine"
  shows "test_held takes s (on_instance (go_ffi P esc) S CS CR schema rels None lenient body s)"
proof -
  have "\<exists>e s'. on_instance (go_ffi P esc) S CS CR schema rels None lenient body s = Some (e, s')
    \<and> e \<noteq> Assertion_Failed
    \<and> (accepts P V esc S CS CR CC (Start_With_Schema schema rels lenient) \<and> fine \<longrightarrow> e = Passed)
    \<and> balanced s s' \<and> instances (lib s') = instances (lib s)"
    by (rule on_instance_holds [OF assms(1-11)]) (rule assms(12))
  with assms(13) show ?thesis unfolding test_held_def by blast
qed

section \<open>Property\<close>



section \<open>A server and a network on which they pass\<close>

definition schema_text_codec :: "(unit, read_schema_response) codec" where
  "schema_text_codec = \<lparr>encode = (\<lambda>_. []), decode = (\<lambda>bs. Inr \<lparr>read_schema_text = map (\<lambda>b. char_of (unat b)) bs\<rparr>)\<rparr>"

lemma policy_read_schema:
  "reply (policy_packages key sem ws cs) (policy_service key sem ws cs) schema_text_codec READ_SCHEMA () d
    = (if length (fst d) < 2 ^ 31 then Inr \<lparr>read_schema_text = fst d\<rparr>
       else Inl (RpcError ''failed to marshal response: message too large''), d)"
proof -
  have packages: "unmarshal (policy_packages key sem ws cs) ty bs = Inr bs"
    "marshal (policy_packages key sem ws cs) m = (if length m < 2 ^ 31 then Inr m else Inl ''message too large'')"
    "answer (policy_service key sem ws cs) = policy_answer key sem ws cs" for ty bs m
    by (simp_all add: store_packages_def store_service_def)
  have m: "map_of rpc_messages READ_SCHEMA = Some (''ReadSchemaRequest'', ''ReadSchemaResponse'')"
    "c_text READ_SCHEMA = READ_SCHEMA" "READ_SCHEMA \<noteq> WRITE_SCHEMA" "READ_SCHEMA \<noteq> WRITE_RELATIONSHIPS"
    "READ_SCHEMA \<noteq> CHECK_PERMISSION"
    by (simp_all add: method_defs rpc_messages_def full_method_name_def c_text_def)
  have crosses: "utf8_lossy (c_text ''failed to marshal response: message too large'')
    = ''failed to marshal response: message too large''" by code_simp
  have len: "length (to_bytes t) = length t" for t by (simp add: to_bytes_def)
  show ?thesis
    using crosses by (auto simp: reply_def table_reply_def store_rpc_def m packages policy_answer_def schema_text_codec_def
      of_to_bytes len Let_def map_err_def)
qed


lemma contains_prefix: "contains t (u @ v) \<Longrightarrow> contains t u"
  unfolding contains_def list_ex_iff by (blast intro: append_prefixD)

abbreviation stream_writes :: "(relationship, unit, unit) write_relationships_request list" where
  "stream_writes \<equiv> [bootstrap_updates [doc_rel ''doc1'' ''reader'' ''alice'', doc_rel ''doc1'' ''reader'' ''bob''],
     touch_req [doc_rel ''watched'' ''reader'' ''alice'']]"

abbreviation stream_packages where
  "stream_packages \<equiv> policy_packages relationship_key test_meaning stream_writes []"

abbreviation stream_service where
  "stream_service \<equiv> policy_service relationship_key test_meaning stream_writes []"

definition list_stream :: "(read_relationships_request, unit, string \<times> relationship set) stream_answer" where
  "list_stream method q d =
     (case read_filter q of
        None \<Rightarrow> Inl ''no filter''
      | Some f \<Rightarrow> Inr (listing (replicate (card {r \<in> snd d. filter_matches f r}) ())))"

definition list_streams ::
    "obj \<Rightarrow> (string \<times> relationship set) store_world \<Rightarrow> (read_relationships_request, unit) backend" where
  "list_streams c w md method q =
     (case open_conns w c of None \<Rightarrow> Inl ''the client connection is closing'' | Some (srv, d) \<Rightarrow> list_stream method q d)"

text \<open>The first handle with a proxy at a path, and a network of such sockets.\<close>

definition all_handles :: "u64 list" where
  "all_handles = map of_nat [0..<2 ^ 64]"

definition listens :: "'w golib \<Rightarrow> string \<Rightarrow> u64 \<Rightarrow> bool" where
  "listens l path h \<longleftrightarrow> (case instances l h of None \<Rightarrow> False | Some i \<Rightarrow> streaming_addr i = path \<and> client_conn i \<noteq> None)"

definition list_network :: "((string \<times> relationship set) store_world, unit) network" where
  "list_network =
     \<lparr>connects = (\<lambda>to l. None),
      receives = (\<lambda>to l method md q.
        (case to of Http url \<Rightarrow> None
         | Unix_Socket path \<Rightarrow>
             Option.bind (find (listens l path) all_handles) (\<lambda>h.
             Option.bind (instances l h) (\<lambda>i.
             Option.bind (client_conn i) (\<lambda>c.
               proxy_serve (list_streams c (world l)) ''unimplemented'' method md q (\<lambda>_. None)))))),
      watches = (\<lambda>to l q. Watching (\<lambda>l'. [Nothing_Yet, Response 1]))\<rparr>"

lemma in_all_handles: "h \<in> set all_handles"
proof -
  have "unat h < 2 ^ LENGTH(64)" by (rule unsigned_less)
  then have "unat h \<in> set [0..<2 ^ 64]" by (simp only: set_upt atLeastLessThan_iff len_bit0 len_num1) simp
  moreover have "of_nat (unat h) = h" by simp
  ultimately show ?thesis unfolding all_handles_def set_map by (metis image_eqI)
qed

lemma list_network_reaches: "reaches_proxies list_network list_streams ''unimplemented''"
  unfolding reaches_proxies_def
proof (intro allI impI)
  fix l :: "(string \<times> relationship set) store_world golib" and path m md q
  assume "\<exists>i \<in> ran (instances l). streaming_addr i = path \<and> client_conn i \<noteq> None"
  then obtain k i where k: "instances l k = Some i" "streaming_addr i = path" "client_conn i \<noteq> None"
    by (auto simp: ran_def)
  then have "listens l path k" by (simp add: listens_def)
  then obtain h where h: "find (listens l path) all_handles = Some h"
    using in_all_handles [of k] by (cases "find (listens l path) all_handles") (auto simp: find_None_iff)
  then have "listens l path h" by (auto simp: find_Some_iff)
  then obtain j c where j: "instances l h = Some j" "streaming_addr j = path" "client_conn j = Some c"
    by (auto simp: listens_def split: option.splits)
  with h have "receives list_network (Unix_Socket path) l m md q
      = proxy_serve (list_streams c (world l)) ''unimplemented'' m md q (\<lambda>_. None)"
    by (simp add: list_network_def)
  with j show "stream_at list_streams ''unimplemented'' l path m md q (\<lambda>_. None)
      (receives list_network (Unix_Socket path) l m md q)"
    by (auto simp: stream_at_def ran_def)
qed

lemma stream_server_ok:
  "streams_answered stream_service list_streams list_stream" "lists_relationships list_stream id"
  "reports_updates stream_service list_network id"
  "reads_back stream_packages stream_service schema_text_codec id"
proof -
  show "streams_answered stream_service list_streams list_stream"
    by (simp add: streams_answered_def list_streams_def store_service_def)
  show "lists_relationships list_stream id"
    unfolding lists_relationships_def
  proof (intro allI impI)
    fix q :: read_relationships_request and f and d :: "string \<times> relationship set"
    assume "read_filter q = Some f \<and> filter_subject f = None \<and> read_limit q = 0 \<and> read_cursor q = None
      \<and> contains (fst (id d)) (''definition '' @ filter_resource_type f @ '' {'')
      \<and> (read_consistency q = Some \<lparr>requirement = Some (FullyConsistent True)\<rparr> \<or> snd (id d) = {}) \<and> finite (snd (id d))"
    then have "list_stream READ_RELATIONSHIPS q d = Inr (listing (replicate (card {r \<in> snd d. filter_matches f r}) ()))"
      by (simp add: list_stream_def)
    then show "\<exists>ms. length ms = card {r \<in> snd (id d). filter_matches f r}
        \<and> list_stream READ_RELATIONSHIPS q d = Inr (listing ms)" by (intro exI conjI) simp_all
  qed
  show "reports_updates stream_service list_network id"
    unfolding reports_updates_def list_network_def
    by (intro allI impI, rule exI [of _ "[Nothing_Yet]"], rule exI [of _ 1], rule exI [of _ "[]"], elim conjE) auto
  show "reads_back stream_packages stream_service schema_text_codec id"
    unfolding reads_back_def policy_read_schema
    by (auto simp: contains_prefix [of _ "''definition '' @ n" "'' {''" for n, simplified] split: if_splits)
qed

lemma stream_packages_names:
  "temp_names_ok stream_packages" "temp_valid stream_packages" "\<not> is_windows stream_packages"
  by (auto simp: temp_names_ok_def temp_valid_def store_packages_def inj_on_def utf8_valid_append utf8_valid_ascii)

lemma takes_stream_tests:
  "takes_streams stream_packages stream_service esc rfc_serde policy_schema_codec (policy_updates_codec stream_writes)
     schema_text_codec list_network id"
proof -
  have short: "length stream_writes < 2 ^ 31" "length ([] :: check_permission_request list) < 2 ^ 31" by simp_all
  note replies = policy_replies [OF short]
  have schema: "length TEST_SCHEMA < 2 ^ 31" by (simp add: TEST_SCHEMA_def)
  then have "replies_to stream_packages stream_service policy_schema_codec WRITE_SCHEMA \<lparr>schema_text = TEST_SCHEMA\<rparr>"
    unfolding replies_to_def replies(1) by (simp add: to_bytes_def)
  moreover have "replies_to stream_packages stream_service (policy_updates_codec stream_writes) WRITE_RELATIONSHIPS q"
    if "q \<in> set stream_writes" for q unfolding replies_to_def replies(2) using that by simp
  moreover have "starts_well stream_packages esc rfc_serde"
    by (simp add: starts_well_def store_start)
  moreover have "\<exists>a. fst (reply stream_packages stream_service schema_text_codec READ_SCHEMA () d) = Inr a"
    if "id d = (TEST_SCHEMA, {})" for d using that schema by (simp add: policy_read_schema)
  moreover have "connects list_network to l = None" "\<exists>polls. watches list_network to l q = Watching polls" for to l q
    by (simp_all add: list_network_def)
  ultimately show ?thesis unfolding takes_streams_def by simp
qed


end
