(* ===== verification/Rpc_Exports.thy ===== *)
theory Rpc_Exports
  imports Go_Library
begin

text \<open>
  The older exports of \<open>rpc.go\<close>, one per method, which other language bindings may still call: each is
  \<open>runRPC\<close> at its own message types, without trace headers.  They answer as \<open>spicedb_rpc\<close> does.
\<close>

type_synonym ('m, 'w) rpc_export =
  "('m, 'w) packages \<Rightarrow> u64 \<Rightarrow> bytes \<Rightarrow> i32 \<Rightarrow> rpc_out \<Rightarrow> 'w golib process \<Rightarrow> (rpc_out \<times> 'w golib process) option"

text \<open>The code the exports share; \<open>method\<close> is the one the generated client invokes.\<close>

definition typed_export :: "string \<Rightarrow> string \<Rightarrow> ('m, 'w) rpc_export" where
  "typed_export method req_type P handle req len out s = do {
     bs \<leftarrow> go_bytes req len;
     let (r, l) = run_rpc P [] handle method req_type bs (lib s);
     Some (set_out r (s\<lparr>lib := l\<rparr>)) }"

definition spicedb_permissions_check_bulk_permissions :: "('m, 'w) rpc_export" where
  "spicedb_permissions_check_bulk_permissions =
     typed_export (full_method_name ''PermissionsService'' ''CheckBulkPermissions'') ''CheckBulkPermissionsRequest''"

definition spicedb_permissions_check_permission :: "('m, 'w) rpc_export" where
  "spicedb_permissions_check_permission =
     typed_export (full_method_name ''PermissionsService'' ''CheckPermission'') ''CheckPermissionRequest''"

definition spicedb_permissions_delete_relationships :: "('m, 'w) rpc_export" where
  "spicedb_permissions_delete_relationships =
     typed_export (full_method_name ''PermissionsService'' ''DeleteRelationships'') ''DeleteRelationshipsRequest''"

definition spicedb_permissions_expand_permission_tree :: "('m, 'w) rpc_export" where
  "spicedb_permissions_expand_permission_tree =
     typed_export (full_method_name ''PermissionsService'' ''ExpandPermissionTree'') ''ExpandPermissionTreeRequest''"

definition spicedb_permissions_write_relationships :: "('m, 'w) rpc_export" where
  "spicedb_permissions_write_relationships =
     typed_export (full_method_name ''PermissionsService'' ''WriteRelationships'') ''WriteRelationshipsRequest''"

definition spicedb_schema_read_schema :: "('m, 'w) rpc_export" where
  "spicedb_schema_read_schema =
     typed_export (full_method_name ''SchemaService'' ''ReadSchema'') ''ReadSchemaRequest''"

definition spicedb_schema_write_schema :: "('m, 'w) rpc_export" where
  "spicedb_schema_write_schema =
     typed_export (full_method_name ''SchemaService'' ''WriteSchema'') ''WriteSchemaRequest''"

lemmas typed_export_defs =
  spicedb_permissions_check_bulk_permissions_def spicedb_permissions_check_permission_def
  spicedb_permissions_delete_relationships_def spicedb_permissions_expand_permission_tree_def
  spicedb_permissions_write_relationships_def spicedb_schema_read_schema_def spicedb_schema_write_schema_def

text \<open>The exports with the methods they are for.\<close>

definition typed_exports :: "(string \<times> ('m, 'w) rpc_export) list" where
  "typed_exports =
     [(full_method_name ''PermissionsService'' ''CheckBulkPermissions'', spicedb_permissions_check_bulk_permissions),
      (full_method_name ''PermissionsService'' ''CheckPermission'', spicedb_permissions_check_permission),
      (full_method_name ''PermissionsService'' ''DeleteRelationships'', spicedb_permissions_delete_relationships),
      (full_method_name ''PermissionsService'' ''ExpandPermissionTree'', spicedb_permissions_expand_permission_tree),
      (full_method_name ''PermissionsService'' ''WriteRelationships'', spicedb_permissions_write_relationships),
      (full_method_name ''SchemaService'' ''ReadSchema'', spicedb_schema_read_schema),
      (full_method_name ''SchemaService'' ''WriteSchema'', spicedb_schema_write_schema)]"

lemma go_string_none: "trace_metadata (go_string None) (go_string None) = []"
  by (simp add: go_string_def trace_metadata_def)

lemma rpc_messages_distinct: "distinct (map fst rpc_messages)"
  by (simp add: rpc_messages_def full_method_name_def)

lemma rpc_messages_c_text: "m \<in> set (map fst rpc_messages) \<Longrightarrow> c_text m = m"
  by (auto simp: rpc_messages_def full_method_name_def c_text_def)

lemma typed_export_as_rpc:
  assumes "(m, req_type) \<in> set (map (\<lambda>(m, q, a). (m, q)) rpc_messages)"
  shows "typed_export m req_type P h req len out s = spicedb_rpc P h m None None req len out s"
proof -
  from assms obtain resp_type where r: "(m, req_type, resp_type) \<in> set rpc_messages" by auto
  with rpc_messages_distinct have "map_of rpc_messages m = Some (req_type, resp_type)"
    by (simp add: map_of_eq_Some_iff)
  moreover from r have "c_text m = m" by (intro rpc_messages_c_text) force
  ultimately show ?thesis by (simp add: typed_export_def spicedb_rpc_def go_rpc_def go_string_none Let_def)
qed

text \<open>
  Each of the seven older exports does exactly what \<open>spicedb_rpc\<close> does when it is given the name of
  that method and no trace headers: same response or error, same state, same panics; and together they
  cover just the methods \<open>spicedb_rpc\<close> accepts.
\<close>

lemma typed_exports_agree:
  "list_all (\<lambda>(m, f). f P h req len out s = spicedb_rpc P h m None None req len out s) typed_exports
   \<and> set (map fst typed_exports) = set (map fst rpc_messages)"
proof
  show "list_all (\<lambda>(m, f). f P h req len out s = spicedb_rpc P h m None None req len out s) typed_exports"
    unfolding typed_exports_def typed_export_defs list.pred_inject prod.case
    by (intro conjI list.pred_inject(1); rule typed_export_as_rpc; simp add: rpc_messages_def)
  show "set (map fst typed_exports) = set (map fst rpc_messages)"
    by (auto simp: typed_exports_def rpc_messages_def)
qed

end
