(* ===== verification/Library_Facts.thy ===== *)
theory Library_Facts
  imports Sample_Packages
begin

text \<open>
  What the Go library of \<open>src/shared/c\<close> guarantees at its exported functions, and what the safe
  wrappers of \<open>spicedb-embedded-sys\<close> make of it: starts that are all or nothing, disposal that takes
  back what a start did, calls that stay within the C contract, and the two places where the
  pairing breaks (tracers put back out of order, a response longer than a C int).
\<close>

section \<open>Properties of the library\<close>

text \<open>
  C24: \<open>spicedb_start\<close> always returns, also when waiting for a server it has to stop, and it is all or
  nothing: an error with the instances and the global tracer as they were, or one new live
  instance under the next id that remembers the tracer it replaced.
\<close>

theorem start_all_or_nothing:
  "\<exists>t l'. go_start P opts l = Some (t, l') \<and>
     ((\<exists>msg. t = make_error msg) \<and> instances l' = instances l \<and> global_tracer l' = global_tracer l
      \<or> (\<exists>i. t = make_success (Some (start_data (next_id l + 1) (streaming_addr i)
                (if is_windows P then ''tcp'' else ''unix'')))
           \<and> instances l' = (instances l)(next_id l + 1 \<mapsto> i) \<and> next_id l' = next_id l + 1
           \<and> live_instance i \<and> traced i (global_tracer l) (global_tracer l')))"
  using go_start_outcome [of P opts l] unfolding start_failed_def start_succeeded_def by metis



text \<open>
  A start and the dispose of what it started, with nothing between, leave the table of
  instances and the global tracer provider as they were.
\<close>

lemma dispose_undoes_start:
  assumes "golib_ok l" and "instances l (next_id l + 1) = None"
    and "go_start P opts l = Some (t, l1)" and "instances l1 \<noteq> instances l"
  shows "\<exists>l2. go_dispose P (next_id l + 1) l1 = Some (make_success None, l2)
    \<and> instances l2 = instances l \<and> global_tracer l2 = global_tracer l"
proof -
  obtain t' l' where "go_start P opts l = Some (t', l')"
    and o: "start_failed t' l l' \<or> start_succeeded P t' l l'" by (rule go_start_outcome)
  with assms(3,4) obtain i where i: "instances l1 = (instances l)(next_id l + 1 \<mapsto> i)"
    "live_instance i" "traced i (global_tracer l) (global_tracer l1)"
    by (auto simp: start_failed_def start_succeeded_def)
  then have "instances l1 (next_id l + 1) = Some i" by simp
  from go_dispose_valid [OF this live_instance_ok [OF i(2)], of P] i(1,3) assms(2) show ?thesis
    by (auto simp: traced_def fun_upd_idem split: if_splits)
qed

lemma parse_no_options: "parse_start_options None = zero_options"
  by (simp add: parse_start_options_def)

lemma dispose_undoes_start_example:
  "\<exists>t l1 l2. go_start sample_packages None empty_lib = Some (t, l1)
     \<and> go_dispose sample_packages 1 l1 = Some (make_success None, l2) \<and> instances l2 = Map.empty"
proof -
  from sample_go_start [OF parse_no_options, of 1 empty_lib] obtain t l1 where
    g: "go_start sample_packages None empty_lib = Some (t, l1)"
    and i: "instances l1 = [1 \<mapsto> sample_instance 1 (next_ctx empty_lib)]" by (auto simp: empty_lib_ok)
  then have "instances l1 \<noteq> instances empty_lib" by (auto simp: empty_lib_ok fun_eq_iff)
  from dispose_undoes_start [OF empty_lib_ok(1) _ g this] g show ?thesis
    by (auto simp: empty_lib_ok)
qed

text \<open>
  Two traced instances disposed of in the order they were started leave the first one's
  provider, already shut down, as the global one: the tracer is put back as on a stack.
\<close>

lemma dispose_out_of_order_keeps_dead_tracer:
  assumes "golib_ok l" and "instances l h1 = Some i1" and "instances l h2 = Some i2" and "h1 \<noteq> h2"
    and "tracer_provider i1 = Some t1" and "tracer_provider i2 = Some t2"
    and "prev_tracer_provider i2 = t1"
  shows "\<exists>l1 l2. go_dispose P h1 l = Some (make_success None, l1)
    \<and> go_dispose P h2 l1 = Some (make_success None, l2) \<and> instances l2 = (instances l)(h1 := None, h2 := None)
    \<and> global_tracer l2 = t1"
proof -
  from assms have "instance_ok i1" "instance_ok i2" by (auto simp: golib_ok_def)
  from go_dispose_valid [OF assms(2) this(1), of P] obtain l1 where
    l1: "go_dispose P h1 l = Some (make_success None, l1)" "instances l1 = (instances l)(h1 := None)"
    by blast
  with assms(3,4) have "instances l1 h2 = Some i2" by simp
  from go_dispose_valid [OF this \<open>instance_ok i2\<close>, of P] l1 assms(6,7) show ?thesis by auto
qed

definition two_traced :: "string list golib" where
  "two_traced = empty_lib\<lparr>
     instances := [1 \<mapsto> (sample_instance 1 0)\<lparr>tracer_provider := Some 11\<rparr>,
                   2 \<mapsto> (sample_instance 2 1)\<lparr>tracer_provider := Some 12, prev_tracer_provider := 11\<rparr>],
     next_id := 2, global_tracer := 12\<rparr>"

lemma dispose_out_of_order_keeps_dead_tracer_example:
  "\<exists>l1 l2. go_dispose sample_packages 1 two_traced = Some (make_success None, l1)
    \<and> go_dispose sample_packages 2 l1 = Some (make_success None, l2) \<and> instances l2 = Map.empty
    \<and> global_tracer l2 = 11"
proof -
  have "golib_ok two_traced"
    by (auto simp: golib_ok_def two_traced_def instance_ok_def sample_instance_def)
  moreover have "(instances two_traced)(1 := None, 2 := None) = Map.empty"
    by (auto simp: two_traced_def fun_eq_iff)
  ultimately show ?thesis
    using dispose_out_of_order_keeps_dead_tracer [of two_traced 1
      "(sample_instance 1 0)\<lparr>tracer_provider := Some 11\<rparr>" 2
      "(sample_instance 2 1)\<lparr>tracer_provider := Some 12, prev_tracer_provider := 11\<rparr>" 11 12 sample_packages]
    by (auto simp: two_traced_def)
qed

section \<open>Properties of the wrappers\<close>

text \<open>
  C28: no input makes the safe wrapper \<open>raw_call\<close> misuse the library: it always returns, with the heap
  sound, and a request too large or a text with a NUL byte comes back as an error before the call.
\<close>

theorem raw_call_is_safe:
  assumes "heap_ok (mem s)" and "golib_ok (lib s)"
  shows "\<exists>r s'. raw_call (go_ffi P esc) h m tr req s = Some (r, s') \<and> heap_ok (mem s')
    \<and> golib_ok (lib s') \<and> instances (lib s') = instances (lib s)
    \<and> (2 ^ 31 \<le> length req \<or> NUL \<in> set m \<or> (\<exists>t. traceparent tr = Some t \<and> NUL \<in> set t)
         \<or> (\<exists>t. tracestate tr = Some t \<and> NUL \<in> set t) \<longrightarrow> s' = s \<and> (\<exists>e. r = Inl e))"
proof -
  obtain q l where q: "call_outcome (go_rpc P) (go_ffi P esc) h m tr req (lib s) = (q, l)" by fastforce
  from go.raw_call_refines [OF assms q] obtain s' where
    r: "raw_call (go_ffi P esc) h m tr req s = Some (and_then q received, s')" "heap_ok (mem s')"
      "lib s' = l" "golib_ok l" by blast
  have i: "instances l = instances (lib s)"
    using q by (auto simp: call_outcome_def Let_def split: if_splits sum.splits prod.splits
        dest: go_rpc_frame)
  let ?bad = "2 ^ 31 \<le> length req \<or> NUL \<in> set m \<or> (\<exists>t. traceparent tr = Some t \<and> NUL \<in> set t)
    \<or> (\<exists>t. tracestate tr = Some t \<and> NUL \<in> set t)"
  have "raw_call (go_ffi P esc) h m tr req s = Some (Inl e, s)"
    if "c_arguments (go_ffi P esc) m tr = Inl e" "\<not> 2 ^ 31 \<le> length req" for e
    using that by (auto simp: raw_call_def c_int_try_from_def)
  moreover have "\<exists>e. c_arguments (go_ffi P esc) m tr = Inl e" if "?bad" "\<not> 2 ^ 31 \<le> length req"
  proof (cases "c_arguments (go_ffi P esc) m tr")
    case (Inr a)
    with that show ?thesis by (auto simp: c_arguments_eq_Inr)
  qed simp
  moreover have "\<exists>e. raw_call (go_ffi P esc) h m tr req s = Some (Inl e, s)" if "2 ^ 31 \<le> length req"
    using that by (auto simp: raw_call_def c_int_try_from_def)
  ultimately have "?bad \<longrightarrow> (\<exists>e. raw_call (go_ffi P esc) h m tr req s = Some (Inl e, s))" by blast
  with r i show ?thesis by auto
qed

theorem raw_call_is_safe_witness:
  "\<exists>r. raw_call (go_ffi sample_packages (\<lambda>_. False)) 1 [CHR ''m'', NUL] trace_default [] empty_process
     = Some (Inl r, empty_process)"
  using raw_call_is_safe [of empty_process sample_packages "\<lambda>_. False" 1 "[CHR ''m'', NUL]"
      trace_default "[]"]
  by (auto simp: empty_process_parts empty_lib_ok)

text \<open>
  C29: a response of \<open>2 ^ 31\<close> bytes or more, up to \<open>2 ^ 32\<close>, has a negative length as a C int: the caller
  gets an error instead of it, and its buffer is never freed.
\<close>

theorem oversized_response_leaks:
  assumes "heap_ok (mem s)" and "golib_ok (lib s)" and "length req < 2 ^ 31"
    and "NUL \<notin> set m" and "go_rpc P h m None None req (lib s) = (Inr bs, l)"
    and "2 ^ 31 \<le> length bs" and "length bs < 2 ^ 32"
  shows "\<exists>e s' p. raw_call (go_ffi P esc) h m trace_default req s = Some (Inl (RpcError e), s')
    \<and> p \<notin> dom (blocks (mem s)) \<and> blocks (mem s') = (blocks (mem s))(p \<mapsto> CBuf bs)"
proof -
  have args: "c_args_ok m None None" using assms(4) by (simp add: c_args_ok_def)
  let ?out0 = "\<lparr>out_response_bytes = 0, out_response_len = 0, out_error = 0\<rparr>"
  obtain out s' where rpc: "ffi_rpc (go_ffi P esc) h m None None req (of_nat (length req)) ?out0 s
      = Some (out, s')" and d: "delivers (Inr bs) (mem s) out (mem s')"
    using go.rpc_law [OF assms(1,2) args assms(3), of P esc h ?out0] assms(5) by auto
  have bs: "bs \<noteq> []" using assms(6) by auto
  have neg: "sint (of_nat (length bs) :: i32) = int (length bs) - 2 ^ 32"
  proof -
    have "(int (length bs) + 2 ^ 31) mod 2 ^ 32 = int (length bs) + 2 ^ 31 - 2 ^ 32"
    proof -
      have "(int (length bs) + 2 ^ 31) mod 2 ^ 32 = (int (length bs) - 2 ^ 31 + 2 ^ 32) mod 2 ^ 32"
        by (rule arg_cong [of _ _ "\<lambda>x. x mod 2 ^ 32"]) simp
      also have "\<dots> = (int (length bs) - 2 ^ 31) mod 2 ^ 32" by (rule mod_add_self2)
      also have "\<dots> = int (length bs) - 2 ^ 31" using assms(6,7) by (intro mod_pos_pos_trivial) simp_all
      finally show ?thesis by simp
    qed
    then show ?thesis by (simp only: sint_of_nat_i32)
  qed
  have "raw_call (go_ffi P esc) h m trace_default req s = take_response (go_ffi P esc) out s'"
    using rpc assms(3) c_arguments_default [OF assms(4), of "go_ffi P esc"] by (simp add: raw_call_def c_int_try_from_def)
  moreover have "\<exists>e. take_response (go_ffi P esc) out s' = Some (Inl (RpcError e), s')"
    using d neg assms(7) by (simp add: take_response_def delivers_def)
  ultimately show ?thesis using d bs by (auto simp: delivers_def)
qed

definition huge :: bytes where
  "huge = replicate (2 ^ 31) 0"

lemma huge_length: "length huge = 2 ^ 31"
  by (simp only: huge_def length_replicate)

theorem oversized_response_leaks_witness:
  "\<exists>e s' p. raw_call (go_ffi (sample_packages\<lparr>marshal := (\<lambda>_. Inr huge)\<rparr>) (\<lambda>_. False)) 1
        READ_SCHEMA trace_default [] (empty_process\<lparr>lib := empty_lib\<lparr>instances := [1 \<mapsto> sample_instance 1 0]\<rparr>\<rparr>)
      = Some (Inl (RpcError e), s') \<and> blocks (mem s') = [p \<mapsto> CBuf huge]"
proof -
  let ?P = "sample_packages\<lparr>marshal := (\<lambda>_. Inr huge)\<rparr>"
  let ?l = "empty_lib\<lparr>instances := [1 \<mapsto> sample_instance 1 0]\<rparr>"
  let ?s = "empty_process\<lparr>lib := ?l\<rparr>"
  have ok: "heap_ok (mem ?s)" "golib_ok (lib ?s)"
    by (simp_all add: empty_process_parts golib_ok_def instance_ok_def sample_instance_def)
  have nul: "NUL \<notin> set READ_SCHEMA" by (simp add: READ_SCHEMA_def)
  obtain l where g: "go_rpc ?P 1 READ_SCHEMA None None [] (lib ?s) = (Inr huge, l)"
    by (simp add: go_rpc_def READ_SCHEMA_def c_text_def rpc_messages_def full_method_name_def run_rpc_def
        sample_instance_def sample_packages_def logging_def try_world_def)
  have "length ([] :: bytes) < 2 ^ 31" by simp
  from oversized_response_leaks [OF ok this nul g, of "\<lambda>_. False"]
  show ?thesis by (auto simp: huge_length empty_process_def)
qed

end
