(* ===== verification/File_System.thy ===== *)
theory File_System
  imports Prelude "HOL-Library.AList"
begin

text \<open>
  What the build script uses of \<open>std::path\<close>, \<open>std::fs\<close> and \<open>std::process\<close>: absolute paths as lists of
  components, a tree of files and directories, and a host that runs commands and may refuse a
  write.  Of a file the script reads its length and its first bytes; the rest is an opaque body.
\<close>

section \<open>Paths\<close>

type_synonym path = "string list"

text \<open>\<open>Path::join\<close> of one plain component; \<open>ancestors().nth(n)\<close>.\<close>

definition join :: "path \<Rightarrow> string \<Rightarrow> path" where
  "join p c = p @ [c]"

definition ancestor :: "nat \<Rightarrow> path \<Rightarrow> path option" where
  "ancestor n p = (if n \<le> length p then Some (take (length p - n) p) else None)"

fun split_on :: "(char \<Rightarrow> bool) \<Rightarrow> string \<Rightarrow> string list" where
  "split_on f [] = [[]]"
| "split_on f (x # xs) =
     (if f x then [] # split_on f xs
      else (case split_on f xs of [] \<Rightarrow> [[x]] | p # ps \<Rightarrow> (x # p) # ps))"

section \<open>Files\<close>

record file_rec =
  file_len :: nat
  leading :: bytes
  body :: nat

datatype node = File file_rec | Dir nat

type_synonym tree = "(path \<times> node) list"

definition node_at :: "tree \<Rightarrow> path \<Rightarrow> node option" where
  "node_at t p = (if p = [] then Some (Dir 0) else map_of t p)"

definition path_exists :: "tree \<Rightarrow> path \<Rightarrow> bool" where
  "path_exists t p \<longleftrightarrow> node_at t p \<noteq> None"

definition is_dir :: "tree \<Rightarrow> path \<Rightarrow> bool" where
  "is_dir t p \<longleftrightarrow> (case node_at t p of Some (Dir _) \<Rightarrow> True | _ \<Rightarrow> False)"

text \<open>\<open>fs::metadata(p).map(|m| m.len())\<close>; a directory has a length too.\<close>

definition metadata_len :: "tree \<Rightarrow> path \<Rightarrow> nat option" where
  "metadata_len t p =
     (case node_at t p of Some (File f) \<Rightarrow> Some (file_len f) | Some (Dir n) \<Rightarrow> Some n | None \<Rightarrow> None)"

text \<open>\<open>File::open\<close> and \<open>read_exact\<close> into a buffer of \<open>n\<close> bytes.\<close>

definition read_exact :: "tree \<Rightarrow> path \<Rightarrow> nat \<Rightarrow> bytes option" where
  "read_exact t p n =
     (case node_at t p of
        Some (File f) \<Rightarrow> if n \<le> length (leading f) \<and> n \<le> file_len f then Some (take n (leading f)) else None
      | _ \<Rightarrow> None)"

section \<open>The host\<close>

record command =
  program :: string
  args :: "string list"
  current_dir :: "path option"
  envs :: "(string \<times> string) list"

record cmd_output =
  succeeded :: bool
  status_text :: string
  stdout :: string
  stderr :: string

text \<open>
  The environment, the commands (an error is the text of \<open>io::Error\<close>), the paths that cannot be
  written, the text of an error on a path, whether the script itself runs on Windows, and
  \<open>CARGO_PKG_VERSION\<close> at its compilation.
\<close>

record host =
  env :: "string \<rightharpoonup> string"
  exec :: "command \<Rightarrow> tree \<Rightarrow> (string + cmd_output) \<times> tree"
  denied :: "path \<Rightarrow> bool"
  io_text :: "path \<Rightarrow> string"
  host_windows :: bool
  pkg_version :: string

text \<open>
  \<open>PathBuf::from\<close> of an absolute path (empty components and single dots do not count) and
  \<open>Path::display\<close>; on Windows the first component is the drive, both slashes separate and the
  backslash is written.
\<close>

definition path_from :: "host \<Rightarrow> string \<Rightarrow> path" where
  "path_from H s =
     filter (\<lambda>c. c \<noteq> [] \<and> c \<noteq> ''.'')
       (split_on (\<lambda>c. c = CHR ''/'' \<or> host_windows H \<and> c = CHR 0x5C) s)"

definition path_display :: "host \<Rightarrow> path \<Rightarrow> string" where
  "path_display H p =
     (if host_windows H then concat (map (\<lambda>c. c @ [CHR 0x5C]) (butlast p)) @ concat (drop (length p - 1) p)
      else if p = [] then ''/'' else concat (map (\<lambda>c. CHR ''/'' # c) p))"

definition put :: "path \<Rightarrow> node \<Rightarrow> tree \<Rightarrow> tree" where
  "put p n t = AList.update p n t"

text \<open>\<open>fs::copy\<close>: copying a file onto itself opens it for writing first, which empties it.\<close>

definition fs_copy :: "host \<Rightarrow> path \<Rightarrow> path \<Rightarrow> tree \<Rightarrow> string + tree" where
  "fs_copy H src dst t =
     (case node_at t src of
        Some (File f) \<Rightarrow>
          if dst = [] \<or> denied H dst \<or> \<not> is_dir t (butlast dst) \<or> is_dir t dst then Inl (io_text H dst)
          else Inr (put dst (File (if src = dst then \<lparr>file_len = 0, leading = [], body = 0\<rparr> else f)) t)
      | _ \<Rightarrow> Inl (io_text H src))"

definition fs_remove_file :: "host \<Rightarrow> path \<Rightarrow> tree \<Rightarrow> string + tree" where
  "fs_remove_file H p t =
     (case node_at t p of
        Some (File f) \<Rightarrow> if denied H p then Inl (io_text H p) else Inr (AList.delete p t)
      | _ \<Rightarrow> Inl (io_text H p))"

text \<open>\<open>fs::create_dir_all\<close>: every missing directory on the way, from the root down.\<close>

fun create_dirs :: "host \<Rightarrow> path \<Rightarrow> path \<Rightarrow> tree \<Rightarrow> string + tree" where
  "create_dirs H base [] t = Inr t"
| "create_dirs H base (c # cs) t =
     (let p = base @ [c]
      in case node_at t p of
           Some (Dir _) \<Rightarrow> create_dirs H p cs t
         | Some (File _) \<Rightarrow> Inl (io_text H p)
         | None \<Rightarrow> if denied H p then Inl (io_text H p) else create_dirs H p cs (put p (Dir 0) t))"

definition create_dir_all :: "host \<Rightarrow> path \<Rightarrow> tree \<Rightarrow> string + tree" where
  "create_dir_all H p t = create_dirs H [] p t"

text \<open>\<open>fs::read_dir\<close>: the names of the entries, in the order of the tree.\<close>

definition read_dir :: "host \<Rightarrow> path \<Rightarrow> tree \<Rightarrow> string + string list" where
  "read_dir H p t =
     (if is_dir t p
      then Inr (remdups (map (\<lambda>(q, n). last q) (filter (\<lambda>(q, n). q \<noteq> [] \<and> butlast q = p) t)))
      else Inl (io_text H p))"

section \<open>Scripts\<close>

text \<open>A step of a script ends, panics, or does not return.\<close>

datatype 'a outcome = Done 'a | Panic string | Diverge

record build =
  tree_of :: tree
  printed :: "string list"
  warned :: "string list"
  commands :: "command list"

type_synonym 'a script = "build \<Rightarrow> 'a outcome \<times> build"

definition return :: "'a \<Rightarrow> 'a script" where
  "return x s = (Done x, s)"

definition panic :: "string \<Rightarrow> 'a script" where
  "panic msg s = (Panic msg, s)"

definition bind_script :: "'a script \<Rightarrow> ('a \<Rightarrow> 'b script) \<Rightarrow> 'b script" where
  "bind_script m f s =
     (case m s of
        (Done x, s') \<Rightarrow> f x s'
      | (Panic e, s') \<Rightarrow> (Panic e, s')
      | (Diverge, s') \<Rightarrow> (Diverge, s'))"

definition println :: "string \<Rightarrow> unit script" where
  "println line s = (Done (), s\<lparr>printed := printed s @ [line]\<rparr>)"

definition eprintln :: "string \<Rightarrow> unit script" where
  "eprintln line s = (Done (), s\<lparr>warned := warned s @ [line]\<rparr>)"

definition ask :: "(tree \<Rightarrow> 'a) \<Rightarrow> 'a script" where
  "ask f s = (Done (f (tree_of s)), s)"

text \<open>A file operation whose error is a value, and a command; commands are also logged.\<close>

definition try_fs :: "(tree \<Rightarrow> string + tree) \<Rightarrow> (string + unit) script" where
  "try_fs f s =
     (case f (tree_of s) of
        Inl e \<Rightarrow> (Done (Inl e), s)
      | Inr t \<Rightarrow> (Done (Inr ()), s\<lparr>tree_of := t\<rparr>))"

definition run_command :: "host \<Rightarrow> command \<Rightarrow> (string + cmd_output) script" where
  "run_command H c s =
     (let (r, t) = exec H c (tree_of s)
      in (Done r, s\<lparr>tree_of := t, commands := commands s @ [c]\<rparr>))"

fun print_all :: "string list \<Rightarrow> unit script" where
  "print_all [] = return ()"
| "print_all (l # ls) = bind_script (println l) (\<lambda>_. print_all ls)"

named_theorems script_simps

lemma return_run [script_simps]: "return x s = (Done x, s)"
  by (simp add: return_def)

lemma panic_run [script_simps]: "panic e s = (Panic e, s)"
  by (simp add: panic_def)

lemma println_run [script_simps]: "println l s = (Done (), s\<lparr>printed := printed s @ [l]\<rparr>)"
  by (simp add: println_def)

lemma eprintln_run [script_simps]: "eprintln l s = (Done (), s\<lparr>warned := warned s @ [l]\<rparr>)"
  by (simp add: eprintln_def)

lemma ask_run [script_simps]: "ask f s = (Done (f (tree_of s)), s)"
  by (simp add: ask_def)

lemma bind_Done: "m s = (Done x, s') \<Longrightarrow> bind_script m f s = f x s'"
  by (simp add: bind_script_def)

lemma bind_simps [script_simps]:
  "bind_script (return x) f s = f x s"
  "bind_script (panic e) f s = (Panic e, s)"
  "bind_script (println l) g s = g () (s\<lparr>printed := printed s @ [l]\<rparr>)"
  "bind_script (eprintln l) g s = g () (s\<lparr>warned := warned s @ [l]\<rparr>)"
  "bind_script (ask h) k s = k (h (tree_of s)) s"
  by (simp_all add: bind_script_def script_simps)

lemma bind_try_fs:
  "bind_script (try_fs h) k s =
     (case h (tree_of s) of Inl e \<Rightarrow> k (Inl e) s | Inr t \<Rightarrow> k (Inr ()) (s\<lparr>tree_of := t\<rparr>))"
  by (simp add: bind_script_def try_fs_def split: sum.split)

lemma bind_assoc: "bind_script (bind_script m f) g s = bind_script m (\<lambda>x. bind_script (f x) g) s"
  by (auto simp: bind_script_def split: prod.splits outcome.splits)

lemma bind_eq_Done:
  "bind_script m f s = (Done y, s'') \<longleftrightarrow> (\<exists>x s'. m s = (Done x, s') \<and> f x s' = (Done y, s''))"
  by (auto simp: bind_script_def split: prod.splits outcome.splits)

lemma node_at_put:
  "p \<noteq> [] \<Longrightarrow> node_at (put p n t) q = (if q = p then Some n else node_at t q)"
  by (auto simp: node_at_def put_def update_conv')

lemma fs_copy_Inr:
  assumes "fs_copy H src dst t = Inr t'"
  obtains f where "node_at t src = Some (File f)" and "dst \<noteq> []"
    and "t' = put dst (File (if src = dst then \<lparr>file_len = 0, leading = [], body = 0\<rparr> else f)) t"
  using assms by (auto simp: fs_copy_def split: option.splits node.splits if_splits)

end
