(* ===== verification/Build_Script.thy ===== *)
theory Build_Script
  imports File_System Utf8
begin

text \<open>
  \<open>src/rust/spicedb-embedded-sys/build.rs\<close>: how the C shared library gets to the linker.  Every
  function of the file is a script over the file tree, the standard output, the environment and
  the commands of the host.  Paths are absolute.
\<close>

section \<open>Target and library names\<close>

definition env_or_empty :: "host \<Rightarrow> string \<Rightarrow> string" where
  "env_or_empty H k = unwrap_or (env H k) []"

definition target_rid :: "host \<Rightarrow> string script" where
  "target_rid H =
     (let os = env_or_empty H ''CARGO_CFG_TARGET_OS''; arch = env_or_empty H ''CARGO_CFG_TARGET_ARCH''
      in if (os, arch) = (''linux'', ''x86_64'') then return ''linux-x64''
         else if (os, arch) = (''linux'', ''aarch64'') then return ''linux-arm64''
         else if (os, arch) = (''macos'', ''aarch64'') then return ''osx-arm64''
         else if (os, arch) = (''windows'', ''x86_64'') then return ''win-x64''
         else panic (''spicedb-embedded-sys does not support target '' @ os @ ''-'' @ arch
           @ ''. Supported: linux-x64, linux-arm64, osx-arm64, win-x64.''))"

definition MIN_LIB_SIZE_BYTES :: nat where
  "MIN_LIB_SIZE_BYTES = 1000000"

definition file_size_at_least :: "path \<Rightarrow> nat \<Rightarrow> tree \<Rightarrow> bool" where
  "file_size_at_least p n t = (case metadata_len t p of Some m \<Rightarrow> n \<le> m | None \<Rightarrow> False)"

definition lib_artifact_name_and_path :: "string \<Rightarrow> path \<Rightarrow> string \<times> path" where
  "lib_artifact_name_and_path rid out_dir =
     (let (name, ext) =
        (if starts_with rid ''osx-'' then (''libspicedb'', ''dylib'')
         else if starts_with rid ''win-'' then (''spicedb'', ''dll'')
         else (''libspicedb'', ''so''));
          lib_filename = name @ ''.'' @ ext
      in (lib_filename, join out_dir lib_filename))"

section \<open>Copying the Go source\<close>

text \<open>The first argument after the host bounds the depth of the directories.\<close>

fun copy_dir_recursive :: "host \<Rightarrow> nat \<Rightarrow> path \<Rightarrow> path \<Rightarrow> (string + unit) script"
and copy_entries :: "host \<Rightarrow> nat \<Rightarrow> path \<Rightarrow> path \<Rightarrow> string list \<Rightarrow> (string + unit) script" where
  "copy_dir_recursive H 0 src dest = (\<lambda>s. (Diverge, s))"
| "copy_dir_recursive H (Suc k) src dest =
     bind_script (try_fs (create_dir_all H dest)) (\<lambda>r.
       case r of Inl e \<Rightarrow> return (Inl e)
       | Inr _ \<Rightarrow> bind_script (ask (read_dir H src)) (\<lambda>es.
           case es of Inl e \<Rightarrow> return (Inl e) | Inr names \<Rightarrow> copy_entries H k src dest names))"
| "copy_entries H k src dest [] = return (Inr ())"
| "copy_entries H k src dest (n # ns) =
     bind_script (ask (\<lambda>t. is_dir t (join src n))) (\<lambda>d.
     bind_script (if d then copy_dir_recursive H k (join src n) (join dest n)
                  else try_fs (fs_copy H (join src n) (join dest n))) (\<lambda>r.
       case r of Inl e \<Rightarrow> return (Inl e) | Inr _ \<Rightarrow> copy_entries H k src dest ns))"

definition tree_depth :: "tree \<Rightarrow> nat" where
  "tree_depth t = foldr (\<lambda>(p, n) d. max (length p) d) t 0"

definition ensure_go_source_in_crate :: "host \<Rightarrow> path \<Rightarrow> unit script" where
  "ensure_go_source_in_crate H manifest_dir =
     (case ancestor 2 manifest_dir of
        None \<Rightarrow> return ()
      | Some repo_root \<Rightarrow>
          (let repo_shared_c = join (join repo_root ''shared'') ''c''
           in bind_script (ask (\<lambda>t. path_exists t (join repo_shared_c ''go.mod''))) (\<lambda>present.
              if \<not> present then return ()
              else
                bind_script (println (''cargo:rerun-if-changed='' @ path_display H repo_shared_c)) (\<lambda>_.
                bind_script (ask tree_depth) (\<lambda>d.
                bind_script (copy_dir_recursive H (Suc d) repo_shared_c
                  (join (join manifest_dir ''shared'') ''c'')) (\<lambda>r.
                case r of Inl e \<Rightarrow> eprintln (''cargo:warning=copy shared/c into -sys crate: '' @ e)
                | Inr _ \<Rightarrow> return ()))))))"

section \<open>Building from source\<close>

text \<open>\<open>str::lines\<close>: the pieces between line feeds, a trailing empty one left out, a final carriage return cut.\<close>

definition cut_cr :: "string \<Rightarrow> string" where
  "cut_cr l = (if l \<noteq> [] \<and> last l = CHR 0x0D then butlast l else l)"

definition lines_of :: "string \<Rightarrow> string list" where
  "lines_of t =
     (let ls = split_on (\<lambda>c. c = CHR 0x0A) t
      in map cut_cr (butlast ls) @ (if last ls = [] then [] else [last ls]))"

definition go_build :: "host \<Rightarrow> path \<Rightarrow> path \<Rightarrow> command" where
  "go_build H shared_c out_lib =
     \<lparr>program = ''go'', args = [''build'', ''-buildmode=c-shared'', ''-o'', path_display H out_lib, ''.''],
      current_dir = Some shared_c, envs = [(''CGO_ENABLED'', ''1'')]\<rparr>"

definition try_build_from_source :: "host \<Rightarrow> path \<Rightarrow> path \<Rightarrow> string \<Rightarrow> bool script" where
  "try_build_from_source H manifest_dir out_dir lib_filename =
     (let shared_c = join (join manifest_dir ''shared'') ''c''; out_lib = join out_dir lib_filename
      in bind_script (ask (\<lambda>t. path_exists t (join shared_c ''go.mod''))) (\<lambda>present.
         if \<not> present then return False
         else
           bind_script (try_fs (create_dir_all H out_dir)) (\<lambda>_.
           bind_script (run_command H (go_build H shared_c out_lib)) (\<lambda>r.
           case r of
             Inl e \<Rightarrow>
               bind_script (println (''cargo:warning=spicedb-embedded-sys: go build failed to run: '' @ e))
                 (\<lambda>_. return False)
           | Inr res \<Rightarrow>
               if \<not> succeeded res then
                 bind_script (println (''cargo:warning=spicedb-embedded-sys: go build exited with ''
                   @ status_text res)) (\<lambda>_.
                 bind_script (print_all (map (\<lambda>l. ''cargo:warning=spicedb-embedded-sys: go stdout: '' @ l)
                   (lines_of (utf8_lossy (stdout res))))) (\<lambda>_.
                 bind_script (print_all (map (\<lambda>l. ''cargo:warning=spicedb-embedded-sys: go stderr: '' @ l)
                   (lines_of (utf8_lossy (stderr res))))) (\<lambda>_. return False)))
               else
                 bind_script
                   (if ends_with lib_filename ''.dll'' then
                      bind_script (ask (\<lambda>t. path_exists t (join shared_c ''spicedb.def''))) (\<lambda>d.
                      if d then bind_script
                          (try_fs (fs_copy H (join shared_c ''spicedb.def'') (join out_dir ''spicedb.def'')))
                          (\<lambda>_. return ())
                      else return ())
                    else return ()) (\<lambda>_.
                 bind_script (ask (\<lambda>t. unwrap_or (metadata_len t out_lib) 0)) (\<lambda>size.
                 bind_script (ask (\<lambda>t. path_exists t out_lib
                     \<and> file_size_at_least out_lib MIN_LIB_SIZE_BYTES t)) (\<lambda>ok.
                 if ok then
                   bind_script (println (''cargo:rerun-if-changed='' @ path_display H shared_c))
                     (\<lambda>_. return True)
                 else
                   bind_script (println (''cargo:warning=spicedb-embedded-sys: go build succeeded but ''
                     @ path_display H out_lib @ '' is '' @ dec size @ '' bytes (need >= ''
                     @ dec MIN_LIB_SIZE_BYTES @ ''), skipping build-from-source''))
                     (\<lambda>_. return False))))))))"

section \<open>Downloading a release\<close>

definition is_ascii_alphanumeric :: "char \<Rightarrow> bool" where
  "is_ascii_alphanumeric c \<longleftrightarrow>
     (let n = (of_char c :: nat) in 48 \<le> n \<and> n \<le> 57 \<or> 65 \<le> n \<and> n \<le> 90 \<or> 97 \<le> n \<and> n \<le> 122)"

definition validate_release_version :: "string \<Rightarrow> unit script" where
  "validate_release_version version =
     (if version = [] \<or> \<not> list_all (\<lambda>c. is_ascii_alphanumeric c \<or> c = CHR ''.'' \<or> c = CHR ''-'') version
      then panic (''Invalid SPICEDB_EMBEDDED_RELEASE_VERSION '' @ [CHR 0x27] @ version @ [CHR 0x27]
        @ '': only alphanumeric, dot, hyphen allowed'')
      else return ())"

definition release_url :: "string \<Rightarrow> string \<Rightarrow> string" where
  "release_url rid version =
     ''https://github.com/borkfork/spicedb-embedded/releases/download/v'' @ version
       @ ''/libspicedb-'' @ rid @ ''.tar.gz''"

definition curl :: "host \<Rightarrow> path \<Rightarrow> string \<Rightarrow> command" where
  "curl H archive url =
     \<lparr>program = ''curl'', args = [''-L'', ''-f'', ''-s'', ''-o'', path_display H archive, url],
      current_dir = None, envs = []\<rparr>"

definition tar :: "host \<Rightarrow> path \<Rightarrow> path \<Rightarrow> command" where
  "tar H archive out_dir =
     \<lparr>program = ''tar'', args = [''-xzf'', path_display H archive, ''-C'', path_display H out_dir],
      current_dir = None, envs = []\<rparr>"

text \<open>Whether a file looks like a gzip archive: at least 100 bytes, the first two 1F 8B.\<close>

definition looks_like_gzip :: "path \<Rightarrow> tree \<Rightarrow> bool" where
  "looks_like_gzip archive t \<longleftrightarrow>
     100 \<le> unwrap_or (metadata_len t archive) 0 \<and> read_exact t archive 2 = Some [0x1f, 0x8b]"

text \<open>The end of \<open>download_from_release\<close>: the extracted library has to be there, and large enough.\<close>

definition check_extracted :: "host \<Rightarrow> string \<Rightarrow> path \<Rightarrow> path \<Rightarrow> unit script" where
  "check_extracted H rid archive out_dir =
     (let lib_filename = fst (lib_artifact_name_and_path rid out_dir); lib_path = join out_dir lib_filename
      in bind_script (ask (\<lambda>t. path_exists t lib_path)) (\<lambda>present.
         if \<not> present then
           panic (''After extracting '' @ path_display H archive @ '', '' @ path_display H lib_path
             @ '' was not found. Tarball may have wrong layout (expected ./'' @ lib_filename @ '' at root).'')
         else
           bind_script (ask (\<lambda>t. (file_size_at_least lib_path MIN_LIB_SIZE_BYTES t,
               unwrap_or (metadata_len t lib_path) 0))) (\<lambda>(large, size).
           if large then return ()
           else panic (''After extracting '' @ path_display H archive @ '', '' @ path_display H lib_path @ '' is ''
             @ dec size @ '' bytes (need at least '' @ dec MIN_LIB_SIZE_BYTES
             @ ''). Delete target and retry, or set SPICEDB_EMBEDDED_RELEASE_VERSION.''))))"

definition download_from_release :: "host \<Rightarrow> string \<Rightarrow> string \<Rightarrow> path \<Rightarrow> unit script" where
  "download_from_release H rid version out_dir =
     (let url = release_url rid version; archive = join out_dir ''libspicedb.tar.gz''
      in bind_script (run_command H (curl H archive url)) (\<lambda>r.
         case r of
           Inl e \<Rightarrow> panic (''Failed to run curl to download '' @ url @ '': '' @ e
             @ ''. Install curl or use a local prebuild.'')
         | Inr st \<Rightarrow>
             if \<not> succeeded st then
               panic (''curl failed ('' @ status_text st @ ''). Check network and that release v'' @ version
                 @ '' exists with asset libspicedb-'' @ rid @ ''.tar.gz'')
             else
               bind_script (ask (\<lambda>t. (metadata_len t archive, looks_like_gzip archive t))) (\<lambda>(len, gz).
               case len of
                 None \<Rightarrow> panic (''failed to stat downloaded file '' @ path_display H archive @ '': ''
                   @ io_text H archive)
               | Some n \<Rightarrow>
                   if \<not> gz then
                     bind_script (try_fs (fs_remove_file H archive)) (\<lambda>_.
                       panic (''Downloaded file from '' @ url @ '' is '' @ dec n
                         @ '' bytes and does not look like gzip (expected release asset libspicedb-''
                         @ rid @ ''.tar.gz). If the URL returned a 404/HTML page, check that release v''
                         @ version @ '' exists and has that asset. Try clearing the build: ''
                         @ ''cargo clean -p spicedb-embedded-sys''))
                   else
                     bind_script (run_command H (tar H archive out_dir)) (\<lambda>q.
                     case q of
                       Inl e \<Rightarrow> panic (''Failed to run tar to extract '' @ path_display H archive @ '': '' @ e)
                     | Inr st2 \<Rightarrow>
                         if \<not> succeeded st2 then
                           panic (''tar failed ('' @ status_text st2 @ '') extracting '' @ path_display H archive)
                         else
                           bind_script (try_fs (fs_remove_file H archive)) (\<lambda>_.
                             check_extracted H rid archive out_dir)))))"

section \<open>The import library on Windows\<close>

definition vswhere :: path where
  "vswhere = [''C:'', ''Program Files (x86)'', ''Microsoft Visual Studio'', ''Installer'', ''vswhere.exe'']"

text \<open>\<open>str::trim_end\<close> on ASCII text.\<close>

definition trim_end :: "string \<Rightarrow> string" where
  "trim_end s = rev (dropWhile is_ascii_space (rev s))"

text \<open>The first version directory under \<open>vc_tools\<close> that holds the tool.\<close>

definition lib_exe_in :: "path \<Rightarrow> string \<Rightarrow> path" where
  "lib_exe_in vc_tools n =
     join (join (join (join (join vc_tools n) ''bin'') ''Hostx64'') ''x64'') ''lib.exe''"

definition find_msvc_lib_exe :: "host \<Rightarrow> path option script" where
  "find_msvc_lib_exe H =
     (if \<not> host_windows H then return None
      else
        bind_script (ask (\<lambda>t. path_exists t vswhere)) (\<lambda>present.
        if \<not> present then return None
        else
          bind_script (run_command H \<lparr>program = path_display H vswhere,
            args = [''-latest'', ''-property'', ''installationPath''], current_dir = None, envs = []\<rparr>) (\<lambda>r.
          case r of
            Inl e \<Rightarrow> return None
          | Inr res \<Rightarrow>
              if \<not> succeeded res then return None
              else if \<not> utf8_valid (stdout res) then return None
              else
                (let vc_tools = join (join (join (path_from H (trim_end (stdout res))) ''VC'') ''Tools'') ''MSVC''
                 in bind_script (ask (\<lambda>t. (read_dir H vc_tools t, t))) (\<lambda>(es, t).
                    case es of
                      Inl e \<Rightarrow> return None
                    | Inr names \<Rightarrow>
                        return (List.find (path_exists t) (map (lib_exe_in vc_tools) names)))))))"

definition try_generate_import_lib_win :: "host \<Rightarrow> path \<Rightarrow> path \<Rightarrow> (unit + unit) script" where
  "try_generate_import_lib_win H def_file lib_file =
     bind_script (find_msvc_lib_exe H) (\<lambda>found.
     case found of
       None \<Rightarrow> return (Inl ())
     | Some lib_exe \<Rightarrow>
         bind_script (run_command H \<lparr>program = path_display H lib_exe,
           args = [''/def:'' @ path_display H def_file, ''/out:'' @ path_display H lib_file, ''/machine:x64''],
           current_dir = None, envs = []\<rparr>) (\<lambda>r.
         case r of
           Inl e \<Rightarrow> return (Inl ())
         | Inr st \<Rightarrow> if succeeded st then return (Inr ()) else return (Inl ())))"

definition generate_import_lib_windows :: "host \<Rightarrow> path \<Rightarrow> path \<Rightarrow> unit script" where
  "generate_import_lib_windows H def_dir out_dir =
     (let def_file = join def_dir ''spicedb.def''; lib_file = join out_dir ''spicedb.lib''
      in bind_script (ask (\<lambda>t. path_exists t def_file)) (\<lambda>present.
         if \<not> present then return ()
         else
           bind_script (try_generate_import_lib_win H def_file lib_file) (\<lambda>r.
           case r of
             Inr _ \<Rightarrow> return ()
           | Inl _ \<Rightarrow>
               panic (''Failed to generate spicedb.lib. MSVC needs the import library to link the DLL. ''
                 @ ''Install Visual Studio Build Tools. From Git Bash: scripts/generate-dll-import-lib.sh ''
                 @ path_display H def_file @ '' '' @ path_display H out_dir))))"

section \<open>Linking\<close>

definition expect_env :: "host \<Rightarrow> string \<Rightarrow> string script" where
  "expect_env H k =
     (case env H k of None \<Rightarrow> panic (k @ '' set by Cargo: NotPresent'') | Some v \<Rightarrow> return v)"

definition copy_lib_to_target :: "host \<Rightarrow> path \<Rightarrow> string \<Rightarrow> unit script" where
  "copy_lib_to_target H lib_path lib_filename =
     bind_script (expect_env H ''OUT_DIR'') (\<lambda>out_dir.
     case ancestor 3 (path_from H out_dir) of
       None \<Rightarrow> return ()
     | Some target_dir \<Rightarrow>
         bind_script (try_fs (fs_copy H lib_path (join target_dir lib_filename))) (\<lambda>_. return ()))"

definition emit_rpath :: "host \<Rightarrow> path \<Rightarrow> unit script" where
  "emit_rpath H runtime_lib_dir =
     (let target_os = env_or_empty H ''CARGO_CFG_TARGET_OS'';
          rpath = (\<lambda>origin.
            bind_script (println (''cargo:rustc-link-arg=-Wl,-rpath,'' @ origin)) (\<lambda>_.
            println (''cargo:rustc-link-arg=-Wl,-rpath,'' @ path_display H runtime_lib_dir)))
      in bind_script (if target_os = ''macos'' then rpath ''@executable_path'' else return ()) (\<lambda>_.
         if target_os = ''linux'' then rpath ''$ORIGIN'' else return ()))"

section \<open>The script\<close>

text \<open>\<open>run\<close> up to the library to link: a local prebuild, else a build, else a download.\<close>

definition obtain_prebuild ::
    "host \<Rightarrow> string \<Rightarrow> string option \<Rightarrow> path \<Rightarrow> path \<Rightarrow> string \<Rightarrow> (path \<times> path) script" where
  "obtain_prebuild H rid release_version manifest_dir out_dir lib_filename =
     (let prebuild_dir = join (join manifest_dir ''prebuilds'') rid;
          prebuild_crate = join prebuild_dir lib_filename;
          prebuild = join out_dir lib_filename
      in bind_script (ask (\<lambda>t. path_exists t prebuild_crate
             \<and> file_size_at_least prebuild_crate MIN_LIB_SIZE_BYTES t)) (\<lambda>local.
         if local then return (prebuild_crate, prebuild_dir)
         else
           bind_script (try_build_from_source H manifest_dir out_dir lib_filename) (\<lambda>built.
           if built then
             bind_script (ask (\<lambda>t. path_exists t prebuild)) (\<lambda>present.
             if \<not> present then
               panic (''Build from source reported success but library not found at ''
                 @ path_display H prebuild @ ''.'')
             else return (prebuild, out_dir))
           else
             (case or_else release_version (env H ''SPICEDB_EMBEDDED_RELEASE_VERSION'') of
                Some version \<Rightarrow>
                  bind_script (validate_release_version version) (\<lambda>_.
                  bind_script (download_from_release H rid version out_dir) (\<lambda>_.
                  bind_script (ask (\<lambda>t. path_exists t prebuild)) (\<lambda>present.
                  if \<not> present then
                    panic (''Download completed but library not found at '' @ path_display H prebuild
                      @ ''. Tarball may have wrong layout.'')
                  else return (prebuild, out_dir))))
              | None \<Rightarrow>
                  panic (''Prebuild not found for '' @ rid @ ''. Looked in '' @ path_display H prebuild_crate
                    @ ''. Build from source: install Go (CGO enabled) and build from repo (mise run shared-c-build), ''
                    @ ''or run ./scripts/stage-all-prebuilds.sh to stage into spicedb-embedded-sys/prebuilds/<rid>. ''
                    @ ''When using the published crate, the build script uses CARGO_PKG_VERSION to download the lib from GitHub Release.'')))))"

text \<open>The end of \<open>run\<close>: what the linker is told.\<close>

definition finish_link :: "host \<Rightarrow> path \<Rightarrow> path \<Rightarrow> string \<Rightarrow> unit script" where
  "finish_link H out_dir lib_path lib_filename =
     bind_script (println (''cargo:rustc-link-search=native='' @ path_display H out_dir)) (\<lambda>_.
     bind_script (println ''cargo:rustc-link-lib=dylib=spicedb'') (\<lambda>_.
     bind_script (copy_lib_to_target H lib_path lib_filename) (\<lambda>_.
     case ancestor 3 out_dir of
       None \<Rightarrow> return ()
     | Some target_dir \<Rightarrow> emit_rpath H target_dir)))"

text \<open>\<open>run\<close> from the library found to there: copy it into place and check it.\<close>

definition link_library :: "host \<Rightarrow> string \<Rightarrow> path \<Rightarrow> string \<Rightarrow> path \<Rightarrow> path \<Rightarrow> path \<Rightarrow> unit script" where
  "link_library H rid out_dir lib_filename lib_path prebuild prebuild_dir =
     bind_script (ask (\<lambda>t. path_exists t prebuild)) (\<lambda>present.
     if \<not> present then
       panic (''Expected prebuilt library at '' @ path_display H prebuild
         @ '' after attempting local prebuild, build-from-source, or download, but it was not found. Target rid: ''
         @ rid @ ''. Expected path in OUT_DIR: '' @ path_display H lib_path @ ''.'')
     else
       bind_script (println (''cargo:rerun-if-changed='' @ path_display H prebuild)) (\<lambda>_.
       bind_script
         (if prebuild \<noteq> lib_path then
            bind_script (try_fs (fs_copy H prebuild lib_path)) (\<lambda>r.
            case r of Inl e \<Rightarrow> panic (''copy prebuild to OUT_DIR: '' @ e) | Inr _ \<Rightarrow> return ())
          else return ()) (\<lambda>_.
       bind_script (ask (\<lambda>t. (file_size_at_least lib_path MIN_LIB_SIZE_BYTES t,
           unwrap_or (metadata_len t lib_path) 0))) (\<lambda>(large, size).
       if \<not> large then
         panic (''spicedb-embedded-sys: library at '' @ path_display H lib_path @ '' is '' @ dec size
           @ '' bytes (need at least '' @ dec MIN_LIB_SIZE_BYTES
           @ ''). The linker would fail. Build-from-source or download produced an invalid or truncated file.'')
       else
         bind_script
           (if env_or_empty H ''CARGO_CFG_TARGET_OS'' = ''windows''
            then generate_import_lib_windows H prebuild_dir out_dir else return ()) (\<lambda>_.
           finish_link H out_dir lib_path lib_filename)))))"

definition run :: "host \<Rightarrow> string \<Rightarrow> string option \<Rightarrow> unit script" where
  "run H rid release_version =
     bind_script (expect_env H ''OUT_DIR'') (\<lambda>out.
     bind_script (expect_env H ''CARGO_MANIFEST_DIR'') (\<lambda>man.
     let out_dir = path_from H out; manifest_dir = path_from H man;
         (lib_filename, lib_path) = lib_artifact_name_and_path rid out_dir
     in bind_script (ensure_go_source_in_crate H manifest_dir) (\<lambda>_.
        bind_script (obtain_prebuild H rid release_version manifest_dir out_dir lib_filename)
          (\<lambda>(prebuild, prebuild_dir).
            link_library H rid out_dir lib_filename lib_path prebuild prebuild_dir))))"

definition main :: "host \<Rightarrow> unit script" where
  "main H =
     bind_script (println ''cargo:rerun-if-env-changed=DOCS_RS'') (\<lambda>_.
     if env H ''DOCS_RS'' \<noteq> None then return ()
     else bind_script (target_rid H) (\<lambda>rid. run H rid (Some (pkg_version H))))"

end
