(* ===== verification/Script_Logic.thy ===== *)
theory Script_Logic
  imports Build_Script
begin

text \<open>
  What every path through a script has in common.  A contract relates the state before to the kind of
  end and the state after; the locale \<open>quiet_contract\<close> asks it to hold of the single effects and to
  compose, and gives it for the combinators and the directory copy, \<open>script_contract\<close> adds warnings and
  \<open>script_commands\<close> the commands it allows, which gives it for the whole build script.  The contracts
  are silence, the commands that are run, and that scripts end.
\<close>

definition strip :: "'a outcome \<Rightarrow> unit outcome" where
  "strip r = map_outcome (\<lambda>_. ()) r"

lemma strip_simps [simp]:
  "strip (Done x) = Done ()" "strip (Panic e) = Panic e" "strip Diverge = Diverge"
  "strip r = Diverge \<longleftrightarrow> r = Diverge"
  by (simp_all add: strip_def) (cases r; simp)

definition satisfies :: "(build \<Rightarrow> unit outcome \<Rightarrow> build \<Rightarrow> bool) \<Rightarrow> 'a script \<Rightarrow> bool" where
  "satisfies R m \<longleftrightarrow> (\<forall>s. R s (strip (fst (m s))) (snd (m s)))"

lemma satisfiesI: "(\<And>s r s'. m s = (r, s') \<Longrightarrow> R s (strip r) s') \<Longrightarrow> satisfies R m"
  by (simp add: satisfies_def)

lemma satisfiesD: "satisfies R m \<Longrightarrow> m s = (r, s') \<Longrightarrow> R s (strip r) s'"
  unfolding satisfies_def by (metis fst_conv snd_conv)

named_theorems contract

lemma satisfies_if [contract]:
  "(b \<Longrightarrow> satisfies R m) \<Longrightarrow> (\<not> b \<Longrightarrow> satisfies R n) \<Longrightarrow> satisfies R (if b then m else n)"
  by simp

lemma satisfies_sum [contract]:
  "(\<And>e. satisfies R (f e)) \<Longrightarrow> (\<And>x. satisfies R (g x)) \<Longrightarrow> satisfies R (case r of Inl e \<Rightarrow> f e | Inr x \<Rightarrow> g x)"
  by (simp split: sum.split)

lemma satisfies_option [contract]:
  "satisfies R m \<Longrightarrow> (\<And>x. satisfies R (g x)) \<Longrightarrow> satisfies R (case r of None \<Rightarrow> m | Some x \<Rightarrow> g x)"
  by (simp split: option.split)

lemma satisfies_prod [contract]:
  "(\<And>a b. satisfies R (f a b)) \<Longrightarrow> satisfies R (case p of (a, b) \<Rightarrow> f a b)"
  by (simp split: prod.split)

section \<open>Contracts\<close>

locale quiet_contract =
  fixes R :: "build \<Rightarrow> unit outcome \<Rightarrow> build \<Rightarrow> bool"
  assumes stays: "R s (Done ()) s"
    and stops: "R s (Panic e) s"
    and writes: "R s (Done ()) (s\<lparr>tree_of := t, printed := ls\<rparr>)"
    and composes: "R s (Done ()) s1 \<Longrightarrow> R s1 r s2 \<Longrightarrow> R s r s2"
begin

lemma basic [contract]:
  "satisfies R (return x)" "satisfies R (panic e)" "satisfies R (println l)" "satisfies R (ask f)"
proof -
  have "s\<lparr>printed := ls\<rparr> = s\<lparr>tree_of := tree_of s, printed := ls\<rparr>" for s :: build and ls by simp
  then have "R s (Done ()) (s\<lparr>printed := ls\<rparr>)" for s ls using writes by metis
  then show "satisfies R (return x)" "satisfies R (panic e)" "satisfies R (println l)" "satisfies R (ask f)"
    by (simp_all add: satisfies_def script_simps stays stops)
qed

lemma files [contract]: "satisfies R (try_fs f)"
proof -
  have "s\<lparr>tree_of := t\<rparr> = s\<lparr>tree_of := t, printed := printed s\<rparr>" for s :: build and t by simp
  then have "R s (Done ()) (s\<lparr>tree_of := t\<rparr>)" for s t using writes by metis
  then show ?thesis by (simp add: satisfies_def try_fs_def stays split: sum.split)
qed

lemma sequence [contract]:
  assumes "satisfies R m" and "\<And>x. satisfies R (f x)"
  shows "satisfies R (bind_script m f)"
proof (rule satisfiesI)
  fix s r s'
  assume run: "bind_script m f s = (r, s')"
  obtain x s1 where m: "m s = (x, s1)" by fastforce
  note one = satisfiesD [OF assms(1) m]
  show "R s (strip r) s'"
  proof (cases x)
    case (Done y)
    with run m have "f y s1 = (r, s')" by (simp add: bind_script_def)
    from composes [OF _ satisfiesD [OF assms(2) this]] one Done show ?thesis by simp
  qed (use run m one in \<open>auto simp: bind_script_def\<close>)
qed

lemma print_lines [contract]: "satisfies R (print_all ls)"
proof (induction ls)
  case (Cons l ls)
  then show ?case by (simp only: print_all.simps) (intro contract)
qed (simp add: basic)

lemma environment [contract]:
  assumes "\<And>v. env H k = Some v \<Longrightarrow> satisfies R (f v)"
  shows "satisfies R (bind_script (expect_env H k) f)"
proof (cases "env H k")
  case None
  then have "bind_script (expect_env H k) f = panic (k @ '' set by Cargo: NotPresent'')"
    by (intro ext) (simp add: expect_env_def script_simps)
  then show ?thesis by (simp only: basic)
next
  case (Some v)
  then have "bind_script (expect_env H k) f = f v" by (intro ext) (simp add: expect_env_def script_simps)
  with assms Some show ?thesis by simp
qed

text \<open>A contract that lets a script diverge without effect also holds of the directory copy.\<close>

lemma copied_dir:
  assumes "\<And>s. R s Diverge s"
  shows "satisfies R (copy_dir_recursive H k src dest)" and "satisfies R (copy_entries H k src dest ns)"
proof (induction H k src dest and H k src dest ns rule: copy_dir_recursive_copy_entries.induct)
  case (1 H src dest)
  show ?case by (simp add: satisfies_def assms)
next
  case (2 H k src dest)
  show ?case by (simp only: copy_dir_recursive.simps) (intro contract "2.IH")
next
  case (4 H k src dest n ns)
  show ?case by (simp only: copy_entries.simps) (intro contract "4.IH")
qed (simp add: basic)

end

locale script_contract = quiet_contract R for R +
  assumes warns: "R s (Done ()) (s\<lparr>warned := ws\<rparr>)"
begin

lemma warning [contract]: "satisfies R (eprintln l)"
  by (simp add: satisfies_def script_simps warns)

lemma source_copied:
  assumes "\<And>s. R s Diverge s"
  shows "satisfies R (ensure_go_source_in_crate H m)"
  unfolding ensure_go_source_in_crate_def Let_def by (intro contract copied_dir assms)

end

text \<open>The commands of the script; a version that goes into a URL has been validated.\<close>

definition version_ok :: "string \<Rightarrow> bool" where
  "version_ok v \<longleftrightarrow> v \<noteq> [] \<and> (\<forall>c \<in> set v. is_ascii_alphanumeric c \<or> c = CHR ''.'' \<or> c = CHR ''-'')"

definition expected_command :: "host \<Rightarrow> command \<Rightarrow> bool" where
  "expected_command H c \<longleftrightarrow>
     (\<exists>d lib. c = go_build H d lib) \<or> (\<exists>a rid v. version_ok v \<and> c = curl H a (release_url rid v))
     \<or> (\<exists>a d. c = tar H a d) \<or> host_windows H"

lemma expected_intros [intro]:
  "expected_command H (go_build H d lib)"
  "version_ok v \<Longrightarrow> expected_command H (curl H a (release_url rid v))"
  "expected_command H (tar H a d)"
  "host_windows H \<Longrightarrow> expected_command H c"
  unfolding expected_command_def by blast+

lemma validate_Done:
  "validate_release_version v s = (if version_ok v then (Done (), s) else
     (Panic (''Invalid SPICEDB_EMBEDDED_RELEASE_VERSION '' @ [CHR 0x27] @ v @ [CHR 0x27]
        @ '': only alphanumeric, dot, hyphen allowed''), s))"
  by (auto simp: validate_release_version_def version_ok_def script_simps list_all_iff)

lemma generate_elsewhere:
  assumes "\<not> host_windows H"
  shows "generate_import_lib_windows H a b s =
    (if path_exists (tree_of s) (join a ''spicedb.def'')
     then (Panic (''Failed to generate spicedb.lib. MSVC needs the import library to link the DLL. ''
       @ ''Install Visual Studio Build Tools. From Git Bash: scripts/generate-dll-import-lib.sh ''
       @ path_display H (join a ''spicedb.def'') @ '' '' @ path_display H b), s)
     else (Done (), s))"
proof -
  from assms have "try_generate_import_lib_win H d l = return (Inl ())" for d l
    by (intro ext) (simp add: try_generate_import_lib_win_def find_msvc_lib_exe_def bind_simps(1))
  then show ?thesis
    by (simp only: generate_import_lib_windows_def Let_def bind_simps) (simp add: script_simps)
qed

locale script_commands = script_contract R for R +
  fixes allowed :: "command \<Rightarrow> bool"
  assumes runs: "allowed c \<Longrightarrow> R s (Done ()) (s\<lparr>tree_of := t, commands := commands s @ [c]\<rparr>)"
begin

lemma commanded: "allowed c \<Longrightarrow> satisfies R (run_command H c)"
  by (simp add: satisfies_def run_command_def runs split: prod.split)

lemma linked_elsewhere:
  assumes "\<And>c. host_windows H \<Longrightarrow> allowed c"
  shows "satisfies R (generate_import_lib_windows H a b)"
proof (cases "host_windows H")
  case True
  show ?thesis
    unfolding generate_import_lib_windows_def try_generate_import_lib_win_def find_msvc_lib_exe_def Let_def
    by (intro contract commanded assms True)
next
  case False
  then show ?thesis
    by (intro satisfiesI) (auto simp: generate_elsewhere stays stops split: if_splits)
qed

lemma linked:
  assumes "\<And>c. host_windows H \<Longrightarrow> allowed c"
  shows "satisfies R (link_library H rid d f p q e)"
  unfolding link_library_def finish_link_def copy_lib_to_target_def emit_rpath_def Let_def
  by (intro contract linked_elsewhere assms)

lemma validated [contract]:
  assumes "version_ok v \<Longrightarrow> satisfies R m"
  shows "satisfies R (bind_script (validate_release_version v) (\<lambda>_. m))"
  using assms satisfiesD
  by (intro satisfiesI) (fastforce simp: bind_script_def validate_Done stops split: if_splits)

lemma whole_script:
  assumes ok: "\<And>c. expected_command H c \<Longrightarrow> allowed c"
    and copy: "\<And>m. env H ''CARGO_MANIFEST_DIR'' = Some m \<Longrightarrow>
      satisfies R (ensure_go_source_in_crate H (path_from H m))"
  shows "satisfies R (main H)"
proof -
  have build: "satisfies R (try_build_from_source H m d f)" for m d f
    unfolding try_build_from_source_def Let_def by (intro contract commanded ok expected_intros)
  have download: "satisfies R (download_from_release H rid v d)" if "version_ok v" for rid v d
    unfolding download_from_release_def check_extracted_def Let_def
    by (intro contract commanded ok expected_intros that)
  have "satisfies R (obtain_prebuild H rid v m d f)" for rid v m d f
    unfolding obtain_prebuild_def Let_def by (intro contract build download)
  then have "satisfies R (run H rid v)" for rid v
    unfolding run_def Let_def
    by (intro contract copy linked ok expected_intros)
  then show ?thesis
    unfolding main_def target_rid_def Let_def by (intro contract)
qed

end

text \<open>The first contract: nothing is written to the standard error.\<close>

definition silent :: "build \<Rightarrow> unit outcome \<Rightarrow> build \<Rightarrow> bool" where
  "silent s r s' \<longleftrightarrow> warned s' = warned s"

interpretation silent: quiet_contract silent
  by unfold_locales (simp_all add: silent_def)

lemma copy_silent: "satisfies silent (copy_dir_recursive H k src dest)"
  by (rule silent.copied_dir) (simp add: silent_def)

text \<open>The second: the commands that are run.\<close>

definition ran :: "(command \<Rightarrow> bool) \<Rightarrow> build \<Rightarrow> unit outcome \<Rightarrow> build \<Rightarrow> bool" where
  "ran Q s r s' \<longleftrightarrow> (\<exists>cs. commands s' = commands s @ cs \<and> list_all Q cs)"

interpretation ran: script_commands "ran Q" Q for Q
proof
  fix s s1 r s2
  assume "ran Q s (Done ()) s1" and "ran Q s1 r s2"
  then show "ran Q s r s2" unfolding ran_def by (metis append.assoc list_all_append)
qed (auto simp: ran_def)

lemma main_ran: "satisfies (ran (expected_command H)) (main H)"
  by (rule ran.whole_script) (simp_all add: ran.source_copied ran_def)

text \<open>The third: a script ends.\<close>

definition ends :: "build \<Rightarrow> unit outcome \<Rightarrow> build \<Rightarrow> bool" where
  "ends s r s' \<longleftrightarrow> r \<noteq> Diverge"

interpretation ends: script_commands ends "\<lambda>_. True"
  by unfold_locales (simp_all add: ends_def)

end
