(* ===== verification/Copy_Facts.thy ===== *)
theory Copy_Facts
  imports Script_Logic "HOL-Library.Sublist"
begin

text \<open>
  The copy of the Go source into the crate: it ends, it changes nothing but its destination and the
  missing directories above it, and when it ends well every file under the source is under the
  destination.  Hence the build script always ends.
\<close>

section \<open>What a copy may change\<close>

text \<open>Below the paths of \<open>D\<close> anything, above them only directories that were missing.\<close>

definition frame :: "path set \<Rightarrow> tree \<Rightarrow> tree \<Rightarrow> bool" where
  "frame D t t' \<longleftrightarrow> (\<forall>q. node_at t' q \<noteq> node_at t q \<longrightarrow>
     (\<exists>d\<in>D. prefix d q \<or> prefix q d \<and> node_at t q = None))"

lemma frame_refl [simp, intro]: "frame D t t"
  by (simp add: frame_def)

lemma frame_mono:
  assumes "frame D t t'" and "\<And>d. d \<in> D \<Longrightarrow> \<exists>e\<in>E. prefix e d"
  shows "frame E t t'"
  unfolding frame_def
proof (intro allI impI)
  fix q assume "node_at t' q \<noteq> node_at t q"
  with assms(1) obtain d where "d \<in> D" and d: "prefix d q \<or> prefix q d \<and> node_at t q = None"
    unfolding frame_def by blast
  with assms(2) obtain e where "e \<in> E" "prefix e d" by blast
  with d show "\<exists>d\<in>E. prefix d q \<or> prefix q d \<and> node_at t q = None"
    by (meson prefix_order.trans prefix_same_cases)
qed

lemma frame_trans: "frame D t t1 \<Longrightarrow> frame D t1 t2 \<Longrightarrow> frame D t t2"
  unfolding frame_def by metis

lemma frame_put: "p \<noteq> [] \<Longrightarrow> frame {p} t (put p n t)"
  by (auto simp: frame_def node_at_put)

lemma frame_create_dirs:
  "create_dirs H b cs t = Inr t' \<Longrightarrow> frame {b @ cs} t t'"
proof (induction H b cs t rule: create_dirs.induct)
  case (2 H b c cs t)
  let ?p = "b @ [c]"
  show ?case
  proof (cases "node_at t ?p")
    case None
    with 2 have "frame {?p @ cs} (put ?p (Dir 0) t) t'" by (auto simp: Let_def split: if_splits)
    moreover from None have "frame {?p @ cs} t (put ?p (Dir 0) t)"
      by (auto simp: frame_def node_at_put)
    ultimately show ?thesis using frame_trans by fastforce
  next
    case (Some x)
    with 2 show ?thesis by (cases x) (auto simp: Let_def)
  qed
qed simp

lemma frame_fs_copy: "fs_copy H src dst t = Inr t' \<Longrightarrow> frame {dst} t t'"
  by (erule fs_copy_Inr) (simp add: frame_put)

section \<open>The copy\<close>

text \<open>The nodes below a path, by the path from there.\<close>

definition below :: "tree \<Rightarrow> path \<Rightarrow> path \<Rightarrow> node option" where
  "below t src p = node_at t (src @ p)"

lemma below_join: "below t (join src n) p = below t src (n # p)"
  by (simp add: below_def join_def)

lemma is_dir_below: "is_dir t (join src n) \<longleftrightarrow> (\<exists>m. below t src [n] = Some (Dir m))"
  by (auto simp: is_dir_def below_def join_def split: option.splits node.splits)

lemma frame_below:
  assumes "frame D t t'" and "\<And>d. d \<in> D \<Longrightarrow> parallel src d"
  shows "below t' src = below t src"
proof (rule ext, rule ccontr)
  fix p assume "below t' src p \<noteq> below t src p"
  with assms(1) obtain d where "d \<in> D" "prefix d (src @ p) \<or> prefix (src @ p) d"
    by (auto simp: frame_def below_def)
  with assms(2) show False
    by (meson append_prefixD parallelE prefixI prefix_same_cases)
qed

text \<open>A bound on the depth, and that what has an entry below it is a directory.\<close>

definition shallow :: "(path \<Rightarrow> node option) \<Rightarrow> nat \<Rightarrow> bool" where
  "shallow f k \<longleftrightarrow> (\<forall>p. f p \<noteq> None \<longrightarrow> length p < k)"

definition dirs_above :: "(path \<Rightarrow> node option) \<Rightarrow> bool" where
  "dirs_above f \<longleftrightarrow> (\<forall>p q. q \<noteq> [] \<longrightarrow> f (p @ q) \<noteq> None \<longrightarrow> (\<exists>n. f p = Some (Dir n)))"

lemma shallow_join: "shallow (below t src) (Suc k) \<Longrightarrow> shallow (below t (join src n)) k"
  by (force simp: shallow_def below_join)

lemma dirs_above_join: "dirs_above (below t src) \<Longrightarrow> dirs_above (below t (join src n))"
  unfolding dirs_above_def below_join by (metis append_Cons)

text \<open>
  The outcome of copying the entries \<open>N\<close> of \<open>src\<close> to \<open>dest\<close>, with the changes confined by \<open>D\<close>: no
  panic, an end if the depth is enough, and on success every file below one of the entries copied.
\<close>

definition copied :: "path \<Rightarrow> path \<Rightarrow> string set \<Rightarrow> tree \<Rightarrow> tree \<Rightarrow> bool" where
  "copied src dest N t t' \<longleftrightarrow>
     (\<forall>n\<in>N. \<forall>p f. below t src (n # p) = Some (File f) \<longrightarrow> below t' dest (n # p) = Some (File f))"

definition copies ::
    "nat \<Rightarrow> path \<Rightarrow> path \<Rightarrow> path set \<Rightarrow> string set \<Rightarrow> (string + unit) outcome \<Rightarrow> tree \<Rightarrow> tree \<Rightarrow> bool" where
  "copies k src dest D N r t t' \<longleftrightarrow> frame D t t' \<and> (\<forall>m. r \<noteq> Panic m)
     \<and> ((k = 0 \<longrightarrow> below t src [] \<noteq> None) \<and> shallow (below t src) k \<longrightarrow> r \<noteq> Diverge)
     \<and> (r = Done (Inr ()) \<and> dirs_above (below t src) \<longrightarrow> copied src dest N t t')"

lemma copies_error: "frame D t t' \<Longrightarrow> copies k src dest D N (Done (Inl e)) t t'"
  by (simp add: copies_def)

lemma parallel_join: "parallel a b \<Longrightarrow> parallel (join a n) (join b m)" "parallel a b \<Longrightarrow> parallel a (join b m)"
  using parallel_append [of a b "[n]" "[m]"] parallel_append [of a b "[]" "[m]"] by (simp_all add: join_def)

lemma other_entry: "prefix (join dest m) (join dest n @ p) \<longleftrightarrow> m = n"
    "prefix (join dest n @ p) (join dest m) \<longleftrightarrow> m = n \<and> p = []"
  by (auto simp: join_def)


lemma copied_entry:
  assumes "frame (join dest ` set ns) t1 t2" and "n \<notin> set ns" and "below t1 dest (n # p) \<noteq> None"
  shows "below t2 dest (n # p) = below t1 dest (n # p)"
proof (rule ccontr)
  assume "below t2 dest (n # p) \<noteq> below t1 dest (n # p)"
  with assms(1,3) obtain m where "m \<in> set ns" "prefix (join dest m) (join dest n @ p)"
    unfolding frame_def below_join [symmetric] by (auto simp: below_def)
  with assms(2) show False by (simp add: other_entry)
qed

text \<open>One entry and then the others.\<close>

lemma copies_Cons:
  assumes par: "parallel src dest" and new: "n \<notin> set ns"
    and one: "frame {join dest n} t t1"
      "dirs_above (below t src) \<Longrightarrow> copied src dest {n} t t1"
    and rest: "copies k src dest (join dest ` set ns) (set ns) r t1 t2"
  shows "copies k src dest (join dest ` set (n # ns)) (set (n # ns)) r t t2"
proof -
  have src: "below t1 src = below t src"
    by (rule frame_below [OF one(1)]) (simp add: parallel_join par)
  from rest have fr: "frame (join dest ` set ns) t1 t2" by (simp add: copies_def)
  have "frame (join dest ` set (n # ns)) t t1" "frame (join dest ` set (n # ns)) t1 t2"
    by (rule frame_mono [OF one(1)], force) (rule frame_mono [OF fr], force)
  then have f: "frame (join dest ` set (n # ns)) t t2" by (rule frame_trans)
  have "copied src dest (set (n # ns)) t t2"
    if "r = Done (Inr ())" and d: "dirs_above (below t src)"
    unfolding copied_def
  proof (intro ballI allI impI)
    fix m p x assume m: "m \<in> set (n # ns)" and x: "below t src (m # p) = Some (File x)"
    show "below t2 dest (m # p) = Some (File x)"
    proof (cases "m = n")
      case True
      with one(2) [OF d] x have "below t1 dest (n # p) = Some (File x)" by (simp add: copied_def)
      with copied_entry [OF fr new, of p] True show ?thesis by simp
    next
      case False
      with m rest that src x show ?thesis by (auto simp: copies_def copied_def)
    qed
  qed
  with f rest src show ?thesis by (simp add: copies_def)
qed

lemma copies_file:
  assumes "fs_copy H (join src n) (join dest n) t = Inr t1" and "parallel src dest"
  shows "frame {join dest n} t t1" and "dirs_above (below t src) \<Longrightarrow> copied src dest {n} t t1"
proof -
  from assms(1) show "frame {join dest n} t t1" by (rule frame_fs_copy)
  from parallel_join(1) [OF assms(2), of n n] have "join src n \<noteq> join dest n" by auto
  with assms(1) obtain f where f: "below t src [n] = Some (File f)" "below t1 dest [n] = Some (File f)"
    by (auto elim!: fs_copy_Inr simp: below_def join_def node_at_put)
  assume d: "dirs_above (below t src)"
  have "p = []" if "below t src (n # p) = Some (File x)" for p x
  proof (rule ccontr)
    assume "p \<noteq> []"
    with d that have "\<exists>m. below t src [n] = Some (Dir m)"
      unfolding dirs_above_def by (metis append_Cons append_Nil option.discI)
    with f show False by simp
  qed
  then show "copied src dest {n} t t1" unfolding copied_def
    using f by (metis singletonD)
qed

lemma copies_dir:
  assumes "copies k (join src n) (join dest n) {join dest n} UNIV (Done (Inr ())) t t1"
    and "is_dir t (join src n)"
  shows "frame {join dest n} t t1" and "dirs_above (below t src) \<Longrightarrow> copied src dest {n} t t1"
proof -
  from assms(1) show "frame {join dest n} t t1" by (simp add: copies_def)
  assume d: "dirs_above (below t src)"
  from assms(1) dirs_above_join [OF d] have c: "copied (join src n) (join dest n) UNIV t t1"
    by (simp add: copies_def)
  from assms(2) obtain m where m: "below t src [n] = Some (Dir m)" by (auto simp: is_dir_below)
  show "copied src dest {n} t t1" unfolding copied_def
  proof (intro ballI allI impI)
    fix a p x assume "a \<in> {n}" and x: "below t src (a # p) = Some (File x)"
    with m c show "below t1 dest (a # p) = Some (File x)"
      by (cases p) (auto simp: copied_def below_join)
  qed
qed

lemma read_dir_complete:
  assumes "read_dir H src t = Inr ns"
  shows "distinct ns" and "below t src [n] \<noteq> None \<Longrightarrow> n \<in> set ns"
proof -
  from assms have ns: "ns = remdups (map (\<lambda>(q, n). last q) (filter (\<lambda>(q, n). q \<noteq> [] \<and> butlast q = src) t))"
    by (auto simp: read_dir_def split: if_splits)
  then show "distinct ns" by simp
  assume "below t src [n] \<noteq> None"
  then obtain x where "(src @ [n], x) \<in> set t" by (auto simp: below_def node_at_def dest: map_of_SomeD)
  then show "n \<in> set ns" unfolding ns by force
qed

lemma copy_loop:
  shows "parallel src dest \<Longrightarrow> copy_dir_recursive H k src dest s = (r, s') \<Longrightarrow>
      copies k src dest {dest} UNIV r (tree_of s) (tree_of s')"
    and "parallel src dest \<Longrightarrow> distinct ns \<Longrightarrow> copy_entries H k src dest ns s = (r, s') \<Longrightarrow>
      copies (Suc k) src dest (join dest ` set ns) (set ns) r (tree_of s) (tree_of s')"
proof (induction H k src dest and H k src dest ns arbitrary: s r s' and s r s'
    rule: copy_dir_recursive_copy_entries.induct)
  case (1 H src dest)
  then show ?case by (auto simp: copies_def shallow_def)
next
  case (2 H k src dest)
  show ?case
  proof (cases "create_dir_all H dest (tree_of s)")
    case (Inl e)
    with 2 show ?thesis by (auto simp: bind_try_fs script_simps copies_error)
  next
    case (Inr t1)
    then have f1: "frame {dest} (tree_of s) t1"
      using frame_create_dirs [of H "[]" dest] by (simp add: create_dir_all_def)
    have src: "below t1 src = below (tree_of s) src"
      by (rule frame_below [OF f1]) (simp add: "2.prems"(1))
    show ?thesis
    proof (cases "read_dir H src t1")
      case i: (Inl e)
      with Inr 2 f1 show ?thesis by (auto simp: bind_try_fs script_simps copies_error)
    next
      case ns: (Inr ns)
      with Inr 2 have run: "copy_entries H k src dest ns (s\<lparr>tree_of := t1\<rparr>) = (r, s')"
        by (simp add: bind_try_fs script_simps)
      note r = read_dir_complete [OF ns]
      from "2.IH" [OF "2.prems"(1) r(1) run]
      have c: "copies (Suc k) src dest (join dest ` set ns) (set ns) r t1 (tree_of s')" by simp
      then have "frame {dest} t1 (tree_of s')"
        by (auto simp: copies_def join_def intro: frame_mono)
      with f1 have f: "frame {dest} (tree_of s) (tree_of s')" by (rule frame_trans)
      have "copied src dest UNIV (tree_of s) (tree_of s')"
        if "r = Done (Inr ())" and d: "dirs_above (below (tree_of s) src)"
        unfolding copied_def
      proof (intro ballI allI impI)
        fix n p x assume x: "below (tree_of s) src (n # p) = Some (File x)"
        with d have "below t1 src [n] \<noteq> None"
          unfolding src dirs_above_def by (cases "p = []") (auto, metis append_Cons append_Nil)
        with r(2) c that src x show "below (tree_of s') dest (n # p) = Some (File x)"
          by (simp add: copies_def copied_def)
      qed
      with f c src show ?thesis by (simp add: copies_def)
    qed
  qed
next
  case (3 H k src dest)
  then show ?case by (auto simp: script_simps copies_def copied_def)
next
  case (4 H k src dest n ns)
  let ?t = "tree_of s"
  define d where "d = is_dir ?t (join src n)"
  define m where "m = (if d then copy_dir_recursive H k (join src n) (join dest n)
    else try_fs (fs_copy H (join src n) (join dest n)))"
  obtain q s1 where q: "m s = (q, s1)" by fastforce
  have run: "copy_entries H k src dest (n # ns) s = bind_script m
      (\<lambda>r. case r of Inl e \<Rightarrow> return (Inl e) | Inr _ \<Rightarrow> copy_entries H k src dest ns) s"
    by (simp add: m_def d_def script_simps)
  have dir: "copies k (join src n) (join dest n) {join dest n} UNIV q ?t (tree_of s1)" if d
    using "4.IH"(1) [of d s q s1] that q parallel_join(1) [OF "4.prems"(1)] by (simp add: m_def)
  have plain: "\<exists>z. q = Done z \<and> (case z of Inl _ \<Rightarrow> tree_of s1 = ?t
      | Inr _ \<Rightarrow> fs_copy H (join src n) (join dest n) ?t = Inr (tree_of s1))" if "\<not> d"
    using q that by (auto simp: m_def try_fs_def split: sum.splits)
  have one: "frame {join dest n} ?t (tree_of s1)"
    using dir plain frame_fs_copy by (cases d) (fastforce simp: copies_def split: sum.splits)+
  show ?case
  proof (cases "q = Done (Inr ())")
    case True
    with q run "4.prems"(3) have others: "copy_entries H k src dest ns s1 = (r, s')"
      by (simp add: bind_script_def)
    from "4.prems"(2) have "distinct ns" by simp
    from "4.IH"(2) [OF "4.prems"(1) this others]
    have rest: "copies (Suc k) src dest (join dest ` set ns) (set ns) r (tree_of s1) (tree_of s')" .
    have "copied src dest {n} ?t (tree_of s1)" if "dirs_above (below ?t src)"
    proof (cases d)
      case d: True
      with copies_dir(2) [of k src n dest ?t "tree_of s1"] dir that True show ?thesis by (simp add: d_def)
    next
      case False
      with copies_file(2) [OF _ "4.prems"(1)] plain that True show ?thesis by simp
    qed
    from copies_Cons [OF "4.prems"(1) _ one this rest] "4.prems"(2) show ?thesis by simp
  next
    case False
    then have rs: "r = (case q of Done z \<Rightarrow> Done (Inl (projl z)) | Panic e \<Rightarrow> Panic e | Diverge \<Rightarrow> Diverge)" "s' = s1"
      using q run "4.prems"(3)
      by (auto simp: bind_script_def script_simps split: outcome.splits sum.splits)
    have "frame (join dest ` set (n # ns)) ?t (tree_of s1)" by (rule frame_mono [OF one]) force
    moreover have "q \<noteq> Panic e" for e using dir plain by (cases d) (auto simp: copies_def)
    moreover have "q \<noteq> Diverge" if "shallow (below ?t src) (Suc k)"
      using dir plain shallow_join [OF that]
      by (cases d) (auto simp: copies_def d_def is_dir_below below_join)
    ultimately show ?thesis using rs by (cases q) (auto simp: copies_def)
  qed
qed

text \<open>In a tree in which everything lies in a directory the condition holds of every source.\<close>

lemma well_formed_dirs:
  assumes "\<And>q. node_at t q \<noteq> None \<Longrightarrow> q \<noteq> [] \<Longrightarrow> is_dir t (butlast q)"
  shows "dirs_above (below t src)"
  unfolding dirs_above_def below_def
proof (intro allI impI)
  fix p q assume "q \<noteq> []" and "node_at t (src @ p @ q) \<noteq> None"
  then show "\<exists>n. node_at t (src @ p) = Some (Dir n)"
  proof (induction q rule: rev_induct)
    case (snoc c cs)
    from snoc.prems assms [of "src @ p @ cs @ [c]"] have "is_dir t (src @ p @ cs)"
      by (simp add: butlast_append)
    then show ?case using snoc.IH
      by (cases "cs = []") (auto simp: is_dir_def split: option.splits node.splits)
  qed simp
qed

section \<open>The step of the script\<close>

text \<open>The source and the destination lie apart unless the crate is the source.\<close>

lemma source_and_crate_apart:
  assumes "ancestor 2 manifest = Some root" and "manifest \<noteq> root @ [''shared'', ''c'']"
  shows "parallel (join (join root ''shared'') ''c'') (join (join manifest ''shared'') ''c'')"
proof -
  from assms(1) have root: "manifest = root @ drop (length manifest - 2) manifest"
    and "length (drop (length manifest - 2) manifest) = 2"
    by (auto simp: ancestor_def split: if_splits)
  from this(2) obtain a b where "drop (length manifest - 2) manifest = [a, b]"
    by (cases "drop (length manifest - 2) manifest" rule: list.exhaust; cases "tl (drop (length manifest - 2) manifest)") auto
  with root have m: "manifest = root @ [a, b]" by simp
  with assms(2) have "[a, b] \<noteq> [''shared'', ''c'']" by blast
  then show ?thesis by (auto simp: m join_def parallel_def)
qed

lemma depth_enough: "shallow (below t src) (Suc (tree_depth t))"
proof -
  have "length p \<le> tree_depth t" if "(p, x) \<in> set t" for p x
    using that by (induction t) (auto simp: tree_depth_def)
  then have "length (src @ p) \<le> tree_depth t" if "node_at t (src @ p) \<noteq> None" for p
    using that by (fastforce simp: node_at_def dest!: map_of_SomeD split: if_splits)
  then show ?thesis by (force simp: shallow_def below_def)
qed

lemma source_step:
  assumes "ancestor 2 manifest = Some root" and "manifest \<noteq> root @ [''shared'', ''c'']"
    and src: "src = join (join root ''shared'') ''c''" and dest: "dest = join (join manifest ''shared'') ''c''"
    and run: "ensure_go_source_in_crate H manifest s = (r, s')"
  shows "r = Done ()" and "frame {dest} (tree_of s) (tree_of s')" and "commands s' = commands s"
    and "\<not> path_exists (tree_of s) (join src ''go.mod'') \<Longrightarrow> s' = s"
    and "path_exists (tree_of s) (join src ''go.mod'') \<Longrightarrow> warned s' = warned s \<Longrightarrow>
      dirs_above (below (tree_of s) src) \<Longrightarrow> copied src dest UNIV (tree_of s) (tree_of s')"
proof -
  let ?l = "''cargo:rerun-if-changed='' @ path_display H src"
  obtain q s1 where q: "copy_dir_recursive H (Suc (tree_depth (tree_of s))) src dest
      (s\<lparr>printed := printed s @ [?l]\<rparr>) = (q, s1)" by fastforce
  from copy_loop(1) [OF _ q] source_and_crate_apart [OF assms(1,2)] depth_enough
  have c: "frame {dest} (tree_of s) (tree_of s1)" "\<forall>m. q \<noteq> Panic m" "q \<noteq> Diverge"
    "q = Done (Inr ()) \<Longrightarrow> dirs_above (below (tree_of s) src) \<Longrightarrow> copied src dest UNIV (tree_of s) (tree_of s1)"
    by (simp_all add: copies_def src dest)
  from satisfiesD [OF copy_silent q] have w: "warned s1 = warned s" by (simp add: silent_def)
  from satisfiesD [OF ran.source_copied run, of "\<lambda>_. False"] obtain cs where
    "commands s' = commands s @ cs" "list_all (\<lambda>_. False) cs" by (auto simp: ran_def)
  then show "commands s' = commands s" by (cases cs) simp_all
  let ?there = "path_exists (tree_of s) (join src ''go.mod'')"
  consider "\<not> ?there" "(r, s') = (Done (), s)"
    | e where ?there "(r, s') = (Done (), s1\<lparr>warned := warned s @ [''cargo:warning=copy shared/c into -sys crate: '' @ e]\<rparr>)"
    | ?there "(r, s') = (Done (), s1)" "q = Done (Inr ())"
  proof (cases ?there)
    case True
    with run q c(2,3) w assms(1) that(2,3) show thesis
      by (cases q) (auto simp: ensure_go_source_in_crate_def Let_def script_simps bind_script_def
          simp flip: src dest simp del: append_Cons append_Nil copy_dir_recursive.simps
          split: sum.splits)
  next
    case False
    with run assms(1) that(1) show thesis
      by (simp add: ensure_go_source_in_crate_def Let_def script_simps flip: src dest)
  qed
  note cases = this
  show "r = Done ()" using cases by cases simp_all
  show "frame {dest} (tree_of s) (tree_of s')" using cases c(1) by cases simp_all
  show "s' = s" if "\<not> ?there" using cases that by cases simp_all
  show "copied src dest UNIV (tree_of s) (tree_of s')"
    if ?there "warned s' = warned s" "dirs_above (below (tree_of s) src)"
    using cases that c(4) by cases simp_all
qed

lemma main_ends:
  assumes "\<And>m root. env H ''CARGO_MANIFEST_DIR'' = Some m \<Longrightarrow> path_from H m \<noteq> root @ [''shared'', ''c'']"
  shows "satisfies ends (main H)"
proof (rule ends.whole_script)
  fix m assume m: "env H ''CARGO_MANIFEST_DIR'' = Some m"
  show "satisfies ends (ensure_go_source_in_crate H (path_from H m))"
  proof (rule satisfiesI)
    fix s r s' assume run: "ensure_go_source_in_crate H (path_from H m) s = (r, s')"
    show "ends s (strip r) s'"
    proof (cases "ancestor 2 (path_from H m)")
      case None
      with run show ?thesis by (auto simp: ensure_go_source_in_crate_def script_simps ends_def)
    next
      case (Some root)
      from source_step(1) [OF Some assms [OF m] refl refl run] show ?thesis by (simp add: ends_def)
    qed
  qed
qed simp

end
