(* ===== verification/Build_Facts.thy ===== *)
theory Build_Facts
  imports Copy_Facts
begin

text \<open>
  What the build script guarantees: which commands it can run, that the copy of the Go source ends
  and touches only its destination, that a successful script leaves a library of plausible size
  where the linker looks, and that it is the one that was found, built or downloaded.
\<close>

section \<open>The library that is linked\<close>

lemma lib_artifact:
  "lib_artifact_name_and_path rid d = (f, p) \<Longrightarrow> p = join d f"
  by (auto simp: lib_artifact_name_and_path_def Let_def split: prod.splits if_splits)

lemma join_not_root [simp]: "join d f \<noteq> []"
  by (simp add: join_def)

lemma file_size_node: "node_at t p = node_at t' p \<Longrightarrow> file_size_at_least p n t = file_size_at_least p n t'"
  by (simp add: file_size_at_least_def metadata_len_def)

lemma fs_copy_elsewhere:
  "fs_copy H src dst t = Inr t' \<Longrightarrow> q \<noteq> dst \<Longrightarrow> node_at t' q = node_at t q"
  by (erule fs_copy_Inr) (simp add: node_at_put)

lemma copy_lib_to_target_Done:
  assumes "env H ''OUT_DIR'' = Some out"
  obtains s' where "copy_lib_to_target H (join (path_from H out) f) f s = (Done (), s')"
    and "printed s' = printed s"
    and "node_at (tree_of s') (join (path_from H out) f) = node_at (tree_of s) (join (path_from H out) f)"
proof (cases "ancestor 3 (path_from H out)")
  case None
  with assms that [of s] show ?thesis by (simp add: copy_lib_to_target_def expect_env_def script_simps)
next
  case (Some d)
  then have "join (path_from H out) f \<noteq> join d f"
    by (auto simp: ancestor_def join_def split: if_splits dest!: arg_cong [of _ _ length])
  with Some assms that [of s] that show ?thesis
    by (cases "fs_copy H (join (path_from H out) f) (join d f) (tree_of s)")
      (auto simp: copy_lib_to_target_def expect_env_def script_simps bind_script_def try_fs_def
        dest: fs_copy_elsewhere)
qed

lemma emit_rpath_Done:
  obtains ls where "emit_rpath H d s = (Done (), s\<lparr>printed := printed s @ ls\<rparr>)"
proof (cases "env_or_empty H ''CARGO_CFG_TARGET_OS'' = ''macos''")
  case True
  with that show ?thesis by (simp add: emit_rpath_def Let_def script_simps bind_assoc)
next
  case False
  show ?thesis
  proof (cases "env_or_empty H ''CARGO_CFG_TARGET_OS'' = ''linux''")
    case True
    with that show ?thesis by (simp add: emit_rpath_def Let_def script_simps bind_assoc)
  next
    case no: False
    have "emit_rpath H d s = (Done (), s\<lparr>printed := printed s @ []\<rparr>)"
      using False no by (simp add: emit_rpath_def Let_def script_simps)
    with that show ?thesis by blast
  qed
qed

definition link_lines :: "host \<Rightarrow> path \<Rightarrow> string list" where
  "link_lines H out_dir =
     [''cargo:rustc-link-search=native='' @ path_display H out_dir, ''cargo:rustc-link-lib=dylib=spicedb'']"

lemma finish_link_Done:
  assumes "env H ''OUT_DIR'' = Some out"
  obtains s' where "finish_link H (path_from H out) (join (path_from H out) f) f s = (Done (), s')"
    and "set (link_lines H (path_from H out)) \<subseteq> set (printed s')"
    and "node_at (tree_of s') (join (path_from H out) f) = node_at (tree_of s) (join (path_from H out) f)"
proof -
  let ?d = "path_from H out"
  let ?s = "s\<lparr>printed := (printed s @ [''cargo:rustc-link-search=native='' @ path_display H ?d])
    @ [''cargo:rustc-link-lib=dylib=spicedb'']\<rparr>"
  obtain s1 where s1: "copy_lib_to_target H (join ?d f) f ?s = (Done (), s1)" "printed s1 = printed ?s"
    "node_at (tree_of s1) (join ?d f) = node_at (tree_of ?s) (join ?d f)"
    by (rule copy_lib_to_target_Done [OF assms(1), of f ?s])
  obtain ls s2 where e: "(case ancestor 3 ?d of None \<Rightarrow> return () | Some t \<Rightarrow> emit_rpath H t) s1 = (Done (), s2)"
    "printed s2 = printed s1 @ ls" "tree_of s2 = tree_of s1"
  proof (cases "ancestor 3 ?d")
    case None
    with that [of s1 "[]"] show ?thesis by (simp add: script_simps)
  next
    case (Some t)
    obtain ls where "emit_rpath H t s1 = (Done (), s1\<lparr>printed := printed s1 @ ls\<rparr>)"
      by (rule emit_rpath_Done)
    with Some that show ?thesis by simp
  qed
  have "finish_link H ?d (join ?d f) f s = (Done (), s2)"
  proof -
    have "bind_script (copy_lib_to_target H (join ?d f) f) g ?s = g () s1" for g :: "unit \<Rightarrow> unit script"
      by (rule bind_Done) (rule s1(1))
    with e(1) show ?thesis by (simp only: finish_link_def bind_simps) simp
  qed
  with that s1 e show thesis by (auto simp: link_lines_def)
qed

lemma copied_node:
  assumes "(if q \<noteq> p then fs_copy H q p t else Inr t) = Inr t'" and "path_exists t q"
  shows "node_at t' p = node_at t q"
proof (cases "q = p")
  case False
  with assms have "fs_copy H q p t = Inr t'" by simp
  with False show ?thesis by (elim fs_copy_Inr) (simp add: node_at_put)
qed (use assms in simp)

text \<open>How a \<open>link_library\<close> that ends well got to its last part.\<close>

lemma link_library_inv:
  assumes "link_library H rid d f p q e s = (Done (), s')"
  obtains t where "path_exists (tree_of s) q"
    and "(if q \<noteq> p then fs_copy H q p (tree_of s) else Inr (tree_of s)) = Inr t"
    and "file_size_at_least p MIN_LIB_SIZE_BYTES t"
    and "bind_script (if env_or_empty H ''CARGO_CFG_TARGET_OS'' = ''windows''
        then generate_import_lib_windows H e d else return ()) (\<lambda>_. finish_link H d p f)
      (s\<lparr>printed := printed s @ [''cargo:rerun-if-changed='' @ path_display H q], tree_of := t\<rparr>)
      = (Done (), s')"
proof -
  have ex: "path_exists (tree_of s) q"
    using assms by (auto simp: link_library_def script_simps split: if_splits)
  show thesis
  proof (cases "q = p")
    case True
    with that [of "tree_of s"] assms ex show thesis
      by (simp add: link_library_def script_simps split: if_splits)
  next
    case False
    with assms ex obtain t where "fs_copy H q p (tree_of s) = Inr t"
      by (cases "fs_copy H q p (tree_of s)")
        (auto simp: link_library_def script_simps bind_assoc bind_try_fs)
    with that [of t] False assms ex show thesis
      by (simp add: link_library_def script_simps bind_assoc bind_try_fs split: if_splits)
  qed
qed

lemma bind_generate:
  assumes "\<not> host_windows H"
    and "bind_script (if b then generate_import_lib_windows H x y else return ()) g s = (Done r, s')"
  shows "g () s = (Done r, s')"
  using assms(2)
  by (cases b) (simp_all add: script_simps bind_script_def generate_elsewhere [OF assms(1)] split: if_splits)

lemma link_library_Done:
  assumes "link_library H rid (path_from H out) f (join (path_from H out) f) q e s = (Done (), s')"
    and "env H ''OUT_DIR'' = Some out" and "\<not> host_windows H"
  shows "node_at (tree_of s') (join (path_from H out) f) = node_at (tree_of s) q"
    and "file_size_at_least (join (path_from H out) f) MIN_LIB_SIZE_BYTES (tree_of s')"
    and "set (link_lines H (path_from H out)) \<subseteq> set (printed s')"
proof -
  let ?d = "path_from H out"
  let ?p = "join ?d f"
  from assms(1) obtain t where ex: "path_exists (tree_of s) q"
    and t: "(if q \<noteq> ?p then fs_copy H q ?p (tree_of s) else Inr (tree_of s)) = Inr t"
    and big: "file_size_at_least ?p MIN_LIB_SIZE_BYTES t"
    and rest: "bind_script (if env_or_empty H ''CARGO_CFG_TARGET_OS'' = ''windows''
        then generate_import_lib_windows H e ?d else return ()) (\<lambda>_. finish_link H ?d ?p f)
      (s\<lparr>printed := printed s @ [''cargo:rerun-if-changed='' @ path_display H q], tree_of := t\<rparr>)
      = (Done (), s')" by (rule link_library_inv)
  let ?s = "s\<lparr>printed := printed s @ [''cargo:rerun-if-changed='' @ path_display H q], tree_of := t\<rparr>"
  have fin: "finish_link H ?d ?p f ?s = (Done (), s')"
    by (rule bind_generate [OF assms(3) rest])
  obtain s2 where "finish_link H ?d ?p f ?s = (Done (), s2)"
    "set (link_lines H ?d) \<subseteq> set (printed s2)" "node_at (tree_of s2) ?p = node_at (tree_of ?s) ?p"
    by (rule finish_link_Done [OF assms(2), of f ?s])
  with fin have s': "set (link_lines H ?d) \<subseteq> set (printed s')" "node_at (tree_of s') ?p = node_at t ?p"
    by auto
  with copied_node [OF t ex] show "node_at (tree_of s') ?p = node_at (tree_of s) q" by simp
  show "file_size_at_least ?p MIN_LIB_SIZE_BYTES (tree_of s')"
    using big file_size_node [OF s'(2)] by simp
  show "set (link_lines H ?d) \<subseteq> set (printed s')" by (rule s'(1))
qed

section \<open>A host for the worked examples\<close>

text \<open>A Linux host without tools, a crate with a staged library, and an output directory.\<close>

definition sample_host :: host where
  "sample_host =
     \<lparr>env = [''CARGO_CFG_TARGET_OS'' \<mapsto> ''linux'', ''CARGO_CFG_TARGET_ARCH'' \<mapsto> ''x86_64'',
             ''OUT_DIR'' \<mapsto> ''/t/b/p/out'', ''CARGO_MANIFEST_DIR'' \<mapsto> ''/r/s/y''],
      exec = (\<lambda>c t. (Inl ''No such file or directory'', t)), denied = (\<lambda>p. False),
      io_text = (\<lambda>p. ''i/o error''), host_windows = False, pkg_version = ''0.8.0''\<rparr>"

lemma target_rid_pure: "target_rid H s = (r, s') \<Longrightarrow> s' = s"
  by (auto simp: target_rid_def Let_def script_simps split: if_splits)

lemma expect_env_Done: "expect_env H k s = (Done v, s') \<longleftrightarrow> env H k = Some v \<and> s' = s"
  by (auto simp: expect_env_def script_simps split: option.split)

lemma run_inv:
  assumes "run H rid v s = (Done (), s')"
  obtains out man f q e s1 where "env H ''OUT_DIR'' = Some out" and "env H ''CARGO_MANIFEST_DIR'' = Some man"
    and "lib_artifact_name_and_path rid (path_from H out) = (f, join (path_from H out) f)"
    and "link_library H rid (path_from H out) f (join (path_from H out) f) q e s1 = (Done (), s')"
proof -
  from assms obtain out man where e: "env H ''OUT_DIR'' = Some out" "env H ''CARGO_MANIFEST_DIR'' = Some man"
    by (auto simp: run_def bind_eq_Done expect_env_Done)
  obtain f p where l: "lib_artifact_name_and_path rid (path_from H out) = (f, p)" by fastforce
  with assms e obtain q d s1 where
    "link_library H rid (path_from H out) f p q d s1 = (Done (), s')"
    by (auto simp: run_def bind_eq_Done expect_env_Done Let_def)
  with that e l lib_artifact [OF l] show thesis by metis
qed

lemma target_rid_state: "target_rid H s = (fst (target_rid H s), s)"
  by (simp add: target_rid_def Let_def script_simps)

lemma target_rid_any: "fst (target_rid H s) = fst (target_rid H s2)"
  by (simp add: target_rid_def Let_def script_simps)

lemma obtain_local:
  assumes "node_at (tree_of s) (join (join (join man ''prebuilds'') rid) f) = Some (File fl)"
    and "1000000 \<le> file_len fl"
  shows "obtain_prebuild H rid v man d f s
    = (Done (join (join (join man ''prebuilds'') rid) f, join (join man ''prebuilds'') rid), s)"
  using assms
  by (simp add: obtain_prebuild_def Let_def script_simps path_exists_def file_size_at_least_def
      metadata_len_def MIN_LIB_SIZE_BYTES_def)

lemma link_library_copies:
  assumes "env H ''OUT_DIR'' = Some out" and "env_or_empty H ''CARGO_CFG_TARGET_OS'' \<noteq> ''windows''"
    and "node_at (tree_of s) q = Some (File fl)" and "1000000 \<le> file_len fl"
    and "\<not> denied H (join (path_from H out) f)" and "is_dir (tree_of s) (path_from H out)"
    and "\<not> is_dir (tree_of s) (join (path_from H out) f)"
  obtains s' where "link_library H rid (path_from H out) f (join (path_from H out) f) q e s = (Done (), s')"
proof -
  let ?d = "path_from H out"
  let ?p = "join ?d f"
  let ?s1 = "s\<lparr>printed := printed s @ [''cargo:rerun-if-changed='' @ path_display H q]\<rparr>"
  obtain t where t: "(if q \<noteq> ?p then fs_copy H q ?p (tree_of s) else Inr (tree_of s)) = Inr t"
    and n: "node_at t ?p = Some (File fl)"
  proof (cases "q = ?p")
    case True
    with that [of "tree_of s"] assms(3) show ?thesis by simp
  next
    case False
    have "butlast ?p = ?d" by (simp add: join_def)
    with False assms that show ?thesis by (auto simp: fs_copy_def node_at_put)
  qed
  have big: "file_size_at_least ?p MIN_LIB_SIZE_BYTES t"
    using n assms(4) by (simp add: file_size_at_least_def metadata_len_def MIN_LIB_SIZE_BYTES_def)
  have ex: "path_exists (tree_of s) q" using assms(3) by (simp add: path_exists_def)
  obtain s' where f: "finish_link H ?d ?p f (?s1\<lparr>tree_of := t\<rparr>) = (Done (), s')"
    by (rule finish_link_Done [OF assms(1), of f "?s1\<lparr>tree_of := t\<rparr>"])
  have "link_library H rid ?d f ?p q e s = (Done (), s')"
  proof (cases "q = ?p")
    case True
    with t have "t = tree_of s" by simp
    with True ex big f assms(2) show ?thesis by (simp add: link_library_def script_simps)
  next
    case False
    with t have "fs_copy H q ?p (tree_of s) = Inr t" by simp
    with False ex big f assms(2) show ?thesis
      by (simp add: link_library_def script_simps bind_assoc bind_try_fs)
  qed
  with that show thesis .
qed

lemma staged_library_run:
  assumes "env H ''DOCS_RS'' = None" and "fst (target_rid H s) = Done rid"
    and "env H ''OUT_DIR'' = Some out" and "env H ''CARGO_MANIFEST_DIR'' = Some man"
    and "\<forall>r. ancestor 2 (path_from H man) = Some r
      \<longrightarrow> \<not> path_exists (tree_of s) (join (join (join r ''shared'') ''c'') ''go.mod'')"
    and "f = fst (lib_artifact_name_and_path rid (path_from H out))"
    and "node_at (tree_of s) (join (join (join (path_from H man) ''prebuilds'') rid) f) = Some (File fl)"
    and "1000000 \<le> file_len fl"
    and "env_or_empty H ''CARGO_CFG_TARGET_OS'' \<noteq> ''windows''" and "\<not> host_windows H"
    and "\<not> denied H (join (path_from H out) f)" and "is_dir (tree_of s) (path_from H out)"
    and "\<not> is_dir (tree_of s) (join (path_from H out) f)"
  shows "\<exists>s'. main H s = (Done (), s') \<and> commands s' = commands s
    \<and> node_at (tree_of s') (join (path_from H out) f) = Some (File fl)"
proof -
  let ?s = "s\<lparr>printed := printed s @ [''cargo:rerun-if-env-changed=DOCS_RS'']\<rparr>"
  let ?q = "join (join (join (path_from H man) ''prebuilds'') rid) f"
  let ?e = "join (join (path_from H man) ''prebuilds'') rid"
  let ?p = "join (path_from H out) f"
  have q: "node_at (tree_of ?s) ?q = Some (File fl)" using assms(7) by simp
  have l: "lib_artifact_name_and_path rid (path_from H out) = (f, ?p)"
    using lib_artifact [of rid "path_from H out"] assms(6) by (metis prod.collapse)
  obtain s' where k: "link_library H rid (path_from H out) f ?p ?q ?e ?s = (Done (), s')"
    using link_library_copies [OF assms(3,9) q assms(8,11), of rid ?e] assms(12,13) by auto
  have "target_rid H ?s = (Done rid, ?s)"
    using target_rid_state [of H ?s] target_rid_any [of H ?s s] assms(2) by simp
  moreover have "ensure_go_source_in_crate H (path_from H man) ?s = (Done (), ?s)"
    using assms(5) by (auto simp: ensure_go_source_in_crate_def script_simps Let_def split: option.split)
  moreover note obtain_local [OF q assms(8), of H "Some (pkg_version H)" "path_from H out"]
  ultimately have m: "main H s = (Done (), s')"
    using assms(1,3,4) k
    by (simp add: main_def run_def script_simps expect_env_def l bind_Done Let_def)
  have "satisfies (ran (\<lambda>c. False)) (link_library H rid (path_from H out) f ?p ?q ?e)"
    using assms(10) by (intro ran.linked) simp
  from satisfiesD [OF this k] obtain cs where cs: "commands s' = commands ?s @ cs"
    "list_all (\<lambda>c. False) cs" by (auto simp: ran_def)
  from cs have "cs = []" by (cases cs) simp_all
  with cs m link_library_Done(1) [OF k assms(3,10)] q show ?thesis by simp
qed

definition staged_file :: file_rec where
  "staged_file = \<lparr>file_len = 2000000, leading = [0x7f, 0x45], body = 1\<rparr>"

definition staged :: tree where
  "staged =
     [([''t''], Dir 0), ([''t'', ''b''], Dir 0), ([''t'', ''b'', ''p''], Dir 0), ([''t'', ''b'', ''p'', ''out''], Dir 0),
      ([''r'', ''s'', ''y'', ''prebuilds'', ''linux-x64'', ''libspicedb.so''], File staged_file)]"

definition sample_build :: build where
  "sample_build = \<lparr>tree_of = staged, printed = [], warned = [], commands = []\<rparr>"

lemma sample_facts:
  "env sample_host ''DOCS_RS'' = None" "\<not> host_windows sample_host"
  "fst (target_rid sample_host s) = Done ''linux-x64''"
  "env sample_host ''OUT_DIR'' = Some ''/t/b/p/out''"
  "env sample_host ''CARGO_MANIFEST_DIR'' = Some ''/r/s/y''"
  "path_from sample_host ''/t/b/p/out'' = [''t'', ''b'', ''p'', ''out'']"
  "path_from sample_host ''/r/s/y'' = [''r'', ''s'', ''y'']"
  "fst (lib_artifact_name_and_path ''linux-x64'' d) = ''libspicedb.so''"
  "env_or_empty sample_host ''CARGO_CFG_TARGET_OS'' \<noteq> ''windows''"
  "\<not> denied sample_host p"
  "is_dir (tree_of sample_build) [''t'', ''b'', ''p'', ''out'']"
  "\<not> is_dir (tree_of sample_build) [''t'', ''b'', ''p'', ''out'', ''libspicedb.so'']"
  by (simp_all add: sample_host_def target_rid_def env_or_empty_def script_simps path_from_def
      lib_artifact_name_and_path_def Let_def starts_with_def sample_build_def staged_def is_dir_def node_at_def)

lemma sample_main: obtains s' where "main sample_host sample_build = (Done (), s')"
proof -
  have "\<exists>s'. main sample_host sample_build = (Done (), s')"
    using staged_library_run [OF sample_facts(1) sample_facts(3) sample_facts(4) sample_facts(5),
        of sample_build "''libspicedb.so''" staged_file]
    by (simp add: sample_facts ancestor_def path_exists_def join_def)
      (auto simp: sample_build_def staged_def node_at_def staged_file_def)
  with that show thesis by blast
qed

section \<open>Properties\<close>

text \<open>
  A library staged under \<open>prebuilds\<close> for the target, of a million bytes or more, is linked as it
  is: no command is run and the copy in the output directory is that file.
\<close>

lemma staged_library_is_used:
  assumes "env H ''DOCS_RS'' = None" and "fst (target_rid H s) = Done rid"
    and "env H ''OUT_DIR'' = Some out" and "env H ''CARGO_MANIFEST_DIR'' = Some man"
    and "\<forall>r. ancestor 2 (path_from H man) = Some r
      \<longrightarrow> \<not> path_exists (tree_of s) (join (join (join r ''shared'') ''c'') ''go.mod'')"
    and "f = fst (lib_artifact_name_and_path rid (path_from H out))"
    and "node_at (tree_of s) (join (join (join (path_from H man) ''prebuilds'') rid) f) = Some (File fl)"
    and "1000000 \<le> file_len fl"
    and "env_or_empty H ''CARGO_CFG_TARGET_OS'' \<noteq> ''windows''" and "\<not> host_windows H"
    and "\<not> denied H (join (path_from H out) f)" and "is_dir (tree_of s) (path_from H out)"
    and "\<not> is_dir (tree_of s) (join (path_from H out) f)"
  shows "\<exists>s'. main H s = (Done (), s') \<and> commands s' = commands s
    \<and> node_at (tree_of s') (join (path_from H out) f) = Some (File fl)"
  by (rule staged_library_run [OF assms])

lemma staged_library_is_used_example:
  "\<exists>s'. main sample_host sample_build = (Done (), s') \<and> commands s' = []
     \<and> node_at (tree_of s') [''t'', ''b'', ''p'', ''out'', ''libspicedb.so''] = Some (File staged_file)"
  using staged_library_is_used [OF sample_facts(1) sample_facts(3) sample_facts(4) sample_facts(5),
      of sample_build "''libspicedb.so''" staged_file]
  by (simp add: sample_facts ancestor_def path_exists_def join_def) 
    (simp add: sample_build_def staged_def node_at_def staged_file_def)



text \<open>
  The library that is linked is the one that was found, built or downloaded: linking puts it in
  place unchanged, also when it is there already (it is not copied onto itself).
\<close>

lemma linked_library_is_the_one_obtained:
  assumes "link_library H rid (path_from H out) f (join (path_from H out) f) prebuild dir s = (Done (), s')"
    and "env H ''OUT_DIR'' = Some out" and "\<not> host_windows H"
  shows "node_at (tree_of s') (join (path_from H out) f) = node_at (tree_of s) prebuild"
  by (rule link_library_Done(1) [OF assms])

lemma linked_library_is_the_one_obtained_example:
  "\<exists>s'. link_library sample_host ''linux-x64'' [''t'', ''b'', ''p'', ''out''] ''libspicedb.so''
      [''t'', ''b'', ''p'', ''out'', ''libspicedb.so'']
      [''r'', ''s'', ''y'', ''prebuilds'', ''linux-x64'', ''libspicedb.so''] [] sample_build = (Done (), s')
    \<and> node_at (tree_of s') [''t'', ''b'', ''p'', ''out'', ''libspicedb.so''] = Some (File staged_file)"
proof -
  let ?q = "[''r'', ''s'', ''y'', ''prebuilds'', ''linux-x64'', ''libspicedb.so'']"
  have q: "node_at (tree_of sample_build) ?q = Some (File staged_file)"
    by (simp add: sample_build_def staged_def node_at_def)
  obtain s' where l: "link_library sample_host ''linux-x64'' (path_from sample_host ''/t/b/p/out'')
      ''libspicedb.so'' (join (path_from sample_host ''/t/b/p/out'') ''libspicedb.so'') ?q [] sample_build
      = (Done (), s')"
    by (rule link_library_copies [OF sample_facts(4) sample_facts(9) q, of "''libspicedb.so''" "''linux-x64''" "[]"])
      (simp_all add: sample_facts join_def staged_file_def)
  from linked_library_is_the_one_obtained [OF l sample_facts(4,2)] l q show ?thesis
    by (simp add: sample_facts join_def)
qed

text \<open>
  C31: whatever happens, also on a panic, the script runs no command but the Go build, curl with the
  release URL of a validated version, and tar; only a Windows host runs the two Visual Studio tools.
\<close>

theorem main_runs_only_expected_commands:
  assumes "main H s = (r, s')" and "\<not> host_windows H"
  shows "\<exists>cs. commands s' = commands s @ cs \<and>
    (\<forall>c \<in> set cs. (\<exists>d lib. c = go_build H d lib) \<or> (\<exists>a d. c = tar H a d)
       \<or> (\<exists>a rid v. v \<noteq> [] \<and> (\<forall>x \<in> set v. is_ascii_alphanumeric x \<or> x = CHR ''.'' \<or> x = CHR ''-'')
            \<and> c = curl H a (release_url rid v)))"
proof -
  from satisfiesD [OF main_ran assms(1)] obtain cs where "commands s' = commands s @ cs"
    "list_all (expected_command H) cs" by (auto simp: ran_def)
  then show ?thesis
    using assms(2) by (intro exI [of _ cs]) (auto simp: list_all_iff expected_command_def version_ok_def)
qed

theorem main_runs_only_expected_commands_witness:
  "\<exists>r s'. main sample_host sample_build = (r, s') \<and> (\<forall>c \<in> set (commands s'). program c \<noteq> ''rm'')"
proof -
  obtain r s' where m: "main sample_host sample_build = (r, s')" by fastforce
  have "\<not> host_windows sample_host" "commands sample_build = []"
    by (simp_all add: sample_host_def sample_build_def)
  with main_runs_only_expected_commands [OF m] m show ?thesis
    by (fastforce simp: go_build_def tar_def curl_def)
qed

section \<open>What does not depend on the environment\<close>

lemma env_free [simp]:
  "host_windows (H\<lparr>env := e\<rparr>) = host_windows H" "pkg_version (H\<lparr>env := e\<rparr>) = pkg_version H"
  "path_display (H\<lparr>env := e\<rparr>) = path_display H" "path_from (H\<lparr>env := e\<rparr>) = path_from H"
  "fs_copy (H\<lparr>env := e\<rparr>) = fs_copy H" "fs_remove_file (H\<lparr>env := e\<rparr>) = fs_remove_file H"
  "io_text (H\<lparr>env := e\<rparr>) = io_text H" "read_dir (H\<lparr>env := e\<rparr>) = read_dir H" "run_command (H\<lparr>env := e\<rparr>) = run_command H"
  by (simp_all add: fun_eq_iff path_display_def path_from_def fs_copy_def fs_remove_file_def
      read_dir_def run_command_def split: option.split node.split)

lemma env_free_create_dirs [simp]: "create_dirs (H\<lparr>env := e\<rparr>) b cs t = create_dirs H b cs t"
  by (induction cs arbitrary: b t) (simp_all add: Let_def split: option.split node.split)

lemma env_free_create [simp]: "create_dir_all (H\<lparr>env := e\<rparr>) = create_dir_all H"
  by (intro ext) (simp add: create_dir_all_def)

lemma env_free_copy:
  "copy_dir_recursive (H\<lparr>env := e\<rparr>) k src dest = copy_dir_recursive H k src dest"
  "copy_entries (H\<lparr>env := e\<rparr>) k src dest ns = copy_entries H k src dest ns"
proof (induction H k src dest and H k src dest ns rule: copy_dir_recursive_copy_entries.induct)
  case (2 H k src dest)
  have "copy_entries (H\<lparr>env := e\<rparr>) k src dest = copy_entries H k src dest" by (intro ext "2.IH")
  then show ?case by simp
next
  case (4 H k src dest n ns)
  then show ?case by (simp cong: if_cong)
qed simp_all

lemma env_free_scripts:
  "ensure_go_source_in_crate (H\<lparr>env := e\<rparr>) m = ensure_go_source_in_crate H m"
  "go_build (H\<lparr>env := e\<rparr>) d l = go_build H d l" "curl (H\<lparr>env := e\<rparr>) a u = curl H a u"
  "tar (H\<lparr>env := e\<rparr>) a d = tar H a d"
  "check_extracted (H\<lparr>env := e\<rparr>) rid a d = check_extracted H rid a d"
  "find_msvc_lib_exe (H\<lparr>env := e\<rparr>) = find_msvc_lib_exe H"
  unfolding ensure_go_source_in_crate_def env_free_copy go_build_def curl_def tar_def
    check_extracted_def find_msvc_lib_exe_def env_free by (rule refl)+

lemma env_free_scripts2:
  "try_build_from_source (H\<lparr>env := e\<rparr>) m d f = try_build_from_source H m d f"
  "download_from_release (H\<lparr>env := e\<rparr>) rid v d = download_from_release H rid v d"
  "generate_import_lib_windows (H\<lparr>env := e\<rparr>) p q = generate_import_lib_windows H p q"
  unfolding try_build_from_source_def download_from_release_def generate_import_lib_windows_def
    try_generate_import_lib_win_def env_free env_free_create env_free_scripts by (rule refl)+

lemma env_used:
  assumes "e ''CARGO_CFG_TARGET_OS'' = env H ''CARGO_CFG_TARGET_OS''"
    and "e ''CARGO_CFG_TARGET_ARCH'' = env H ''CARGO_CFG_TARGET_ARCH''"
    and "e ''OUT_DIR'' = env H ''OUT_DIR''" and "e ''CARGO_MANIFEST_DIR'' = env H ''CARGO_MANIFEST_DIR''"
    and "e ''DOCS_RS'' = env H ''DOCS_RS''"
  shows "main (H\<lparr>env := e\<rparr>) = main H"
proof -
  have os: "env_or_empty (H\<lparr>env := e\<rparr>) ''CARGO_CFG_TARGET_OS'' = env_or_empty H ''CARGO_CFG_TARGET_OS''"
    "env_or_empty (H\<lparr>env := e\<rparr>) ''CARGO_CFG_TARGET_ARCH'' = env_or_empty H ''CARGO_CFG_TARGET_ARCH''"
    using assms by (simp_all add: env_or_empty_def)
  have ex: "expect_env (H\<lparr>env := e\<rparr>) ''OUT_DIR'' = expect_env H ''OUT_DIR''"
    "expect_env (H\<lparr>env := e\<rparr>) ''CARGO_MANIFEST_DIR'' = expect_env H ''CARGO_MANIFEST_DIR''"
    using assms by (simp_all add: expect_env_def)
  have docs: "env (H\<lparr>env := e\<rparr>) ''DOCS_RS'' = env H ''DOCS_RS''" using assms(5) by simp
  have t: "target_rid (H\<lparr>env := e\<rparr>) = target_rid H" unfolding target_rid_def os by (rule refl)
  have ob: "obtain_prebuild (H\<lparr>env := e\<rparr>) rid (Some v) m d f = obtain_prebuild H rid (Some v) m d f"
    for rid v m d f
    unfolding obtain_prebuild_def env_free env_free_scripts2 or_else_simps by (rule refl)
  have l: "link_library (H\<lparr>env := e\<rparr>) rid d f p q x = link_library H rid d f p q x" for rid d f p q x
    unfolding link_library_def finish_link_def copy_lib_to_target_def emit_rpath_def os ex env_free
      env_free_scripts2 by (rule refl)
  show ?thesis
    unfolding main_def run_def t ob l ex docs env_free env_free_scripts by (rule refl)
qed

text \<open>
  The environment variable the messages tell the user to set has no effect: whatever
  \<open>SPICEDB_EMBEDDED_RELEASE_VERSION\<close> is, the script does the same.
\<close>

lemma release_version_env_is_ignored:
  "main (H\<lparr>env := (env H)(''SPICEDB_EMBEDDED_RELEASE_VERSION'' := v)\<rparr>) = main H"
  by (rule env_used) simp_all

lemma download_commands:
  assumes "download_from_release H rid v d s = (r, s')"
    and a_def: "join d ''libspicedb.tar.gz'' = a" and c_def: "curl H a (release_url rid v) = c"
  shows "(commands s' = commands s @ [c]
      \<or> commands s' = commands s @ [c, tar H a d] \<and> looks_like_gzip a (snd (exec H c (tree_of s))))
    \<and> (r = Done () \<longrightarrow> commands s' = commands s @ [c, tar H a d]
        \<and> file_size_at_least (snd (lib_artifact_name_and_path rid d)) 1000000 (tree_of s'))"
proof -
  obtain x t where x: "exec H c (tree_of s) = (x, t)" by fastforce
  let ?s1 = "s\<lparr>tree_of := t, commands := commands s @ [c]\<rparr>"
  obtain y u where y: "exec H (tar H a d) t = (y, u)" by fastforce
  have lib: "snd (lib_artifact_name_and_path rid d) = join d (fst (lib_artifact_name_and_path rid d))"
    by (metis lib_artifact prod.collapse)
  have run: "bind_script (run_command H c) g s = g x ?s1" for g :: "_ \<Rightarrow> unit script"
    by (simp add: bind_script_def run_command_def x)
  have run2: "bind_script (run_command H (tar H a d)) g ?s1
      = g y (?s1\<lparr>tree_of := u, commands := commands ?s1 @ [tar H a d]\<rparr>)" for g :: "_ \<Rightarrow> unit script"
    by (simp add: bind_script_def run_command_def y)
  let ?s2 = "?s1\<lparr>tree_of := u, commands := commands ?s1 @ [tar H a d]\<rparr>"
  have check: "commands s' = commands z
      \<and> (r = Done () \<longrightarrow> file_size_at_least (snd (lib_artifact_name_and_path rid d)) 1000000 (tree_of s'))"
    if "check_extracted H rid a d z = (r, s')" for z
    using that by (auto simp: check_extracted_def Let_def script_simps lib MIN_LIB_SIZE_BYTES_def
        split: if_splits)
  have ending: "commands s' = commands z
      \<and> (r = Done () \<longrightarrow> file_size_at_least (snd (lib_artifact_name_and_path rid d)) 1000000 (tree_of s'))"
    if "bind_script (try_fs f) (\<lambda>_. check_extracted H rid a d) z = (r, s')" for f z
    using that check by (auto simp: bind_try_fs split: sum.splits)
  have bad: "commands s' = commands z \<and> r \<noteq> Done ()"
    if "bind_script (try_fs f) (\<lambda>_. panic m) z = (r, s')" for f m z
    using that by (auto simp: bind_try_fs script_simps split: sum.splits)
  note code = assms(1) [unfolded download_from_release_def Let_def, unfolded a_def, unfolded c_def,
      unfolded run]
  consider (no_run) e where "x = Inl e" | (failed) st where "x = Inr st" "\<not> succeeded st"
    | (got) st where "x = Inr st" "succeeded st" by (cases x) auto
  then show ?thesis
  proof cases
    case got
    show ?thesis
    proof (cases "looks_like_gzip a t")
      case False
      with code got bad [of _ _ ?s1] show ?thesis
        by (cases "metadata_len t a") (auto simp: script_simps)
    next
      case True
      then obtain n where n: "metadata_len t a = Some n"
        by (cases "metadata_len t a") (auto simp: looks_like_gzip_def)
      show ?thesis
      proof (cases y)
        case (Inl e)
        with code got True n x show ?thesis by (auto simp: script_simps run2)
      next
        case (Inr st2)
        with code got True n x y show ?thesis
          using ending [of _ ?s2]
          by (cases "succeeded st2") (auto simp: script_simps run2)
      qed
    qed
  qed (use code in \<open>auto simp: script_simps\<close>)
qed

text \<open>
  An archive is unpacked only when it looks like one: a download runs curl and, if the file it
  left has at least 100 bytes and the gzip magic, tar on that file; a download that ends well has left
  a library of at least a million bytes.
\<close>

lemma download_unpacks_only_gzip:
  assumes "download_from_release H rid v d s = (r, s')"
  shows "\<exists>a c. a = join d ''libspicedb.tar.gz'' \<and> c = curl H a (release_url rid v)
    \<and> (commands s' = commands s @ [c]
       \<or> commands s' = commands s @ [c, tar H a d] \<and> looks_like_gzip a (snd (exec H c (tree_of s))))
    \<and> (r = Done () \<longrightarrow> commands s' = commands s @ [c, tar H a d]
        \<and> file_size_at_least (snd (lib_artifact_name_and_path rid d)) 1000000 (tree_of s'))"
  using download_commands [OF assms refl refl] by metis

lemma download_unpacks_only_gzip_example:
  "\<exists>r s' c. download_from_release sample_host ''linux-x64'' ''0.8.0'' [''o''] sample_build = (r, s')
    \<and> (commands s' = [c] \<or> commands s' = [c, tar sample_host [''o'', ''libspicedb.tar.gz''] [''o'']])"
proof -
  obtain r s' where d: "download_from_release sample_host ''linux-x64'' ''0.8.0'' [''o''] sample_build = (r, s')"
    by fastforce
  have "commands sample_build = []" by (simp add: sample_build_def)
  with download_unpacks_only_gzip [OF d] d show ?thesis by (auto simp: join_def)
qed

section \<open>The copy of the Go source\<close>

text \<open>
  C33: the step that copies the Go source never stops the build and runs no command; it changes nothing
  but its destination and missing directories above it, nothing at all without a \<open>go.mod\<close>, and
  unless it has printed a warning every file of the source is in the crate afterwards.
\<close>

theorem go_source_copied:
  assumes "ancestor 2 manifest = Some root" and "manifest \<noteq> root @ [''shared'', ''c'']"
    and "src = join (join root ''shared'') ''c''" and "dest = join (join manifest ''shared'') ''c''"
    and "ensure_go_source_in_crate H manifest s = (r, s')"
    and "\<And>q. node_at (tree_of s) q \<noteq> None \<Longrightarrow> q \<noteq> [] \<Longrightarrow> is_dir (tree_of s) (butlast q)"
  shows "r = Done () \<and> commands s' = commands s
    \<and> (\<forall>q. node_at (tree_of s') q \<noteq> node_at (tree_of s) q \<longrightarrow>
        prefix dest q \<or> prefix q dest \<and> node_at (tree_of s) q = None)
    \<and> (if path_exists (tree_of s) (join src ''go.mod'') then
        warned s' = warned s \<longrightarrow> (\<forall>p f. p \<noteq> [] \<longrightarrow> node_at (tree_of s) (src @ p) = Some (File f) \<longrightarrow>
          node_at (tree_of s') (dest @ p) = Some (File f))
       else s' = s)"
proof -
  note step = source_step [OF assms(1-5)]
  have "copied src dest UNIV (tree_of s) (tree_of s')"
    if "path_exists (tree_of s) (join src ''go.mod'')" "warned s' = warned s"
    using step(5) that well_formed_dirs [OF assms(6)] by blast
  then have "node_at (tree_of s') (dest @ p) = Some (File f)"
    if "path_exists (tree_of s) (join src ''go.mod'')" "warned s' = warned s" "p \<noteq> []"
      "node_at (tree_of s) (src @ p) = Some (File f)" for p f
    using that by (cases p) (simp_all add: copied_def below_def)
  with step show ?thesis by (auto simp: frame_def)
qed

definition sample_repo :: build where
  "sample_repo =
     \<lparr>tree_of = [([''r''], Dir 0), ([''r'', ''shared''], Dir 0), ([''r'', ''shared'', ''c''], Dir 0),
        ([''r'', ''shared'', ''c'', ''go.mod''], File \<lparr>file_len = 40, leading = [], body = 1\<rparr>),
        ([''r'', ''shared'', ''c'', ''cmd''], Dir 0),
        ([''r'', ''shared'', ''c'', ''cmd'', ''x.go''], File \<lparr>file_len = 50, leading = [], body = 2\<rparr>),
        ([''r'', ''s''], Dir 0), ([''r'', ''s'', ''y''], Dir 0)],
      printed = [], warned = [], commands = []\<rparr>"

lemma sample_repo_well_formed:
  "node_at (tree_of sample_repo) q \<noteq> None \<Longrightarrow> q \<noteq> [] \<Longrightarrow> is_dir (tree_of sample_repo) (butlast q)"
  by (auto simp: sample_repo_def node_at_def is_dir_def split: if_splits)

lemma sample_repo_quiet:
  "warned (snd (ensure_go_source_in_crate sample_host [''r'', ''s'', ''y''] sample_repo)) = []"
  by code_simp

theorem go_source_copied_witness:
  "node_at (tree_of (snd (ensure_go_source_in_crate sample_host [''r'', ''s'', ''y''] sample_repo)))
     [''r'', ''s'', ''y'', ''shared'', ''c'', ''cmd'', ''x.go'']
   = Some (File \<lparr>file_len = 50, leading = [], body = 2\<rparr>)"
proof -
  obtain r s where run: "ensure_go_source_in_crate sample_host [''r'', ''s'', ''y''] sample_repo = (r, s)"
    by fastforce
  let ?src = "[''r'', ''shared'', ''c'']" and ?dest = "[''r'', ''s'', ''y'', ''shared'', ''c'']"
  have node: "node_at (tree_of sample_repo) (?src @ [''cmd'', ''x.go''])
      = Some (File \<lparr>file_len = 50, leading = [], body = 2\<rparr>)"
    and there: "path_exists (tree_of sample_repo) (join ?src ''go.mod'')"
    by (simp_all add: sample_repo_def node_at_def path_exists_def join_def)
  have "ancestor 2 [''r'', ''s'', ''y''] = Some [''r'']" "[''r'', ''s'', ''y''] \<noteq> [''r''] @ [''shared'', ''c'']"
    "?src = join (join [''r''] ''shared'') ''c''" "?dest = join (join [''r'', ''s'', ''y''] ''shared'') ''c''"
    by (simp_all add: ancestor_def join_def)
  from go_source_copied [OF this run sample_repo_well_formed] there
  have "warned s = warned sample_repo \<longrightarrow> (\<forall>p f. p \<noteq> [] \<longrightarrow> node_at (tree_of sample_repo) (?src @ p)
      = Some (File f) \<longrightarrow> node_at (tree_of s) (?dest @ p) = Some (File f))" by presburger
  moreover have "warned s = warned sample_repo"
    using sample_repo_quiet run by (simp add: sample_repo_def)
  ultimately have "node_at (tree_of s) (?dest @ [''cmd'', ''x.go''])
      = Some (File \<lparr>file_len = 50, leading = [], body = 2\<rparr>)" using node by blast
  with run show ?thesis by simp
qed

text \<open>
  C32: the script always ends, whatever the host does: it returns or panics, as long as the crate is
  not itself the directory \<open>shared/c\<close>, which would be copied into itself.
\<close>

theorem build_script_returns:
  assumes "\<And>m root. env H ''CARGO_MANIFEST_DIR'' = Some m \<Longrightarrow> path_from H m \<noteq> root @ [''shared'', ''c'']"
  shows "\<exists>r s'. main H s = (r, s') \<and> (r = Done () \<or> (\<exists>msg. r = Panic msg))"
proof -
  obtain r s' where run: "main H s = (r, s')" by fastforce
  from satisfiesD [OF main_ends [OF assms] run] have "r \<noteq> Diverge" by (simp add: ends_def)
  with run show ?thesis by (cases r) auto
qed

theorem build_script_returns_witness:
  "\<exists>r s'. main sample_host sample_repo = (r, s') \<and> r \<noteq> Diverge"
proof -
  have "path_from sample_host ''/r/s/y'' \<noteq> root @ [''shared'', ''c'']" for root
    by (auto simp: path_from_def sample_host_def dest: arg_cong [of _ _ last])
  then have "path_from sample_host m \<noteq> root @ [''shared'', ''c'']"
    if "env sample_host ''CARGO_MANIFEST_DIR'' = Some m" for m root
    using that by (auto simp: sample_host_def)
  from build_script_returns [OF this, of sample_repo] show ?thesis by auto
qed

end
