(* ===== verification/Grpc_Build.thy ===== *)
theory Grpc_Build
  imports File_System "HOL-Library.Sublist"
begin

text \<open>
  The crate \<open>spicedb-grpc-tonic\<close>: its build script \<open>build.rs\<close>, which finds the generated gRPC types
  checked in or generates them with \<open>buf\<close> and \<open>tonic_prost_build\<close>, and the includes of
  \<open>src/lib.rs\<close>, which read the generated files from the place the script has chosen.  \<open>walkdir\<close> and
  \<open>tonic_prost_build\<close> are parameters.
\<close>

section \<open>Errors and the packages the script calls\<close>

text \<open>\<open>Box<dyn Error>\<close>: an \<open>io::Error\<close>, of kind \<open>NotFound\<close> or not, or an error of another type.\<close>

datatype box_error = IoError bool string | OtherError string

definition is_not_found :: "box_error \<Rightarrow> bool" where
  "is_not_found e = (case e of IoError nf _ \<Rightarrow> nf | OtherError _ \<Rightarrow> False)"

text \<open>
  The host, whether the error of a command is of kind \<open>NotFound\<close>, the items of \<open>WalkDir\<close> (an error
  or the path of an entry), and \<open>compile_protos\<close> for given protos, include directory and
  \<open>OUT_DIR\<close>.
\<close>

record grpc_host =
  host_of :: host
  cmd_not_found :: "command \<Rightarrow> tree \<Rightarrow> bool"
  walk_dir :: "path \<Rightarrow> tree \<Rightarrow> (string + path) list"
  compile_protos :: "path list \<Rightarrow> path list \<Rightarrow> path \<Rightarrow> tree \<Rightarrow> (box_error + unit) \<times> tree"

section \<open>The build script\<close>

text \<open>\<open>std::env::var(k)?\<close>\<close>

definition env_var :: "grpc_host \<Rightarrow> string \<Rightarrow> box_error + string" where
  "env_var G k = ok_or (env (host_of G) k) (OtherError ''environment variable not found'')"

text \<open>\<open>Path::extension\<close>: what follows the last dot of the last component, unless nothing precedes it.\<close>

definition extension :: "path \<Rightarrow> string option" where
  "extension p =
     (if p = [] \<or> last p = ''..'' \<or> CHR ''.'' \<notin> set (last p) then None
      else (let after = rev (takeWhile (\<lambda>c. c \<noteq> CHR ''.'') (rev (last p)))
            in if length (last p) = length after + 1 then None else Some after))"

definition proto_files :: "(string + path) list \<Rightarrow> path list" where
  "proto_files items =
     filter (\<lambda>p. extension p = Some ''proto'') (List.map_filter (\<lambda>e. case e of Inl _ \<Rightarrow> None | Inr p \<Rightarrow> Some p) items)"

definition buf_dep_update :: "path \<Rightarrow> command" where
  "buf_dep_update proto_dir =
     \<lparr>program = ''buf'', args = [''dep'', ''update''], current_dir = Some proto_dir, envs = []\<rparr>"

definition buf_export :: "grpc_host \<Rightarrow> path \<Rightarrow> path \<Rightarrow> command" where
  "buf_export G proto_dir export_dir =
     \<lparr>program = ''buf'', args = [''export'', ''.'', ''--output'', path_display (host_of G) export_dir],
      current_dir = Some proto_dir, envs = []\<rparr>"

text \<open>\<open>Command::status()?\<close> and the check of the status.\<close>

definition run_status :: "grpc_host \<Rightarrow> command \<Rightarrow> string \<Rightarrow> (box_error + unit) script" where
  "run_status G c msg =
     bind_script (ask (cmd_not_found G c)) (\<lambda>nf.
     bind_script (run_command (host_of G) c) (\<lambda>r.
     case r of
       Inl e \<Rightarrow> return (Inl (IoError nf e))
     | Inr st \<Rightarrow> if succeeded st then return (Inr ()) else return (Inl (OtherError msg))))"

definition compile :: "grpc_host \<Rightarrow> path list \<Rightarrow> path \<Rightarrow> path \<Rightarrow> (box_error + unit) script" where
  "compile G protos export_dir out_dir s =
     (let (r, t) = compile_protos G protos [export_dir] out_dir (tree_of s)
      in (Done r, s\<lparr>tree_of := t\<rparr>))"

definition run_buf_and_tonic :: "grpc_host \<Rightarrow> path \<Rightarrow> (box_error + unit) script" where
  "run_buf_and_tonic G manifest =
     (let proto_dir = join manifest ''proto''
      in case env_var G ''OUT_DIR'' of
           Inl e \<Rightarrow> return (Inl e)
         | Inr out \<Rightarrow>
             (let out_dir = path_from (host_of G) out; export_dir = join out_dir ''buf_export''
              in bind_script (run_status G (buf_dep_update proto_dir) ''buf dep update failed'') (\<lambda>r.
                 case r of Inl e \<Rightarrow> return (Inl e)
                 | Inr _ \<Rightarrow>
                 bind_script (run_status G (buf_export G proto_dir export_dir) ''buf export failed'') (\<lambda>r.
                 case r of Inl e \<Rightarrow> return (Inl e)
                 | Inr _ \<Rightarrow>
                 bind_script (ask (\<lambda>t. proto_files (walk_dir G export_dir t))) (\<lambda>protos.
                 bind_script (compile G protos export_dir out_dir) (\<lambda>r.
                 case r of Inl e \<Rightarrow> return (Inl e)
                 | Inr _ \<Rightarrow>
                 bind_script (println ''cargo:rerun-if-changed=proto/'') (\<lambda>_. return (Inr ()))))))))"

definition checked_in_types :: "path \<Rightarrow> path" where
  "checked_in_types manifest = join (join (join manifest ''src'') ''generated'') ''authzed.api.v1.rs''"

definition buf_missing :: string where
  "buf_missing = ''spicedb-grpc-tonic: generated code is not present (building from git?) and `buf` was not found. ''
     @ ''Install buf (https://buf.build) and protoc, or depend on a published spicedb-embedded from crates.io ''
     @ ''so the crate is built with checked-in generated code.''"

definition grpc_main :: "grpc_host \<Rightarrow> (box_error + unit) script" where
  "grpc_main G =
     bind_script (println ''cargo:rustc-check-cfg=cfg(proto_checked_in)'') (\<lambda>_.
     case env_var G ''CARGO_MANIFEST_DIR'' of
       Inl e \<Rightarrow> return (Inl e)
     | Inr m \<Rightarrow>
         (let manifest = path_from (host_of G) m
          in bind_script (ask (\<lambda>t. path_exists t (checked_in_types manifest))) (\<lambda>present.
             if present then
               bind_script (println ''cargo:rustc-cfg=proto_checked_in'') (\<lambda>_.
               bind_script (println ''cargo:rerun-if-changed=src/generated/'') (\<lambda>_. return (Inr ())))
             else
               bind_script (run_buf_and_tonic G manifest) (\<lambda>r.
               case r of
                 Inl e \<Rightarrow> if is_not_found e then panic buf_missing else return (Inl e)
               | Inr _ \<Rightarrow> return (Inr ())))))"

section \<open>The includes of the crate\<close>

text \<open>The modules of \<open>src/lib.rs\<close> under \<open>generated\<close>, each with the file it includes.\<close>

definition grpc_modules :: "(string list \<times> string) list" where
  "grpc_modules =
     [([''google'', ''api''], ''google.api.rs''), ([''google'', ''rpc''], ''google.rpc.rs''),
      ([''buf'', ''validate''], ''buf.validate.rs''), ([''validate''], ''validate.rs''),
      ([''grpc'', ''gateway'', ''protoc_gen_openapiv2'', ''options''],
         ''grpc.gateway.protoc_gen_openapiv2.options.rs''),
      ([''authzed'', ''api'', ''v1''], ''authzed.api.v1.rs'')]"

text \<open>Where the include of a file looks: by the cfg, beside \<open>lib.rs\<close> or in \<open>OUT_DIR\<close>.\<close>

definition included_file :: "bool \<Rightarrow> path \<Rightarrow> path \<Rightarrow> string \<Rightarrow> path" where
  "included_file checked_in manifest out_dir f =
     (if checked_in then join (join (join manifest ''src'') ''generated'') f else join out_dir f)"

definition missing_includes :: "bool \<Rightarrow> path \<Rightarrow> path \<Rightarrow> tree \<Rightarrow> string list" where
  "missing_includes checked_in manifest out_dir t =
     filter (\<lambda>f. \<not> (\<exists>r. node_at t (included_file checked_in manifest out_dir f) = Some (File r)))
       (map snd grpc_modules)"

text \<open>Whether \<open>rustc\<close> compiles the crate with the cfg: the script has printed it.\<close>

definition cfg_checked_in :: "build \<Rightarrow> bool" where
  "cfg_checked_in s \<longleftrightarrow> ''cargo:rustc-cfg=proto_checked_in'' \<in> set (printed s)"

section \<open>What the script does\<close>

text \<open>A command that ran: the tree it left and the log.\<close>

definition after_command :: "command \<Rightarrow> tree \<Rightarrow> build \<Rightarrow> build" where
  "after_command c t s = s\<lparr>tree_of := t, commands := commands s @ [c]\<rparr>"

lemma after_command_simps [simp]:
  "tree_of (after_command c t s) = t" "commands (after_command c t s) = commands s @ [c]"
  "printed (after_command c t s) = printed s"
  by (simp_all add: after_command_def)

lemma run_status_run:
  assumes "exec (host_of G) c (tree_of s) = (r, t)"
  shows "run_status G c msg s =
    (Done (case r of Inl e \<Rightarrow> Inl (IoError (cmd_not_found G c (tree_of s)) e)
        | Inr st \<Rightarrow> if succeeded st then Inr () else Inl (OtherError msg)), after_command c t s)"
  using assms
  by (simp add: run_status_def run_command_def bind_script_def script_simps after_command_def split: sum.split)

text \<open>The steps of a generation, as a relation between the tree before and after: both commands ended
  well and the protos of the export were compiled.\<close>

definition generated ::
    "grpc_host \<Rightarrow> path \<Rightarrow> path \<Rightarrow> tree \<Rightarrow> tree \<Rightarrow> tree \<Rightarrow> tree \<Rightarrow> bool" where
  "generated G manifest out_dir t t1 t2 t3 \<longleftrightarrow>
     (let proto_dir = join manifest ''proto''; export_dir = join out_dir ''buf_export''
      in (\<exists>o1. exec (host_of G) (buf_dep_update proto_dir) t = (Inr o1, t1) \<and> succeeded o1)
       \<and> (\<exists>o2. exec (host_of G) (buf_export G proto_dir export_dir) t1 = (Inr o2, t2) \<and> succeeded o2)
       \<and> compile_protos G (proto_files (walk_dir G export_dir t2)) [export_dir] out_dir t2 = (Inr (), t3))"

lemma run_buf_and_tonic_outcome:
  fixes G manifest s
  defines "dep \<equiv> buf_dep_update (join manifest ''proto'')"
  assumes out: "env (host_of G) ''OUT_DIR'' = Some out" and d: "out_dir = path_from (host_of G) out"
    and ex: "exp = buf_export G (join manifest ''proto'') (join out_dir ''buf_export'')"
  obtains e s' cs where "run_buf_and_tonic G manifest s = (Done (Inl e), s')"
      and "commands s' = commands s @ cs" and "cs = [dep] \<or> cs = [dep, exp]" and "printed s' = printed s"
  | t1 t2 t3 s' where "generated G manifest out_dir (tree_of s) t1 t2 t3"
      and "run_buf_and_tonic G manifest s = (Done (Inr ()), s')" and "tree_of s' = t3"
      and "commands s' = commands s @ [dep, exp]"
      and "printed s' = printed s @ [''cargo:rerun-if-changed=proto/'']"
proof -
  let ?e = "join out_dir ''buf_export''"
  obtain r1 t1 where r1: "exec (host_of G) dep (tree_of s) = (r1, t1)" by fastforce
  let ?s1 = "after_command dep t1 s"
  obtain r2 t2 where r2: "exec (host_of G) exp (tree_of ?s1) = (r2, t2)" by fastforce
  let ?s2 = "after_command exp t2 ?s1"
  obtain r3 t3 where r3: "compile_protos G (proto_files (walk_dir G ?e t2)) [?e] out_dir t2 = (r3, t3)" by fastforce
  note R1 = run_status_run [OF r1, of "''buf dep update failed''"]
  note R2 = run_status_run [OF r2, of "''buf export failed''"]
  note unf = run_buf_and_tonic_def env_var_def ok_or_def out d [symmetric] Let_def ex [symmetric] dep_def [symmetric]
  consider (one) e where "fst (run_status G dep ''buf dep update failed'' s) = Done (Inl e)"
    | (two) o1 e where "r1 = Inr o1" "succeeded o1" "fst (run_status G exp ''buf export failed'' ?s1) = Done (Inl e)"
    | (three) o1 o2 where "r1 = Inr o1" "succeeded o1" "r2 = Inr o2" "succeeded o2"
    using R1 R2 by (cases r1; cases r2) (auto split: if_splits)
  then show thesis
  proof cases
    case one
    with R1 have "run_buf_and_tonic G manifest s = (Done (Inl e), ?s1)"
      by (simp add: unf bind_script_def script_simps)
    then show thesis by (rule that(1) [where cs = "[dep]"]) simp_all
  next
    case two
    with R1 R2 have "run_buf_and_tonic G manifest s = (Done (Inl e), ?s2)"
      by (simp add: unf bind_script_def script_simps)
    then show thesis by (rule that(1) [where cs = "[dep, exp]"]) simp_all
  next
    case three
    show thesis
    proof (cases r3)
      case (Inl e)
      with R1 R2 r3 three have "run_buf_and_tonic G manifest s = (Done (Inl e), ?s2\<lparr>tree_of := t3\<rparr>)"
        by (simp add: unf bind_script_def script_simps compile_def)
      then show thesis by (rule that(1) [where cs = "[dep, exp]"]) simp_all
    next
      case (Inr u)
      with R1 R2 r3 three have "run_buf_and_tonic G manifest s = (Done (Inr ()),
          ?s2\<lparr>tree_of := t3, printed := printed s @ [''cargo:rerun-if-changed=proto/'']\<rparr>)"
        by (simp add: unf bind_script_def script_simps compile_def)
      then show thesis
      proof (rule that(2) [rotated])
        show "generated G manifest out_dir (tree_of s) t1 t2 t3"
          using r1 r2 r3 three Inr by (simp add: generated_def ex dep_def)
      qed simp_all
    qed
  qed
qed
lemma grpc_main_checked_in:
  assumes "env (host_of G) ''CARGO_MANIFEST_DIR'' = Some m"
    and "path_exists (tree_of s) (checked_in_types (path_from (host_of G) m))"
  shows "grpc_main G s = (Done (Inr ()), s\<lparr>printed := printed s @
    [''cargo:rustc-check-cfg=cfg(proto_checked_in)'', ''cargo:rustc-cfg=proto_checked_in'',
     ''cargo:rerun-if-changed=src/generated/'']\<rparr>)"
  using assms by (simp add: grpc_main_def env_var_def ok_or_def Let_def script_simps)

lemma grpc_main_generates:
  assumes "env (host_of G) ''CARGO_MANIFEST_DIR'' = Some m" and "\<not> path_exists (tree_of s) (checked_in_types (path_from (host_of G) m))"
    and "run_buf_and_tonic G (path_from (host_of G) m)
      (s\<lparr>printed := printed s @ [''cargo:rustc-check-cfg=cfg(proto_checked_in)'']\<rparr>) = (Done r, s')"
  shows "grpc_main G s = (case r of Inl e \<Rightarrow> if is_not_found e then Panic buf_missing else Done (Inl e)
    | Inr _ \<Rightarrow> Done (Inr ()), s')"
  using assms
  by (simp add: grpc_main_def env_var_def ok_or_def Let_def script_simps bind_script_def split: sum.split)

lemma proto_files_iff:
  "p \<in> set (proto_files items) \<longleftrightarrow> Inr p \<in> set items \<and> extension p = Some ''proto''"
  by (induction items) (auto simp: proto_files_def split: sum.split)

text \<open>The two ways \<open>grpc_main\<close> ends when Cargo has set its variables.\<close>

lemma grpc_main_outcome:
  fixes G m out s
  defines "manifest \<equiv> path_from (host_of G) m" and "out_dir \<equiv> path_from (host_of G) out"
  assumes m: "env (host_of G) ''CARGO_MANIFEST_DIR'' = Some m" and out: "env (host_of G) ''OUT_DIR'' = Some out"
    and run: "grpc_main G s = (r, s')"
  obtains (found) "path_exists (tree_of s) (checked_in_types manifest)" and "r = Done (Inr ())"
      and "tree_of s' = tree_of s" and "commands s' = commands s" and "cfg_checked_in s'"
  | (failed) e cs where "\<not> path_exists (tree_of s) (checked_in_types manifest)"
      and "r = (if is_not_found e then Panic buf_missing else Done (Inl e))"
      and "cfg_checked_in s' \<longleftrightarrow> cfg_checked_in s" and "commands s' = commands s @ cs"
      and "cs = [buf_dep_update (join manifest ''proto'')]
        \<or> cs = [buf_dep_update (join manifest ''proto''),
                buf_export G (join manifest ''proto'') (join out_dir ''buf_export'')]"
  | (made) t1 t2 t3 where "\<not> path_exists (tree_of s) (checked_in_types manifest)" and "r = Done (Inr ())"
      and "cfg_checked_in s' \<longleftrightarrow> cfg_checked_in s" and "generated G manifest out_dir (tree_of s) t1 t2 t3"
      and "tree_of s' = t3"
      and "commands s' = commands s @ [buf_dep_update (join manifest ''proto''),
        buf_export G (join manifest ''proto'') (join out_dir ''buf_export'')]"
proof (cases "path_exists (tree_of s) (checked_in_types manifest)")
  case True
  with run grpc_main_checked_in [OF m True [unfolded manifest_def]] show thesis
    by (intro found) (auto simp: manifest_def cfg_checked_in_def)
next
  case False
  let ?s = "s\<lparr>printed := printed s @ [''cargo:rustc-check-cfg=cfg(proto_checked_in)'']\<rparr>"
  note M = grpc_main_generates [OF m False [unfolded manifest_def]]
  show thesis
  proof (rule run_buf_and_tonic_outcome [OF out refl refl, of manifest ?s])
    fix e k cs
    assume R: "run_buf_and_tonic G manifest ?s = (Done (Inl e), k)" "commands k = commands ?s @ cs"
      "cs = [buf_dep_update (join manifest ''proto'')] \<or> cs = [buf_dep_update (join manifest ''proto''),
        buf_export G (join manifest ''proto'') (join (path_from (host_of G) out) ''buf_export'')]"
      "printed k = printed ?s"
    from M [OF R(1) [unfolded manifest_def]] run have "k = s'" by simp
    with failed [OF False, of e cs] M [OF R(1) [unfolded manifest_def]] run R show thesis
      by (auto simp: out_dir_def cfg_checked_in_def)
  next
    fix t1 t2 t3 k
    assume R: "generated G manifest (path_from (host_of G) out) (tree_of ?s) t1 t2 t3"
      "run_buf_and_tonic G manifest ?s = (Done (Inr ()), k)" "tree_of k = t3"
      "commands k = commands ?s @ [buf_dep_update (join manifest ''proto''),
        buf_export G (join manifest ''proto'') (join (path_from (host_of G) out) ''buf_export'')]"
      "printed k = printed ?s @ [''cargo:rerun-if-changed=proto/'']"
    from M [OF R(2) [unfolded manifest_def]] run have "k = s'" by simp
    with made [OF False, of t1 t2 t3] M [OF R(2) [unfolded manifest_def]] run R show thesis
      by (auto simp: out_dir_def cfg_checked_in_def)
  qed
qed

section \<open>Properties\<close>

text \<open>
  The script generates the types only if they are not checked in, and then with the two \<open>buf\<close>
  commands in the proto directory, the export only after the update; the crate is told to use the
  checked-in files exactly when they were there, and the only panic is the one for a missing tool.
\<close>

lemma grpc_commands:
  assumes "env (host_of G) ''CARGO_MANIFEST_DIR'' = Some m" and "env (host_of G) ''OUT_DIR'' = Some out"
    and "\<not> cfg_checked_in s" and "grpc_main G s = (r, s')"
  shows "\<exists>cs. commands s' = commands s @ cs
    \<and> (if path_exists (tree_of s) (checked_in_types (path_from (host_of G) m))
       then cs = [] \<and> r = Done (Inr ()) \<and> cfg_checked_in s' \<and> tree_of s' = tree_of s
       else prefix cs [buf_dep_update (join (path_from (host_of G) m) ''proto''),
                buf_export G (join (path_from (host_of G) m) ''proto'') (join (path_from (host_of G) out) ''buf_export'')]
         \<and> cs \<noteq> [] \<and> \<not> cfg_checked_in s' \<and> (r = Done (Inr ()) \<longrightarrow> length cs = 2)
         \<and> r \<noteq> Diverge \<and> (\<forall>msg. r = Panic msg \<longrightarrow> msg = buf_missing))"
proof (cases rule: grpc_main_outcome [OF assms(1,2,4), case_names found failed made])
  case found
  then show ?thesis by simp
next
  case (failed e cs)
  with assms(3) show ?thesis by (intro exI [of _ cs]) (auto split: if_splits)
next
  case (made t1 t2 t3)
  with assms(3) show ?thesis by auto
qed


text \<open>A machine with \<open>buf\<close> and \<open>protoc\<close>, building from a checkout without generated types.\<close>

definition proto_of :: "string \<Rightarrow> string" where
  "proto_of f = take (length f - 2) f @ ''proto''"

definition rust_file_of :: "path \<Rightarrow> string" where
  "rust_file_of p = take (length (last p) - 5) (last p) @ ''rs''"

definition sample_grpc :: grpc_host where
  "sample_grpc =
     \<lparr>host_of = \<lparr>env = [''CARGO_MANIFEST_DIR'' \<mapsto> ''/c'', ''OUT_DIR'' \<mapsto> ''/o''],
        exec = (\<lambda>c t. (Inr \<lparr>succeeded = True, status_text = ''exit status: 0'', stdout = [], stderr = []\<rparr>,
          if hd (args c) = ''export''
          then map (\<lambda>m. ([''o'', ''buf_export'', proto_of (snd m)], Dir 0)) grpc_modules @ t else t)),
        denied = (\<lambda>_. False), io_text = (\<lambda>_. []), host_windows = False, pkg_version = ''1''\<rparr>,
      cmd_not_found = (\<lambda>c t. False),
      walk_dir = (\<lambda>d t. map (\<lambda>e. Inr (fst e)) (filter (\<lambda>e. take (length d) (fst e) = d) t)),
      compile_protos = (\<lambda>ps incs d t.
        (Inr (), fold (\<lambda>p. put (join d (rust_file_of p)) (File \<lparr>file_len = 9, leading = [], body = 1\<rparr>)) ps t))\<rparr>"

definition sample_checkout :: build where
  "sample_checkout = \<lparr>tree_of = [([''c''], Dir 0), ([''o''], Dir 0)], printed = [], warned = [], commands = []\<rparr>"

lemma sample_env: "env (host_of sample_grpc) ''CARGO_MANIFEST_DIR'' = Some ''/c''"
  "env (host_of sample_grpc) ''OUT_DIR'' = Some ''/o''" "\<not> cfg_checked_in sample_checkout"
  "path_from (host_of sample_grpc) ''/c'' = [''c'']" "path_from (host_of sample_grpc) ''/o'' = [''o'']"
  by (simp_all add: sample_grpc_def sample_checkout_def cfg_checked_in_def path_from_def)

lemma sample_not_checked_in: "\<not> path_exists (tree_of sample_checkout) (checked_in_types [''c''])"
  by (simp add: sample_checkout_def checked_in_types_def path_exists_def node_at_def join_def)

lemma proto_names: "list_all (\<lambda>f. extension [''o'', ''buf_export'', proto_of f] = Some ''proto''
    \<and> rust_file_of [''o'', ''buf_export'', proto_of f] = f) (map snd grpc_modules)"
  by code_simp

lemma compiled_files:
  "p \<in> set ps \<or> (\<exists>r. node_at t (join d (rust_file_of p)) = Some (File r)) \<Longrightarrow>
   \<exists>r. node_at (fold (\<lambda>p. put (join d (rust_file_of p)) (File f)) ps t) (join d (rust_file_of p)) = Some (File r)"
  by (induction ps arbitrary: t) (auto simp: node_at_put join_def)

lemma sample_grpc_main: "\<exists>s. grpc_main sample_grpc sample_checkout = (Done (Inr ()), s)"
proof -
  obtain r s where run: "grpc_main sample_grpc sample_checkout = (r, s)" by fastforce
  have ok: "r = Done (Inr ())"
  proof -
    have "fst (run_buf_and_tonic sample_grpc [''c''] k) = Done (Inr ())" for k
      by (simp add: run_buf_and_tonic_def sample_grpc_def env_var_def ok_or_def Let_def run_status_def
          run_command_def bind_script_def script_simps compile_def buf_dep_update_def buf_export_def)
    then obtain k where "run_buf_and_tonic sample_grpc [''c'']
        (sample_checkout\<lparr>printed := printed sample_checkout @ [''cargo:rustc-check-cfg=cfg(proto_checked_in)'']\<rparr>)
        = (Done (Inr ()), k)" by (metis prod.collapse)
    from grpc_main_generates [OF sample_env(1), unfolded sample_env, OF sample_not_checked_in this] run
    show ?thesis by simp
  qed
  with run show ?thesis by blast
qed

lemma grpc_commands_example:
  "length (commands (snd (grpc_main sample_grpc sample_checkout))) = 2"
proof -
  obtain s where run: "grpc_main sample_grpc sample_checkout = (Done (Inr ()), s)" using sample_grpc_main by blast
  from grpc_commands [OF sample_env(1-3) run] sample_not_checked_in run
  show ?thesis by (auto simp: sample_env sample_checkout_def)
qed


end
