(* ===== verification/Spec2Isabelle.thy ===== *)
theory Spec2Isabelle
  imports Concurrent_Stores Resources Authorization Stream_Test_Facts Rpc_Exports Library_Facts Build_Facts Grpc_Build
begin

text \<open>
  A model of \<open>spicedb-embedded\<close>, the Rust crates that run SpiceDB inside the calling process, with the
  Go library they load and the build script that provides it.

  Parts of the program.  The crate \<open>spicedb-embedded\<close> (\<open>src/rust/src\<close>) is the public API: it starts an
  instance, optionally bootstraps it with a schema and relationships, makes unary gRPC calls and
  disposes of the instance when it is dropped.  It rests on \<open>spicedb-embedded-sys\<close>
  (\<open>src/rust/spicedb-embedded-sys\<close>), safe wrappers over five C functions and a build script.  The C
  functions are exported by the Go library in \<open>src/shared/c\<close>, which keeps a table of instances: a
  SpiceDB server, an in-memory gRPC connection to it and a streaming proxy each.  Start and dispose
  speak JSON over C strings, unary calls protobuf bytes over out-parameters; every string or buffer
  the library returns has to be given back.

  Theories.
  \<^item> \<open>Prelude\<close>: results, decimal and hexadecimal text, string helpers, the C view of a string.
  \<^item> \<open>Utf8\<close>: validity, lossy decoding, debug output of Rust strings.
  \<^item> \<open>C_Memory\<close>: the heap of C allocations; freeing twice or reading freed memory is \<open>None\<close>.
  \<^item> \<open>Transport\<close>: \<open>spicedb-embedded-sys/src\<close>; a process is the heap and the library's state.  The locale
    \<open>c_library\<close> states what the wrappers need of the C functions.
  \<^item> \<open>Json\<close>: values, writers and the reader at the boundary, with the round trip.
  \<^item> \<open>Go_Library\<close>: \<open>main.go\<close>, \<open>rpc.go\<close> and the start of \<open>streaming_proxy.go\<close>, up to the
    interpretation \<open>go\<close> of \<open>c_library\<close>, for every choice of the packages the library calls.
  \<^item> \<open>Rpc_Exports\<close>: the exports of \<open>rpc.go\<close> for one method each, which agree with the general one.
  \<^item> \<open>Sample_Packages\<close>, \<open>Library_Facts\<close>: one concrete choice of packages for worked examples; what the
    library and the wrappers guarantee.
  \<^item> \<open>Interleaving\<close>, \<open>Concurrent\<close>, \<open>Linearizable\<close>, \<open>Concurrent_Facts\<close>: the exported functions split at the
    mutex, the atomic id and the tracer provider, called from any number of threads.
  \<^item> \<open>Trace_Context\<close>: \<open>trace_context.rs\<close> and the trace forwarding of the proxy.
  \<^item> \<open>Streaming_Proxy\<close>: the handlers of \<open>streaming_proxy.go\<close> and their copy loop.
  \<^item> \<open>Embedded\<close>: \<open>spicedb.rs\<close> and the error type of \<open>lib.rs\<close>, run on the Go library.
  \<^item> \<open>System\<close>: a program that starts, calls and drops in any order, as a step relation.
  \<^item> \<open>Library_Runs\<close>: a step of such a program is one call of the library or none; the locale
    \<open>library_invariant\<close>.  \<open>Addresses\<close> and \<open>Resources\<close> interpret it, for the sockets of the proxies and
    for a ledger of what the library has opened and not closed.
  \<^item> \<open>Stores\<close>, \<open>Sample_Stores\<close>, \<open>Behaviour\<close>: the crate with in-memory datastores as a table of stores,
    one per live handle; what a program observes, as a sequence of events.  \<open>Concurrent_Stores\<close>: what
    concurrent callers observe, against one atomic table of stores.  \<open>Streams\<close>: the store a stream
    reads that is opened at the address of an instance.
  \<^item> \<open>File_System\<close>, \<open>Build_Script\<close>: \<open>build.rs\<close> over a file tree, an environment and the commands of a
    host.  \<open>Script_Logic\<close>: contracts that hold on every path of a script, as locales with an
    interpretation each.  \<open>Copy_Facts\<close>: the directory copy.  \<open>Build_Facts\<close>: what the script guarantees.
  \<^item> \<open>Grpc_Build\<close>: the build script and the includes of \<open>spicedb-grpc-tonic\<close>.
  \<^item> \<open>Docs_App\<close>, \<open>Docs_Main\<close>: the Google Docs example and its main program.
  \<^item> \<open>Policies\<close>, \<open>Drive_Schema\<close>, \<open>Authorization\<close>: stores with a schema and relationships; what the schema of
    the example means; the checks of a bootstrapped instance and the answers of the example's server.
  \<^item> \<open>Crate_Tests\<close>, \<open>Test_Facts\<close>: the unit tests of the crate as scripts, and why they hold.
    \<open>Stream_Tests\<close>, \<open>Stream_Test_Facts\<close>: the tests that open a stream, over a \<open>network\<close>, and why they hold.

  How state and operations correspond.  A Rust function that calls the library is a function from a
  process to an optional result and process; \<open>None\<close> is undefined behaviour, a panic of the Go runtime,
  or a wait that never ends, and the theorems show that it does not occur.  The results are sums, with
  the error types of the code.  The functions keep their names, except where two crates use the same
  one: the typed methods of the client are \<open>client_check_permission\<close> and so on, \<open>instance::start\<close> is
  \<open>sys_start\<close>, \<open>Drop\<close> is \<open>drop_db\<close>, the Go functions carry the prefix \<open>go\<close> before their results are
  exported.  Handles are 64-bit words, C lengths signed 32-bit words.

  What the lemmas show.  In \<open>System\<close>: along every run the owned handles are the instances of the
  library, no C allocation leaks, every operation returns and everything can be released; in \<open>Addresses\<close>
  and \<open>Resources\<close> that live instances never share a socket and that what is open belongs to a live
  instance, apart from the connections of starts whose proxy failed; in \<open>Behaviour\<close> that the answers a
  program gets are those of a table of isolated stores, and in \<open>Streams\<close> so are its streams; in \<open>Authorization\<close> that a
  bootstrapped instance decides its checks by the schema and the relationships it was given, and the
  example's server its requests by the hierarchy of folders; in \<open>Test_Facts\<close>
  and \<open>Stream_Test_Facts\<close> that the unit tests hold.
  In \<open>Embedded\<close>: start, bootstrap, calls and drop refine their specifications on the library's state,
  errors included.  In
  \<open>Library_Facts\<close>: starts are all or nothing and disposal takes them back, and the case in which the
  pairing fails.  In \<open>Linearizable\<close> and \<open>Concurrent_Facts\<close>: concurrent calls act on the table as if one
  after the other, none waits for ever, a program that respects ownership never meets a dead handle,
  and overlapping starts can lose a tracer; in \<open>Concurrent_Stores\<close> that such a program sees an atomic
  table of stores, whatever the schedule; an uninterrupted call is the one step of \<open>Go_Library\<close>.  In
  \<open>Build_Facts\<close> and \<open>Grpc_Build\<close>: what a successful build has put in place, which commands it can run,
  and that it ends.  In \<open>Docs_App\<close>, \<open>Trace_Context\<close>, \<open>Streaming_Proxy\<close> and \<open>Json\<close>:
  access decisions, trace propagation, the forwarding of streams, the text format.

  Bounds and fuel.  The JSON reader has the length of the text plus one as fuel, and any larger amount
  reads the same.  The directory copy of the build script has the depth of the tree plus one, which
  \<open>Copy_Facts\<close> shows to be enough.  A call of the library has at most seven parts.  Handles wrap after
  \<open>2 ^ 64\<close> starts; the theorems about fresh handles assume an id is left.  The absence of leaks assumes
  responses below 2 GiB, the limit of protobuf.

  Parameters.  The packages the Go library calls (\<open>packages\<close>), \<open>serde_json\<close> (\<open>serde\<close>, with the documented
  behaviour \<open>serde_ok\<close>, which \<open>rfc_serde\<close> has), the protobuf codecs, the opentelemetry span, the check of
  metadata values, header decoding, the SpiceDB server (\<open>service\<close>, with the documented behaviour
  \<open>isolates\<close>, which \<open>store_packages\<close> has; it answers every call, so time-outs are left out) and the meaning
  of its schema language (\<open>sem\<close>, with the documented behaviour \<open>authorizes\<close>, and \<open>reads_drive_schema\<close> and
  \<open>reads_test_schema\<close> for the two schemas of the repository, without caveats and expiration), the backend
  of a stream (for \<open>Streams\<close> with the documented behaviour \<open>streams_answered\<close>), the network of the stream
  tests (\<open>reaches_proxies\<close>: a dialled socket path is served by its proxy; \<open>lists_relationships\<close>,
  \<open>reads_back\<close> and \<open>reports_updates\<close>: what SpiceDB documents of reads, the schema text and watches, which
  \<open>list_network\<close> has), and the hosts of the build scripts.

  Not modelled: the generated protobuf code; HTTP routing of the example; the tests that need a database
  container; clocks and printing in the tests; integration tests and the bindings of
  other languages.
\<close>

end
